(* ===== verification/Prelude.thy ===== *)
theory Prelude
  imports Main "HOL-Library.Word" "HOL-Library.Signed_Division" "HOL-Library.Sublist"
begin

text \<open>
  Shared types, arithmetic and lemmas of the development.  Fixed-width unsigned
  integers of the C code are words; a C \<open>int\<close> is an Isabelle \<open>int\<close> whose results
  are reduced by \<open>i32\<close> (two's complement, 32 bits) where the code computes with it;
  C's truncating division and remainder are \<open>sdiv\<close> and \<open>smod\<close>.  Pointers are 32-bit
  words, \<open>0\<close> is the null pointer.  The named collections \<open>c_arith\<close> and \<open>fw_simps\<close> are
  filled by the component theories.
\<close>

unbundle bit_operations_syntax

named_theorems c_arith \<open>range facts about C arithmetic\<close>
named_theorems fw_simps \<open>how firmware calls and component steps change the world\<close>

type_synonym u8 = "8 word"
type_synonym u16 = "16 word"
type_synonym u32 = "32 word"
type_synonym addr = u32

subsection \<open>C integers\<close>

definition i32 :: "int \<Rightarrow> int" where
  "i32 x = signed_take_bit 31 x"

definition i16 :: "int \<Rightarrow> int" where
  "i16 x = signed_take_bit 15 x"

lemma i32_id [c_arith]: "- (2 ^ 31) \<le> x \<Longrightarrow> x < 2 ^ 31 \<Longrightarrow> i32 x = x"
  unfolding i32_def by (rule signed_take_bit_int_eq_self) simp_all

lemma i32_range: "- (2 ^ 31) \<le> i32 x \<and> i32 x < 2 ^ 31"
  unfolding i32_def
  using signed_take_bit_int_greater_eq_minus_exp [of 31 x] signed_take_bit_int_less_exp [of 31 x]
  by simp

lemma sint_word_of_int_u32: "sint (word_of_int x :: u32) = i32 x"
  by (simp add: i32_def signed_of_int)

lemma i16_id [c_arith]: "- (2 ^ 15) \<le> x \<Longrightarrow> x < 2 ^ 15 \<Longrightarrow> i16 x = x"
  unfolding i16_def by (rule signed_take_bit_int_eq_self) simp_all

text \<open>A C truth value: the \<open>!x\<close> operator and a flag stored in an integer.\<close>

definition c_not :: "u32 \<Rightarrow> u32" where
  "c_not x = (if x = 0 then 1 else 0)"

lemma c_not_c_not: "x = 0 \<or> x = 1 \<Longrightarrow> c_not (c_not x) = x"
  by (auto simp: c_not_def)

lemma c_not_bool [simp]: "c_not x = 0 \<or> c_not x = 1"
  by (simp add: c_not_def)

text \<open>Bytes of a word, least significant first (the ARM runs little-endian).\<close>

definition byte_of :: "u32 \<Rightarrow> nat \<Rightarrow> u8" where
  "byte_of w k = ucast (drop_bit (8 * k) w)"

definition bytes_of :: "u32 \<Rightarrow> u8 list" where
  "bytes_of w = [byte_of w 0, byte_of w 1, byte_of w 2, byte_of w 3]"

lemma length_bytes_of [simp]: "length (bytes_of w) = 4"
  by (simp add: bytes_of_def)

subsection \<open>Lists\<close>

lemma foldl_append_map: "foldl (\<lambda>acc x. acc @ [f x]) acc xs = acc @ map f xs"
  by (induction xs arbitrary: acc) auto

lemma takeWhile_append_stop:
  "(\<forall>c \<in> set xs. P c) \<Longrightarrow> \<not> P y \<Longrightarrow> takeWhile P (xs @ y # ys) = xs"
  by (induction xs) auto

lemma dropWhile_append_stop:
  "(\<forall>c \<in> set xs. P c) \<Longrightarrow> \<not> P y \<Longrightarrow> dropWhile P (xs @ y # ys) = y # ys"
  by (induction xs) auto

lemma takeWhile_all: "(\<forall>c \<in> set xs. P c) \<Longrightarrow> takeWhile P xs = xs"
  by (induction xs) auto

lemma dropWhile_hd_stop: "xs = [] \<or> \<not> P (hd xs) \<Longrightarrow> dropWhile P xs = xs"
  by (cases xs) auto

lemma rev_dropWhile_last:
  "xs = [] \<or> \<not> P (last xs) \<Longrightarrow> rev (dropWhile P (rev xs)) = xs"
  by (cases xs rule: rev_cases) auto

subsection \<open>Settings that a key press steps through\<close>

text \<open>
  Many menu entries step a setting to its next value and wrap around.  Their shared
  contract: the step keeps the setting in its range, and from any value in range
  pressing the key often enough comes back to it.
\<close>

locale cyclic_setting =
  fixes step :: "'a \<Rightarrow> 'a" and valid :: "'a \<Rightarrow> bool" and period :: nat
  assumes step_valid: "valid x \<Longrightarrow> valid (step x)"
    and period_pos: "0 < period"
    and returns: "valid x \<Longrightarrow> (step ^^ period) x = x"
begin

lemma presses_valid: "valid x \<Longrightarrow> valid ((step ^^ n) x)"
  by (induction n) (auto intro: step_valid)

lemma presses_cycle: "valid x \<Longrightarrow> (step ^^ (k * period)) x = x"
  by (induction k) (auto simp: funpow_add returns)

lemma presses_mod: "valid x \<Longrightarrow> (step ^^ n) x = (step ^^ (n mod period)) x"
proof -
  assume "valid x"
  have "(step ^^ n) x = (step ^^ (n mod period + (n div period) * period)) x"
    by simp
  also have "\<dots> = (step ^^ (n mod period)) x"
    using presses_cycle [OF \<open>valid x\<close>] by (simp only: funpow_add o_apply)
  finally show ?thesis .
qed

lemma step_inj: "valid x \<Longrightarrow> valid y \<Longrightarrow> step x = step y \<Longrightarrow> x = y"
proof -
  assume v: "valid x" "valid y" and eq: "step x = step y"
  have "(step ^^ period) z = (step ^^ (period - 1)) (step z)" for z
    using period_pos by (cases period) (auto simp: funpow_swap1)
  then show "x = y" using returns [OF v(1)] returns [OF v(2)] eq by metis
qed

end

end
