(* ===== verification/Crypt.thy ===== *)
theory Crypt
  imports Prelude
begin

text \<open>
  The firmware cipher of \<open>decrypt-block.c\<close> and \<open>dissect_fw.c\<close>: two XOR tables of 512
  and 513 bytes walked by two wrapping offsets that \<open>getoffsets\<close> computes from the base
  address.  The keystream contract is the locale \<open>xor_stream\<close>; a stream that can be
  resumed in the middle is \<open>resumable_xor_stream\<close>.  The width of \<open>uintptr_t\<close> is a type
  parameter, since these are host tools.
\<close>

subsection \<open>The tables\<close>

definition CRYPT1 :: "u8 list" where
  "CRYPT1 = [
    0x07, 0x9E, 0xD5, 0x5E, 0x19, 0xB5, 0xE6, 0x2B, 0x17, 0xA5, 0xC1, 0xA2, 0xBD, 0x59, 0x38, 0x68,
    0xEC, 0xFE, 0x2D, 0x8C, 0x14, 0x99, 0xE6, 0xB9, 0x54, 0xAD, 0x85, 0x84, 0x40, 0x48, 0xCE, 0x78,
    0xA4, 0xA0, 0xA7, 0x4B, 0xEC, 0x59, 0xCD, 0x93, 0xD8, 0x8C, 0xA7, 0x33, 0xB0, 0xA1, 0x78, 0x66,
    0x0A, 0x8C, 0xB6, 0x26, 0x80, 0xDB, 0x49, 0xC1, 0x54, 0xD9, 0x88, 0x0C, 0xA2, 0x8A, 0xF1, 0x68,
    0x2A, 0xBC, 0x12, 0x93, 0x23, 0x74, 0x11, 0x4C, 0x66, 0x67, 0x93, 0x81, 0x12, 0x6B, 0x04, 0x52,
    0x79, 0xEC, 0x90, 0xD4, 0xF7, 0x1E, 0xB9, 0x6B, 0xEB, 0x6C, 0xF9, 0x86, 0x58, 0x97, 0xDA, 0xF0,
    0x7D, 0x3D, 0xC4, 0xEA, 0x8F, 0x48, 0x75, 0x21, 0x62, 0xC7, 0x5F, 0xFB, 0x93, 0xF9, 0xC3, 0x91,
    0x83, 0xF6, 0x64, 0x46, 0xA9, 0x14, 0x64, 0xCB, 0xF2, 0x4C, 0xAB, 0x8F, 0xE9, 0xAE, 0xC9, 0xE8,
    0xC3, 0x5D, 0xC0, 0x07, 0xD4, 0xD2, 0xD5, 0xEC, 0x7E, 0x89, 0x3E, 0x65, 0x66, 0xDA, 0x2A, 0xB1,
    0xB7, 0xD0, 0x47, 0x0A, 0x3A, 0x93, 0x52, 0x49, 0x5F, 0xAB, 0xD7, 0x21, 0x79, 0xF0, 0xF7, 0xAF,
    0x90, 0x60, 0x52, 0x88, 0x80, 0x7F, 0x31, 0xBA, 0xF3, 0x2D, 0x04, 0xA2, 0xE8, 0x66, 0xB5, 0x68,
    0x6D, 0x15, 0x58, 0x94, 0x1C, 0xC4, 0x16, 0x68, 0xF3, 0xE2, 0x20, 0x68, 0x89, 0x3E, 0x08, 0xD8,
    0x43, 0xA2, 0xD0, 0x27, 0x55, 0x58, 0x51, 0xF6, 0x8B, 0x49, 0x14, 0xF6, 0xE9, 0xBD, 0x37, 0xFB,
    0x80, 0xBA, 0x99, 0xAD, 0x4C, 0x55, 0xC1, 0xDD, 0x89, 0xDE, 0xF8, 0x2D, 0x72, 0x2C, 0xB9, 0x37,
    0x84, 0x45, 0x34, 0x9D, 0xBE, 0x83, 0x42, 0x9A, 0x2D, 0xD7, 0x78, 0xE5, 0x0F, 0xAC, 0xA7, 0xCC,
    0xC3, 0x35, 0xDC, 0x56, 0x7F, 0xBD, 0xC4, 0xBF, 0xA1, 0x41, 0x44, 0x5F, 0xAD, 0x45, 0x68, 0x65,
    0x7F, 0x10, 0x73, 0x4B, 0x89, 0x72, 0x2F, 0xDA, 0xD0, 0xC3, 0x3F, 0x26, 0xD9, 0x5E, 0x94, 0x61,
    0xF8, 0x21, 0x19, 0xD5, 0xF9, 0x1B, 0x18, 0xF5, 0xDD, 0x26, 0x79, 0xF4, 0xF2, 0x44, 0x77, 0x44,
    0xCD, 0x83, 0x44, 0x12, 0xCE, 0x37, 0xB9, 0x25, 0xDE, 0x0F, 0x12, 0x2A, 0x5D, 0xD6, 0x7D, 0x1F,
    0x39, 0x10, 0x4F, 0x7F, 0xB9, 0x75, 0x1C, 0xAB, 0x8B, 0x43, 0xEB, 0x3D, 0xC1, 0x8C, 0xCB, 0x2B,
    0x1E, 0x45, 0x7D, 0x31, 0x1A, 0xC9, 0x8B, 0xDB, 0x65, 0xD0, 0x75, 0x50, 0xEB, 0xB3, 0x65, 0xFB,
    0x05, 0xCE, 0xC0, 0xCF, 0x58, 0x24, 0xFB, 0x1C, 0x94, 0x4B, 0x6A, 0x15, 0xEF, 0x32, 0xB3, 0x9B,
    0x63, 0x91, 0xC2, 0x61, 0xE6, 0x66, 0x0A, 0xCA, 0xA8, 0xE5, 0x5B, 0x98, 0x95, 0x52, 0xAA, 0x9F,
    0xC5, 0xB0, 0x9D, 0x3A, 0x98, 0x43, 0x2D, 0x7D, 0x14, 0x74, 0x34, 0x6B, 0xB1, 0x11, 0x19, 0x64,
    0x07, 0x7D, 0x11, 0x0B, 0x13, 0x77, 0xE4, 0x46, 0x86, 0xEF, 0x2B, 0x7F, 0x5E, 0x05, 0xF1, 0xB4,
    0x12, 0xC3, 0xAB, 0x34, 0xCA, 0x64, 0x62, 0x76, 0xA1, 0xDF, 0x37, 0x8F, 0xBF, 0xFA, 0xB3, 0x5C,
    0xE4, 0x59, 0x84, 0x22, 0xD1, 0x26, 0x8B, 0x5F, 0x8D, 0x44, 0x92, 0xD5, 0xDD, 0x61, 0x0F, 0xF2,
    0xA1, 0xC9, 0x02, 0x9C, 0x6F, 0xAC, 0x4A, 0x36, 0x99, 0x19, 0xDF, 0xF3, 0x20, 0xBF, 0xD9, 0x02,
    0xAE, 0x08, 0xF7, 0xC0, 0x6D, 0xA8, 0x24, 0x93, 0x94, 0xD4, 0x40, 0xF9, 0x67, 0xE2, 0x5C, 0x3B,
    0x37, 0xDF, 0xC8, 0xDB, 0x70, 0x18, 0xC5, 0xA2, 0x55, 0x5A, 0x04, 0xB6, 0x40, 0x63, 0xDE, 0xF6,
    0x4C, 0x78, 0x6F, 0xC7, 0xC2, 0x59, 0xB6, 0x8B, 0xF4, 0x35, 0x31, 0x19, 0x4F, 0xE2, 0x56, 0x39,
    0x50, 0x5C, 0x65, 0x0C, 0x29, 0xF2, 0x22, 0xE1, 0x35, 0x51, 0xE1, 0x91, 0x89, 0x52, 0xF3, 0x64]"

definition CRYPT2 :: "u8 list" where
  "CRYPT2 = [
    0xB8, 0xE4, 0x0F, 0xD5, 0xAC, 0x6B, 0x38, 0x5F, 0x4F, 0x75, 0x21, 0x0F, 0x38, 0x3B, 0x43, 0x0D,
    0x9F, 0xD8, 0x46, 0xCA, 0xB0, 0x7C, 0x26, 0x71, 0x6D, 0xCA, 0xB4, 0x48, 0xBE, 0x3C, 0x96, 0xAE,
    0xCE, 0x63, 0x88, 0xC2, 0x9A, 0x63, 0x49, 0x5F, 0xEF, 0xB9, 0x1F, 0xB8, 0x46, 0x66, 0x98, 0xF3,
    0x95, 0xB9, 0xBF, 0xBA, 0x15, 0x47, 0x56, 0x3A, 0x70, 0x88, 0x0A, 0x8D, 0x20, 0x3C, 0x2E, 0x1A,
    0x76, 0xDE, 0xE8, 0xB6, 0x9A, 0x65, 0x6B, 0xD8, 0x93, 0xF1, 0x55, 0xC5, 0x65, 0xA7, 0x97, 0xF3,
    0xC7, 0x43, 0x2E, 0xED, 0xA5, 0x19, 0x80, 0xB4, 0xFE, 0x39, 0x02, 0xD2, 0xDE, 0xF7, 0x4D, 0x31,
    0x61, 0x10, 0xC0, 0x45, 0x26, 0x9D, 0x37, 0x94, 0x2C, 0x19, 0xA7, 0xC7, 0x1A, 0xAC, 0xD8, 0xEC,
    0xFA, 0x9D, 0x2E, 0x18, 0xFB, 0x8E, 0x26, 0x25, 0xAD, 0x43, 0xC0, 0x59, 0x3B, 0x6E, 0x55, 0xFA,
    0x27, 0x18, 0x21, 0xED, 0x36, 0x54, 0x04, 0xB9, 0x9B, 0x54, 0x5E, 0x12, 0x31, 0x9E, 0x86, 0xBC,
    0xD6, 0x7A, 0x54, 0xF2, 0x02, 0x8B, 0x39, 0xC1, 0x4A, 0xAD, 0x3D, 0x3A, 0x12, 0x5A, 0x90, 0x3D,
    0xD5, 0x6F, 0x4E, 0x30, 0xE5, 0xFC, 0xAF, 0x75, 0x10, 0xB2, 0x0E, 0xE2, 0x8A, 0x9F, 0x46, 0x2B,
    0x34, 0xEA, 0x87, 0x73, 0xB7, 0x39, 0x51, 0x9B, 0xAB, 0x62, 0x27, 0xA8, 0xF1, 0xD7, 0xE7, 0xF2,
    0xE3, 0xAE, 0x9F, 0x21, 0x8F, 0x8F, 0x70, 0x0D, 0x4B, 0x0D, 0x7B, 0x25, 0xFC, 0xC9, 0x8C, 0xF6,
    0xD5, 0x21, 0xC1, 0xC8, 0xF9, 0x75, 0xAD, 0xE7, 0xA7, 0xB3, 0xF5, 0x31, 0xB1, 0xF6, 0x66, 0x7B,
    0xCA, 0x34, 0xDA, 0xCD, 0x37, 0xAB, 0x80, 0x44, 0x2F, 0x1C, 0x5B, 0xD3, 0x05, 0x94, 0x65, 0xC7,
    0xDC, 0xC3, 0x82, 0xAF, 0x8F, 0xA6, 0x56, 0x62, 0x28, 0x54, 0x7E, 0xF8, 0xEE, 0x49, 0x78, 0xD9,
    0x4B, 0xA8, 0x81, 0xDD, 0x3B, 0x71, 0xD2, 0x36, 0xB9, 0x18, 0xC9, 0x2D, 0xD7, 0x78, 0xFD, 0x66,
    0xE7, 0x85, 0xF2, 0x0F, 0xFC, 0xEB, 0x8B, 0x93, 0x76, 0x48, 0x53, 0xF8, 0x05, 0x94, 0x93, 0xAC,
    0x68, 0xE2, 0x3A, 0xB2, 0xE4, 0x65, 0x8B, 0x47, 0x75, 0x49, 0xF4, 0x5F, 0x59, 0x64, 0x5A, 0x16,
    0x3B, 0xB2, 0xB7, 0x37, 0x50, 0xA3, 0xBA, 0x4B, 0xB4, 0xE6, 0xAF, 0x9A, 0xC7, 0x6E, 0x15, 0x51,
    0x88, 0xB5, 0xE0, 0xFA, 0x09, 0xB4, 0x90, 0x47, 0xDD, 0x3D, 0x86, 0x90, 0xA9, 0x12, 0x30, 0x2F,
    0x79, 0x83, 0xDF, 0xF1, 0xA8, 0x2D, 0xC9, 0xBC, 0xFB, 0xBD, 0x61, 0x93, 0x3F, 0x18, 0xB9, 0x38,
    0x5C, 0xCA, 0x20, 0x58, 0x3B, 0x1C, 0xF3, 0xD9, 0x56, 0xBE, 0x5F, 0x1A, 0x3E, 0x0F, 0x18, 0xD5,
    0xF1, 0xA2, 0xFD, 0x8B, 0xB0, 0x27, 0x67, 0x0F, 0xB8, 0x4D, 0x51, 0xEB, 0x8B, 0x2C, 0x50, 0x14,
    0xDC, 0xD2, 0xAD, 0x7E, 0x06, 0xFE, 0x6A, 0x4D, 0x26, 0x38, 0x37, 0x9E, 0x77, 0x16, 0xBF, 0xB4,
    0xA0, 0xF9, 0x0A, 0x64, 0x0E, 0x7F, 0xD0, 0xF4, 0xE5, 0x72, 0x82, 0x72, 0xC8, 0x7A, 0xB7, 0xEC,
    0x8D, 0x53, 0x14, 0x2D, 0xA5, 0x98, 0xAD, 0xBE, 0x17, 0x83, 0x42, 0xD4, 0xC4, 0x04, 0xE7, 0xC2,
    0x4D, 0x20, 0x05, 0xDE, 0xAA, 0xE8, 0x09, 0xE7, 0x45, 0x15, 0x74, 0xEF, 0x7F, 0x6E, 0x38, 0x76,
    0xAA, 0x5B, 0x44, 0xCC, 0xFD, 0x82, 0x12, 0xF6, 0xDA, 0x33, 0x84, 0x0A, 0x6A, 0x5B, 0x34, 0xE7,
    0x9E, 0x22, 0x10, 0xF5, 0x8C, 0xA0, 0xCA, 0x92, 0x58, 0xA1, 0xD0, 0x46, 0x47, 0xDA, 0xF6, 0x43,
    0x3C, 0xF1, 0x17, 0x8F, 0x50, 0xE4, 0xFD, 0x33, 0xBD, 0x46, 0x83, 0x41, 0x0E, 0xD5, 0x27, 0x0D,
    0xB2, 0x87, 0x86, 0x16, 0x82, 0x1D, 0xDD, 0xE7, 0xE1, 0xEF, 0x29, 0x5D, 0x48, 0xF4, 0xFC, 0xF2,
    0x1D]"

lemma length_CRYPT1 [simp]: "length CRYPT1 = 512"
  by (simp add: CRYPT1_def)

lemma length_CRYPT2 [simp]: "length CRYPT2 = 513"
  by (simp add: CRYPT2_def)

subsection \<open>Offsets\<close>

definition crypt_magic :: u32 where "crypt_magic = 0xFF803FE1"

definition highbits :: "u32 \<Rightarrow> u32" where
  "highbits a = ucast (drop_bit 32 ((ucast a :: 64 word) * ucast crypt_magic))"

text \<open>\<open>decrypt-block.c\<close>: the first offset keeps the low bits by a shift pair at the
  width of \<open>uintptr_t\<close>.\<close>

definition getoffsets :: "'a::len word \<Rightarrow> u32 \<times> u32" where
  "getoffsets base =
     (let h = highbits (ucast base) in
      (ucast (drop_bit 23 (push_bit 23 base)),
       ucast base - (drop_bit 9 h + (h AND 0xFFFFFE00))))"

text \<open>\<open>dissect_fw.c\<close>: the same with a byte mask for the first offset.\<close>

definition getoffsets_fw :: "'a::len word \<Rightarrow> u32 \<times> u32" where
  "getoffsets_fw base =
     (let h = highbits (ucast base) in
      (ucast (base AND 0xFF),
       ucast base - (drop_bit 9 h + (h AND 0xFFFFFE00))))"

subsection \<open>The loop\<close>

definition bump :: "u32 \<Rightarrow> u32 \<Rightarrow> u32" where
  "bump limit off = (if off + 1 \<ge> limit then 0 else off + 1)"

fun decrypt_loop :: "u32 \<Rightarrow> u32 \<Rightarrow> u8 list \<Rightarrow> u8 list" where
  "decrypt_loop offset1 offset2 [] = []"
| "decrypt_loop offset1 offset2 (b # bs) =
     (b XOR (CRYPT1 ! unat offset1 XOR CRYPT2 ! unat offset2 XOR 0x37))
       # decrypt_loop (bump 512 offset1) (bump 513 offset2) bs"

definition decrypt_block :: "'a::len word \<Rightarrow> u8 list \<Rightarrow> u8 list" where
  "decrypt_block base buf = (case getoffsets base of (o1, o2) \<Rightarrow> decrypt_loop o1 o2 buf)"

definition decrypt_block_fw :: "'a::len word \<Rightarrow> u8 list \<Rightarrow> u8 list" where
  "decrypt_block_fw base buf = (case getoffsets_fw base of (o1, o2) \<Rightarrow> decrypt_loop o1 o2 buf)"

text \<open>The filter's \<open>main\<close> loop: each \<open>read\<close> of at most 4096 bytes is decrypted at the
  running offset and written out; an empty read ends it.\<close>

fun decrypt_main :: "u32 \<Rightarrow> u8 list list \<Rightarrow> u8 list" where
  "decrypt_main offset [] = []"
| "decrypt_main offset (chunk # reads) =
     (if chunk = [] then []
      else decrypt_block offset chunk @ decrypt_main (offset + of_nat (length chunk)) reads)"

definition decrypt_main_offset :: "u32 option \<Rightarrow> u32 option \<Rightarrow> u32" where
  "decrypt_main_offset argv1 argv2 =
     (let offset = (case argv1 of None \<Rightarrow> 0x800120 | Some v \<Rightarrow> v)
      in case argv2 of None \<Rightarrow> offset | Some v \<Rightarrow> offset + (v - 0x800120))"

subsection \<open>Lemmas on the offsets\<close>


lemma high_mask: "(h::u32) AND 0xFFFFFE00 = push_bit 9 (drop_bit 9 h)"
proof -
  have "push_bit 9 (drop_bit 9 h) = h AND NOT (mask 9)"
    by (rule bit_word_eqI) (auto simp: bit_simps)
  moreover have "NOT (mask 9) = (0xFFFFFE00 :: u32)" by (simp add: mask_eq_exp_minus_1)
  ultimately show ?thesis by simp
qed

lemma magic_div:
  assumes "(n::nat) < 2 ^ 32"
  shows "n * 0xFF803FE1 div 2 ^ 41 = n div 513"
proof -
  define q r where "q = n div 513" and "r = n mod 513"
  have n: "n = 513 * q + r" and r: "r \<le> 512" by (auto simp: q_def r_def)
  have q: "q \<le> 8372255" using assms unfolding n by simp
  have "n * 0xFF803FE1 div 2199023255552 = q"
    by (rule div_nat_eqI) (use n r q in simp_all)
  then show ?thesis by (simp add: q_def)
qed

lemma unat_highbits: "unat (highbits a) = unat a * 0xFF803FE1 div 2 ^ 32"
proof -
  have "unat a < 2 ^ 32" using unsigned_less [of a] by simp
  then have lt: "unat a * 0xFF803FE1 < 2 ^ 64" by simp
  have p: "unat ((ucast a :: 64 word) * ucast crypt_magic) = unat a * 0xFF803FE1"
    using lt \<open>unat a < 2 ^ 32\<close> by (simp add: crypt_magic_def unat_word_ariths unsigned_ucast_eq take_bit_nat_eq_self)
  have "unat a * 0xFF803FE1 div 2 ^ 32 < 2 ^ 32" using lt by simp
  then show ?thesis
    by (simp add: highbits_def unsigned_ucast_eq drop_bit_eq_div unat_div p take_bit_nat_eq_self)
qed

lemma offset2_mod: "a - (drop_bit 9 (highbits a) + (highbits a AND 0xFFFFFE00)) = (a::u32) mod 513"
proof -
  let ?q = "drop_bit 9 (highbits a)"
  have n: "unat a < 2 ^ 32" using unsigned_less [of a] by simp
  have "unat ?q = unat a * 0xFF803FE1 div 2 ^ 32 div 2 ^ 9"
    by (simp add: drop_bit_eq_div unat_div unat_highbits)
  also have "\<dots> = unat a * 0xFF803FE1 div 2 ^ 41" by (simp add: div_mult2_eq)
  finally have q: "unat ?q = unat a div 513" using magic_div [OF n] by simp
  then have "?q = a div 513" by (simp add: word_unat_eq_iff unat_div)
  moreover have "?q + (highbits a AND 0xFFFFFE00) = 513 * ?q"
    by (simp add: high_mask push_bit_eq_mult)
  ultimately show ?thesis by (simp add: minus_mult_div_eq_mod)
qed

lemma getoffsets_32: "getoffsets (base::u32) = (base mod 512, base mod 513)"
proof -
  have "drop_bit 23 (push_bit 23 base) = take_bit 9 base"
    by (rule bit_word_eqI) (auto simp: bit_simps)
  then show ?thesis
    by (simp add: getoffsets_def Let_def offset2_mod take_bit_eq_mod)
qed

lemma getoffsets_fw_32: "getoffsets_fw (base::u32) = (base mod 256, base mod 513)"
proof -
  have "base AND 0xFF = take_bit 8 base"
    by (simp add: take_bit_eq_mask mask_eq_exp_minus_1)
  then show ?thesis
    by (simp add: getoffsets_fw_def Let_def offset2_mod take_bit_eq_mod)
qed

subsection \<open>The keystream\<close>

definition key_byte :: "nat \<Rightarrow> nat \<Rightarrow> u8" where
  "key_byte i j = CRYPT1 ! (i mod 512) XOR CRYPT2 ! (j mod 513) XOR 0x37"

definition key_stream :: "u32 \<Rightarrow> nat \<Rightarrow> u8" where
  "key_stream base i = key_byte (unat base + i) (unat base + i)"

definition key_stream_fw :: "u32 \<Rightarrow> nat \<Rightarrow> u8" where
  "key_stream_fw base i = key_byte (unat base mod 256 + i) (unat base + i)"

lemma unat_bump:
  assumes "unat off < n" and "n < 1024"
  shows "unat (bump (of_nat n) off) = (unat off + 1) mod n"
proof -
  have n: "unat (of_nat n :: u32) = n" using assms(2) by (simp add: unat_of_nat take_bit_nat_eq_self)
  have s: "unat (off + 1) = unat off + 1"
    using assms by (simp add: unat_word_ariths)
  show ?thesis
    using assms by (cases "Suc (unat off) = n") (auto simp: bump_def word_le_nat_alt n s)
qed

lemma decrypt_loop_stream:
  "unat o1 < 512 \<Longrightarrow> unat o2 < 513 \<Longrightarrow>
   decrypt_loop o1 o2 buf = map (\<lambda>i. buf ! i XOR key_byte (unat o1 + i) (unat o2 + i)) [0..<length buf]"
proof (induction buf arbitrary: o1 o2)
  case (Cons b bs)
  have e: "unat (bump 512 o1) = (unat o1 + 1) mod 512" "unat (bump 513 o2) = (unat o2 + 1) mod 513"
    using unat_bump [of o1 512] unat_bump [of o2 513] Cons.prems by simp_all
  then have "unat (bump 512 o1) < 512" "unat (bump 513 o2) < 513" by simp_all
  note IH = Cons.IH [OF this]
  have k: "key_byte (Suc (unat o1) mod 512 + i) (Suc (unat o2) mod 513 + i)
      = key_byte (Suc (unat o1 + i)) (Suc (unat o2 + i))" for i
    by (simp add: key_byte_def mod_simps)
  have "decrypt_loop o1 o2 (b # bs) = (b XOR key_byte (unat o1) (unat o2)) #
      map (\<lambda>i. bs ! i XOR key_byte (unat o1 + Suc i) (unat o2 + Suc i)) [0..<length bs]"
    using Cons.prems by (simp add: IH e k) (simp add: key_byte_def)
  then show ?case by (simp add: map_upt_Suc del: upt_Suc)
qed simp

locale xor_stream =
  fixes crypt :: "'b \<Rightarrow> u8 list \<Rightarrow> u8 list" and stream :: "'b \<Rightarrow> nat \<Rightarrow> u8"
  assumes crypt_stream: "crypt base buf = map (\<lambda>i. buf ! i XOR stream base i) [0..<length buf]"
begin

lemma length_crypt: "length (crypt base buf) = length buf"
  by (simp add: crypt_stream)

lemma nth_crypt: "i < length buf \<Longrightarrow> crypt base buf ! i = buf ! i XOR stream base i"
  by (simp add: crypt_stream)

lemma crypt_crypt: "crypt base (crypt base buf) = buf"
  by (rule nth_equalityI) (simp_all add: length_crypt nth_crypt xor.assoc)

end

locale resumable_xor_stream = xor_stream +
  fixes advance :: "'b \<Rightarrow> nat \<Rightarrow> 'b" and fits :: "'b \<Rightarrow> nat \<Rightarrow> bool"
  assumes resume: "fits base n \<Longrightarrow> stream (advance base n) i = stream base (n + i)"
begin

lemma crypt_append:
  "fits base (length xs) \<Longrightarrow>
   crypt base (xs @ ys) = crypt base xs @ crypt (advance base (length xs)) ys"
  by (rule nth_equalityI) (auto simp: length_crypt nth_crypt nth_append resume)

end

lemma decrypt_block_stream:
  "decrypt_block base buf = map (\<lambda>i. buf ! i XOR key_stream base i) [0..<length buf]"
proof -
  have lt: "unat (base mod 512) < 512" "unat (base mod 513) < 513"
    by (simp_all add: unat_mod)
  have "key_byte (unat (base mod 512) + i) (unat (base mod 513) + i) = key_stream base i" for i
    by (simp add: key_stream_def key_byte_def unat_mod mod_simps)
  then show ?thesis
    by (simp add: decrypt_block_def getoffsets_32 decrypt_loop_stream [OF lt])
qed

lemma decrypt_block_fw_stream:
  "decrypt_block_fw base buf = map (\<lambda>i. buf ! i XOR key_stream_fw base i) [0..<length buf]"
proof -
  have "unat base mod 256 < 256" by simp
  then have lt: "unat (base mod 256) < 512" "unat (base mod 513) < 513"
    by (simp_all add: unat_mod)
  have "key_byte (unat (base mod 256) + i) (unat (base mod 513) + i) = key_stream_fw base i" for i
    by (simp add: key_stream_fw_def key_byte_def unat_mod mod_simps)
  then show ?thesis
    by (simp add: decrypt_block_fw_def getoffsets_fw_32 decrypt_loop_stream [OF lt])
qed

interpretation block: resumable_xor_stream decrypt_block key_stream
  "\<lambda>base n. base + of_nat n" "\<lambda>base n. unat base + n < 2 ^ 32"
proof unfold_locales
  fix base :: u32 and n i :: nat
  assume "unat base + n < 2 ^ 32"
  then have "unat (base + of_nat n) = unat base + n"
    by (simp add: unat_word_ariths unat_of_nat take_bit_nat_eq_self)
  then show "key_stream (base + of_nat n) i = key_stream base (n + i)"
    by (simp add: key_stream_def add.assoc)
qed (rule decrypt_block_stream)

interpretation fw: xor_stream decrypt_block_fw key_stream_fw
  by unfold_locales (rule decrypt_block_fw_stream)

text \<open>The filter decrypts a stream read in pieces as one block, as long as the running
  offset does not pass the 32-bit address range.\<close>

lemma decrypt_main_concat:
  "\<forall>c \<in> set reads. c \<noteq> [] \<Longrightarrow> unat offset + length (concat reads) < 2 ^ 32 \<Longrightarrow>
   decrypt_main offset reads = decrypt_block offset (concat reads)"
proof (induction reads arbitrary: offset)
  case Nil
  then show ?case by (simp add: decrypt_block_stream)
next
  case (Cons c cs)
  have fits: "unat offset + length c < 2 ^ 32" using Cons.prems(2) by simp
  then have "unat (offset + of_nat (length c)) = unat offset + length c"
    by (simp add: unat_word_ariths unat_of_nat take_bit_nat_eq_self)
  then have "decrypt_main (offset + of_nat (length c)) cs
      = decrypt_block (offset + of_nat (length c)) (concat cs)"
    using Cons.prems by (intro Cons.IH) auto
  then show ?case using Cons.prems(1) fits by (simp add: block.crypt_append)
qed

subsection \<open>Taking a firmware file apart\<close>

text \<open>
  \<open>dissect_fw.c\<close> reads the whole file, looks at the header and writes four pieces.  The
  struct of \<open>firmware.h\<close> declares \<open>data_len\<close> twice, so which of the two fields the tool
  means is an argument here.  \<open>opens i\<close> says whether the \<open>i\<close>-th \<open>fopen\<close> for writing
  succeeds; \<open>None\<close> stands for an access outside the file buffer.
\<close>

definition le32 :: "u8 list \<Rightarrow> nat \<Rightarrow> u32" where
  "le32 data off =
     ucast (data ! off) OR push_bit 8 (ucast (data ! (off + 1)))
     OR push_bit 16 (ucast (data ! (off + 2))) OR push_bit 24 (ucast (data ! (off + 3)))"

record fw_header =
  model_id :: u32
  fw_version :: "u8 list"
  crc :: u32
  flasher_offset :: u32
  file_header_size :: u32
  data_offset :: u32

definition hdr_size :: nat where "hdr_size = 0x120"

definition fw_header_t :: "u8 list \<Rightarrow> fw_header" where
  "fw_header_t data =
     \<lparr>model_id = le32 data 0, fw_version = take 0x10 (drop 0x10 data), crc = le32 data 0x20,
      flasher_offset = le32 data 0x24, file_header_size = le32 data 0x28,
      data_offset = le32 data 0x60\<rparr>"

definition region :: "nat \<Rightarrow> nat \<Rightarrow> 'a list \<Rightarrow> 'a list" where
  "region off n data = take n (drop off data)"

definition dissect_main ::
  "(nat \<Rightarrow> bool) \<Rightarrow> u32 \<Rightarrow> u8 list \<Rightarrow> (bool \<times> (string \<times> u8 list) list) option" where
  "dissect_main opens data_len data =
     (if \<not> opens 0 then Some (False, [])
      else if length data < hdr_size then None
      else
        let hdr = fw_header_t data; off = unat (data_offset hdr);
            header = (''0.header'', region 0 hdr_size data)
        in if \<not> opens 1 then Some (False, [])
           else if \<not> opens 2 then Some (False, [header])
           else if off < hdr_size \<or> length data < off then None
           else
             let flasher = (''1.flasher'',
                   decrypt_block_fw data_len (region hdr_size (off - hdr_size) data))
             in if \<not> opens 3 then Some (False, [header, flasher])
                else if length data < off + 0x18 then None
                else
                  let head = (''2.data_head'', region off 0x18 data)
                  in if \<not> opens 4 then Some (False, [header, flasher, head])
                     else Some (True, [header, flasher, head,
                       (''3.data_body'', region (off + 0x18) (length data - off - 0x18) data)]))"

lemma take_region: "a \<le> b \<Longrightarrow> region a (b - a) data @ drop b data = drop a data"
  by (simp add: region_def) (metis append_take_drop_id drop_drop le_add_diff_inverse2)

lemma dissect_main_pieces:
  assumes "dissect_main opens data_len data = Some (True, files)"
  shows "\<exists>h f b e. files = [(''0.header'', h), (''1.flasher'', f), (''2.data_head'', b), (''3.data_body'', e)]
    \<and> h @ decrypt_block_fw data_len f @ b @ e = data"
proof -
  define off where "off = unat (data_offset (fw_header_t data))"
  have b: "hdr_size \<le> off" "off + 0x18 \<le> length data"
    and files: "files = [(''0.header'', region 0 hdr_size data),
      (''1.flasher'', decrypt_block_fw data_len (region hdr_size (off - hdr_size) data)),
      (''2.data_head'', region off 0x18 data),
      (''3.data_body'', region (off + 0x18) (length data - off - 0x18) data)]"
    using assms unfolding dissect_main_def Let_def off_def [symmetric]
    by (auto split: if_splits)
  have "region off 0x18 data @ region (off + 0x18) (length data - off - 0x18) data = drop off data"
    using take_region [of off "off + 0x18" data] by (simp add: region_def)
  moreover have "region 0 hdr_size data @ drop hdr_size data = data" by (simp add: region_def)
  ultimately show ?thesis
    using take_region [OF b(1), of data] by (simp add: files fw.crypt_crypt)
qed

subsection \<open>Properties\<close>

text \<open>On 32-bit addresses the multiply-and-shift offset computation of
  \<open>decrypt-block.c\<close> is the remainder of the base by the two table sizes.\<close>

theorem getoffsets_reference:
  "getoffsets (base :: u32) = (base mod of_nat (length CRYPT1), base mod of_nat (length CRYPT2))"
  by (simp add: getoffsets_32)

text \<open>Decrypting a block twice at the same base gives the block back, for any block.\<close>

theorem decrypt_block_involution: "decrypt_block (base :: u32) (decrypt_block base buf) = buf"
  by (rule block.crypt_crypt)

text \<open>C15: the filter, reading its input in pieces of any sizes, computes the same bytes as
  one call of \<open>decrypt_block\<close> on the whole input at the start offset.\<close>

theorem decrypt_main_whole:
  assumes "\<forall>c \<in> set reads. c \<noteq> []" and "unat offset + length (concat reads) < 2 ^ 32"
  shows "decrypt_main offset reads = decrypt_block offset (concat reads)"
  using assms by (rule decrypt_main_concat)

theorem decrypt_main_whole_witness:
  "decrypt_main 0x800120 [[1, 2], [3]] = decrypt_block (0x800120 :: u32) [1, 2, 3 :: u8]"
  using decrypt_main_whole [where reads = "[[1, 2], [3]]" and offset = "0x800120"]
  by (simp del: decrypt_main.simps)

text \<open>Table indices stay inside the tables on a 32-bit \<open>uintptr_t\<close>, and leave
  \<open>CRYPT1\<close> on a 64-bit one, where the shift pair keeps 41 bits.\<close>

theorem getoffsets_bounds:
  "unat (fst (getoffsets (base :: u32))) < length CRYPT1
   \<and> unat (snd (getoffsets base)) < length CRYPT2
   \<and> length CRYPT1 \<le> unat (fst (getoffsets (0x800120 :: 64 word)))"
proof -
  have "unat (base mod 512) < 512" "unat (base mod 513) < 513" by (simp_all add: unat_mod)
  moreover have "fst (getoffsets (0x800120 :: 64 word)) = 0x800120"
    by (simp add: getoffsets_def Let_def)
  ultimately show ?thesis by (simp add: getoffsets_32)
qed


definition sample_firmware :: "u8 list" where
  "sample_firmware =
     replicate 0x60 0 @ [0x22, 1, 0, 0] @ replicate 0xBC 0 @ [1, 2] @ replicate 0x18 7 @ [9]"


end
