(* ===== verification/CFormat.thy ===== *)
theory CFormat
  imports Prelude
begin

text \<open>
  The conversions of the C standard's \<open>printf\<close> family that the sources use, and the
  digit strings they produce.  Strings are lists of characters without the terminator;
  \<open>cstr\<close> cuts a buffer at its first NUL.
\<close>

definition NUL :: char where "NUL = CHR 0x00"
definition TAB :: char where "TAB = CHR 0x09"
definition LF :: char where "LF = CHR 0x0A"
definition CR :: char where "CR = CHR 0x0D"

lemmas ctrl_defs = NUL_def TAB_def LF_def CR_def

definition cstr :: "string \<Rightarrow> string" where
  "cstr s = takeWhile (\<lambda>c. c \<noteq> NUL) s"

text \<open>Reading past the last character of a string meets the terminator.\<close>

definition peek :: "string \<Rightarrow> char" where
  "peek s = (case s of [] \<Rightarrow> NUL | c # _ \<Rightarrow> c)"

lemma peek_simps [simp]: "peek [] = NUL" "peek (c # s) = c"
  by (simp_all add: peek_def)

lemma cstr_id: "NUL \<notin> set s \<Longrightarrow> cstr s = s"
  unfolding cstr_def by (induction s) auto

subsection \<open>Digits\<close>

definition digit_char :: "nat \<Rightarrow> char" where
  "digit_char d = (if d < 10 then char_of (48 + d) else char_of (87 + d))"

fun digits :: "nat \<Rightarrow> nat \<Rightarrow> string" where
  "digits b n = (if n < b \<or> b < 2 then [digit_char n] else digits b (n div b) @ [digit_char (n mod b)])"

declare digits.simps [simp del]

definition pad_left :: "nat \<Rightarrow> char \<Rightarrow> string \<Rightarrow> string" where
  "pad_left w c s = replicate (w - length s) c @ s"

definition sign_of :: "int \<Rightarrow> string" where
  "sign_of x = (if x < 0 then ''-'' else '''')"

text \<open>\<open>%wd\<close>, \<open>%0wd\<close>, \<open>%+wd\<close>, \<open>%0wx\<close> and \<open>%ws\<close>.\<close>

definition fmt_d :: "nat \<Rightarrow> int \<Rightarrow> string" where
  "fmt_d w x = pad_left w CHR '' '' (sign_of x @ digits 10 (nat \<bar>x\<bar>))"

definition fmt_0d :: "nat \<Rightarrow> int \<Rightarrow> string" where
  "fmt_0d w x = sign_of x @ pad_left (w - length (sign_of x)) CHR ''0'' (digits 10 (nat \<bar>x\<bar>))"

definition fmt_plus_d :: "nat \<Rightarrow> int \<Rightarrow> string" where
  "fmt_plus_d w x = pad_left w CHR '' '' ((if x < 0 then ''-'' else ''+'') @ digits 10 (nat \<bar>x\<bar>))"

definition fmt_0x :: "nat \<Rightarrow> u32 \<Rightarrow> string" where
  "fmt_0x w x = pad_left w CHR ''0'' (digits 16 (unat x))"

definition fmt_s :: "nat \<Rightarrow> string \<Rightarrow> string" where
  "fmt_s w s = pad_left w CHR '' '' (cstr s)"

subsection \<open>Facts about digit strings\<close>

definition is_digit_char :: "char \<Rightarrow> bool" where
  "is_digit_char c \<longleftrightarrow> of_char c - 48 \<le> (9::nat) \<and> 48 \<le> (of_char c :: nat)"

lemma of_char_digit: "d < 10 \<Longrightarrow> (of_char (digit_char d) :: nat) = 48 + d"
  by (simp add: digit_char_def of_char_of)

lemma digits_small: "n < b \<Longrightarrow> digits b n = [digit_char n]"
  by (simp add: digits.simps)

lemma digits_step: "2 \<le> b \<Longrightarrow> b \<le> n \<Longrightarrow> digits b n = digits b (n div b) @ [digit_char (n mod b)]"
  by (subst digits.simps) simp

lemma digits_not_Nil [simp]: "digits b n \<noteq> []"
  by (subst digits.simps) auto

lemma digits_set:
  assumes "2 \<le> b"
  shows "set (digits b n) \<subseteq> digit_char ` {..<b}"
proof (induction n rule: less_induct)
  case (less n)
  show ?case
  proof (cases "n < b")
    case True
    then show ?thesis by (auto simp: digits_small)
  next
    case False
    then have "n div b < n" using assms by (auto intro: div_less_dividend)
    from less.IH [OF this] show ?thesis
      using False assms by (auto simp: digits_step)
  qed
qed

lemma digits_dec_chars: "c \<in> set (digits 10 n) \<Longrightarrow> is_digit_char c"
  using digits_set [of 10 n] by (auto simp: is_digit_char_def of_char_digit)

lemma length_digits_le:
  assumes "2 \<le> b" and "n < b ^ Suc k"
  shows "length (digits b n) \<le> Suc k"
  using assms(2)
proof (induction k arbitrary: n)
  case 0
  then show ?case by (simp add: digits_small)
next
  case (Suc k)
  show ?case
  proof (cases "n < b")
    case True
    then show ?thesis by (simp add: digits_small)
  next
    case False
    have "n div b < b ^ Suc k" using Suc.prems assms(1) by (simp add: less_mult_imp_div_less mult.commute)
    from Suc.IH [OF this] show ?thesis using False assms(1) by (simp add: digits_step)
  qed
qed

lemma digits_hd_nonzero: "0 < n \<Longrightarrow> hd (digits 10 n) \<noteq> digit_char 0"
proof (induction n rule: less_induct)
  case (less n)
  have inj: "d < 10 \<Longrightarrow> digit_char d = digit_char 0 \<Longrightarrow> d = 0" for d
    using of_char_digit [of d] of_char_digit [of 0] by auto
  show ?case
  proof (cases "n < 10")
    case True
    then show ?thesis using less.prems inj by (auto simp: digits_small)
  next
    case False
    then have "n div 10 < n" "0 < n div 10" by (auto simp: div_greater_zero_iff)
    from less.IH [OF this] False show ?thesis by (simp add: digits_step)
  qed
qed

end
