(* ===== verification/Firmware.thy ===== *)
theory Firmware
  imports Prelude
begin

text \<open>
  The boundary to the camera's own firmware.  DryOS and the Canon drivers are not part of
  the sources: every call into them is an event of the trace of a \<open>world\<close>, and what the
  call returns is the value of \<open>answers\<close>, an arbitrary function of the whole history of
  calls including the current one.  A component's state is a record that extends
  \<open>world\<close>, so its operations run in every larger state.  Calls to \<open>DebugMsg\<close>, which only
  log, are left out.
\<close>

datatype semaphore =
  Lens_sem | Focus_done_sem | Job_sem | Focus_stack_sem | Focus_task_sem
| Menu_sem | Gui_sem | Bracket_sem | Audio_gain_sem | Sounddev_alc_sem | Timecode_sem

datatype sem_call =
  Create_named_semaphore semaphore string int
| Take_semaphore semaphore int
| Give_semaphore semaphore

datatype prop_call =
  Prop_request_change u32 "u8 list"
| Prop_request_icu_auto_poweroff int
| Prop_cleanup u32 u32
| Prop_register_slave "u32 list" u32
| Prop_deliver u32 u32

datatype fio_call =
  FIO_GetFileSize string
| FIO_Open string u32
| FIO_CreateFile string
| FIO_CloseFile u32
| FIO_ReadFile u32 nat
| FIO_WriteFile u32 string
| LoadCalendarFromRTC
| FIO_FindFirstEx string
| FIO_FindNextEx u32

datatype draw_call =
  Bmp_printf u32 u32 u32 string
| Bmp_fill u8 u32 u32 u32 u32
| Bmp_hexdump u32 u32 u32 addr nat

datatype audio_call =
  Audio_ic_read u32
| Audio_ic_write u32
| Audio_read_level u32
| Sounddev_active_in u32 u32

datatype gui_call =
  Gui_task_create
| Gui_task_destroy addr
| Ctrlman_dispatch_event addr u32
| Gui_init_end
| Gui_massive_event_loop u32 u32 u32
| Gui_local_post u32 u32 u32
| Gui_other_post u32 u32 u32
| Gui_post_10000085 u32 u32 u32
| Gui_init_event u32
| Gui_change_mode u32
| Gui_change_shoot_type_post u32
| Gui_change_lcd_state_post u32
| Gui_timer_something u32 u32
| Gui_lock u32 u32 u32

datatype sys_call =
  Call_function string
| Msleep int
| Malloc nat
| Free addr
| Alloc_dma_memory nat
| Free_dma_memory addr
| Task_create string u32 u32 addr u32
| Entry_call addr addr
| Entry_display addr addr u32 u32 int
| Ptp_register_handler u32 addr u32
| Ptp_send "u32 list"
| Dm_set_store_level u32 u32
| Debug_manager string
| Mvr_call string int
| Read_block nat
| Write_block "u8 list"
| Python string u32

text \<open>Writes and reads of the system control coprocessor (by register, second register and
  opcode), and control passing to code at an address.\<close>

datatype cpu_call =
  Mcr nat nat nat u32
| Mrc nat nat nat
| Enter addr

datatype fw_event =
  Cpu cpu_call | Sem sem_call | Prop prop_call | Fio fio_call | Draw draw_call
| Audio audio_call | Gui gui_call | Sys sys_call

record world =
  trace :: "fw_event list"

type_synonym answers = "fw_event list \<Rightarrow> u32"

definition emit :: "fw_event \<Rightarrow> 'a world_scheme \<Rightarrow> 'a world_scheme" where
  "emit e w = w\<lparr>trace := trace w @ [e]\<rparr>"

text \<open>A call whose result the code uses.\<close>

definition ask :: "answers \<Rightarrow> fw_event \<Rightarrow> 'a world_scheme \<Rightarrow> u32 \<times> 'a world_scheme" where
  "ask orc e w = (orc (trace w @ [e]), emit e w)"

fun emits :: "fw_event list \<Rightarrow> 'a world_scheme \<Rightarrow> 'a world_scheme" where
  "emits [] w = w"
| "emits (e # es) w = emits es (emit e w)"

definition idle_world :: world where
  "idle_world = \<lparr>trace = []\<rparr>"

lemma trace_emit [simp]: "trace (emit e w) = trace w @ [e]"
  by (simp add: emit_def)

lemma more_emit [simp]: "world.more (emit e w) = world.more w"
  by (simp add: emit_def)

lemma trace_emits [simp]: "trace (emits es w) = trace w @ es"
  by (induction es arbitrary: w) auto

lemma more_emits [simp]: "world.more (emits es w) = world.more w"
  by (induction es arbitrary: w) auto

lemma emits_append: "emits (es @ fs) w = emits fs (emits es w)"
  by (induction es arbitrary: w) auto

lemma emits_eq: "emits es w = w\<lparr>trace := trace w @ es\<rparr>"
  by (induction es arbitrary: w) (auto simp: emit_def)

lemmas [fw_simps] = emit_def ask_def emits_eq

text \<open>Colours and font specifiers of \<open>bmp.h\<close>: a specifier packs the font number, the
  background and the foreground colour.\<close>

definition FONT_MASK :: u32 where "FONT_MASK = 0x00FF0000"
definition FONT_MONO :: u32 where "FONT_MONO = 0x00100000"
definition FONT_HUGE :: u32 where "FONT_HUGE = 0x00080000"
definition FONT_LARGE :: u32 where "FONT_LARGE = 0x00030000"
definition FONT_MED :: u32 where "FONT_MED = 0x00020000"
definition FONT_SMALL :: u32 where "FONT_SMALL = 0x00010000"

definition COLOR_EMPTY :: u32 where "COLOR_EMPTY = 0x00"
definition COLOR_BG :: u32 where "COLOR_BG = 0x03"
definition COLOR_WHITE :: u32 where "COLOR_WHITE = 0x01"
definition COLOR_BLUE :: u32 where "COLOR_BLUE = 0x0B"
definition COLOR_RED :: u32 where "COLOR_RED = 0x08"
definition COLOR_YELLOW :: u32 where "COLOR_YELLOW = 0x0F"

lemmas color_defs = COLOR_EMPTY_def COLOR_BG_def COLOR_WHITE_def COLOR_BLUE_def COLOR_RED_def
  COLOR_YELLOW_def

lemmas font_defs = FONT_MASK_def FONT_MONO_def FONT_HUGE_def FONT_LARGE_def FONT_MED_def
  FONT_SMALL_def

definition FONT :: "u32 \<Rightarrow> u32 \<Rightarrow> u32 \<Rightarrow> u32" where
  "FONT font fg bg = (font AND FONT_MASK) OR push_bit 8 (bg AND 0xFF) OR (fg AND 0xFF)"

definition fontspec_fg :: "u32 \<Rightarrow> u32" where
  "fontspec_fg fontspec = fontspec AND 0xFF"

definition fontspec_bg :: "u32 \<Rightarrow> u32" where
  "fontspec_bg fontspec = drop_bit 8 fontspec AND 0xFF"

definition MENU_FONT :: u32 where "MENU_FONT = FONT FONT_MONO COLOR_WHITE COLOR_BG"
definition MENU_FONT_SEL :: u32 where "MENU_FONT_SEL = FONT FONT_MONO COLOR_WHITE COLOR_BLUE"

definition menu_font :: "int \<Rightarrow> u32" where
  "menu_font selected = (if selected \<noteq> 0 then MENU_FONT_SEL else MENU_FONT)"

definition color_word :: "u8 \<Rightarrow> u32" where
  "color_word color = push_bit 24 (ucast color) OR push_bit 16 (ucast color)
     OR push_bit 8 (ucast color) OR ucast color"

lemma fontspec_fg_FONT: "fontspec_fg (FONT f fg bg) = fg AND 0xFF"
proof -
  have m: "(0xFF :: u32) = mask 8" "FONT_MASK = push_bit 16 (mask 8)"
    by (simp_all add: mask_eq_exp_minus_1 push_bit_eq_mult FONT_MASK_def)
  show ?thesis
    unfolding fontspec_fg_def FONT_def m
    by (rule bit_word_eqI) (auto simp: bit_simps)
qed

lemma fontspec_bg_FONT: "fontspec_bg (FONT f fg bg) = bg AND 0xFF"
proof -
  have m: "(0xFF :: u32) = mask 8" "FONT_MASK = push_bit 16 (mask 8)"
    by (simp_all add: mask_eq_exp_minus_1 push_bit_eq_mult FONT_MASK_def)
  show ?thesis
    unfolding fontspec_bg_def FONT_def m
    by (rule bit_word_eqI) (auto simp: bit_simps)
qed

lemma bytes_of_color_word: "bytes_of (color_word c) = [c, c, c, c]"
proof -
  have "byte_of (color_word c) k = c" if "k < 4" for k
  proof -
    have "k = 0 \<or> k = 1 \<or> k = 2 \<or> k = 3" using that by auto
    then show ?thesis unfolding byte_of_def color_word_def
      by (elim disjE) (rule bit_word_eqI, auto simp: bit_simps dest: bit_imp_le_length)+
  qed
  then show ?thesis by (simp add: bytes_of_def)
qed

end
