(* ===== verification/CStdio.thy ===== *)
theory CStdio
  imports CFormat Firmware
begin

text \<open>
  \<open>stdio.c\<close>: the C library routines that the camera's firmware lacks.  \<open>unsigned long\<close>
  is 32 bits on the camera's ARM, \<open>char\<close> is unsigned there.
\<close>

subsection \<open>Formatted output\<close>

text \<open>\<open>fprintf\<close> formats into a buffer of 256 bytes and writes as many bytes as the
  formatter reports, so a longer text would be written from beyond the buffer: \<open>None\<close>.\<close>

definition fprintf :: "u32 \<Rightarrow> string \<Rightarrow> 'a world_scheme \<Rightarrow> 'a world_scheme option" where
  "fprintf file s w =
     (if length s < 256 then Some (emit (Fio (FIO_WriteFile file s)) w) else None)"

definition snprintf :: "nat \<Rightarrow> string \<Rightarrow> string" where
  "snprintf max_len s = take (max_len - 1) s"

subsection \<open>Numbers\<close>

definition ISSPACE :: "char \<Rightarrow> bool" where
  "ISSPACE c \<longleftrightarrow> c = CHR '' '' \<or> c = TAB \<or> c = CR \<or> c = LF"

definition ULONG_MAX :: u32 where "ULONG_MAX = 0xFFFFFFFF"
definition LONG_MAX :: u32 where "LONG_MAX = 0x7FFFFFFF"

text \<open>The digit a character stands for, in the code's \<open>unsigned char\<close> arithmetic.\<close>

definition strto_digit :: "char \<Rightarrow> nat" where
  "strto_digit c =
     (let v = of_char c; d = (v + 256 - 48) mod 256; l = v OR 0x20
      in if d \<le> 9 then d else if 97 \<le> l then l - 87 else 40)"

fun strto_loop :: "nat \<Rightarrow> bool \<Rightarrow> string \<Rightarrow> u32 \<Rightarrow> bool \<Rightarrow> u32 \<times> bool" where
  "strto_loop base sflag s number negative =
     (let digit = strto_digit (peek s);
          cutoff = ULONG_MAX div of_nat base;
          cutoff_digit = ULONG_MAX mod of_nat base
      in if digit \<ge> base then (number, negative)
         else case s of [] \<Rightarrow> (number, negative)
         | _ # rest \<Rightarrow>
             if number > cutoff \<or> number = cutoff \<and> of_nat digit > cutoff_digit
             then strto_loop base sflag rest ULONG_MAX (negative \<and> sflag)
             else strto_loop base sflag rest (number * of_nat base + of_nat digit) negative)"

declare strto_loop.simps [simp del]

definition strto_sign :: "string \<Rightarrow> bool \<times> string" where
  "strto_sign s = (if peek s = CHR ''-'' then (True, tl s)
     else if peek s = CHR ''+'' then (False, tl s) else (False, s))"

text \<open>Base 0 picks the base from the prefix; base 16 skips an optional \<open>0x\<close>.\<close>

definition strto_base :: "nat \<Rightarrow> string \<Rightarrow> nat \<times> string" where
  "strto_base base s =
     (if base = 0 \<or> base = 16 then
        (let b = base + 10;
             (b, s) = (if peek s = CHR ''0'' then
                         (let s1 = tl s; b1 = b - 2
                          in if (of_char (peek s1) OR (0x20::nat)) = 0x78 then (b1 + b1, tl s1) else (b1, s1))
                       else (b, s))
         in (if b > 16 then 16 else b, s))
      else (base, s))"

definition strto_l :: "string \<Rightarrow> nat \<Rightarrow> bool \<Rightarrow> u32" where
  "strto_l str base sflag =
     (let s = dropWhile ISSPACE str;
          (negative, s) = strto_sign s;
          (base, s) = strto_base base s;
          (number, negative) =
            (if 2 \<le> base \<and> base - 2 < 35 then strto_loop base sflag s 0 negative else (0, negative));
          tmp = (if negative then LONG_MAX + 1 else LONG_MAX);
          number = (if sflag \<and> number > tmp then tmp else number)
      in if negative then - number else number)"

definition strtol :: "string \<Rightarrow> nat \<Rightarrow> int" where
  "strtol str base = sint (strto_l str base True)"

definition strtoul :: "string \<Rightarrow> nat \<Rightarrow> u32" where
  "strtoul str base = strto_l str base False"

subsection \<open>Strings\<close>

fun streq :: "string \<Rightarrow> string \<Rightarrow> bool" where
  "streq (x # xs) (y # ys) =
     (if x \<noteq> NUL \<and> y \<noteq> NUL then (if x \<noteq> y then False else streq xs ys) else x = y)"
| "streq xs ys = (peek xs = peek ys)"

text \<open>The firmware-independent \<open>atoi\<close> of \<open>config.c\<close>: base ten, no sign, no check for
  overflow, which wraps on the target.\<close>

fun atoi_loop :: "string \<Rightarrow> int \<Rightarrow> int" where
  "atoi_loop s value =
     (let c = peek s in
      if c = NUL \<or> of_char c < (48::nat) \<or> of_char c > (57::nat) then value
      else case s of [] \<Rightarrow> value
        | _ # rest \<Rightarrow> atoi_loop rest (i32 (value * 10 + of_char c - 48)))"

declare atoi_loop.simps [simp del]

definition atoi :: "string \<Rightarrow> int" where
  "atoi s = atoi_loop s 0"

subsection \<open>realloc\<close>

text \<open>
  The heap is a map from word addresses to words; the allocator keeps the size of a block
  in the word before it.  A new block comes from the firmware's \<open>malloc\<close>.
\<close>

record heap_world = world +
  heap :: "addr \<Rightarrow> u32"

fun copy_words :: "nat \<Rightarrow> addr \<Rightarrow> addr \<Rightarrow> (addr \<Rightarrow> u32) \<Rightarrow> (addr \<Rightarrow> u32)" where
  "copy_words 0 dst src h = h"
| "copy_words (Suc n) dst src h =
     (let h' = copy_words n dst src h
      in h'(dst + 4 * of_nat n := h' (src + 4 * of_nat n)))"

definition realloc :: "answers \<Rightarrow> addr \<Rightarrow> u32 \<Rightarrow> 'a heap_world_scheme \<Rightarrow> addr \<times> 'a heap_world_scheme" where
  "realloc orc buf new_size w =
     (if buf = 0 then ask orc (Sys (Malloc (unat new_size))) w
      else if new_size = 0 then (0, emit (Sys (Free buf)) w)
      else
        let size = heap w (buf - 4) in
        if size AND 3 \<noteq> 0 then (0, w)
        else if new_size < size then (buf, w)
        else
          (let (new_buf, w') = ask orc (Sys (Malloc (unat new_size))) w
           in if new_buf = 0 then (0, w')
              else (new_buf, w'\<lparr>heap := copy_words (unat size div 4) new_buf buf (heap w')\<rparr>)))"

subsection \<open>Lemmas on number parsing\<close>

definition digits_val :: "nat \<Rightarrow> nat \<Rightarrow> string \<Rightarrow> nat" where
  "digits_val b acc s = foldl (\<lambda>a c. a * b + strto_digit c) acc s"

lemma digits_val_simps [simp]:
  "digits_val b acc [] = acc" "digits_val b acc (c # s) = digits_val b (acc * b + strto_digit c) s"
  by (simp_all add: digits_val_def)

lemma digits_val_ge: "1 \<le> b \<Longrightarrow> acc \<le> digits_val b acc s"
proof (induction s arbitrary: acc)
  case (Cons c s)
  have "acc \<le> acc * b + strto_digit c" using Cons.prems by (simp add: trans_le_add1)
  also have "\<dots> \<le> digits_val b (acc * b + strto_digit c) s" by (rule Cons.IH [OF Cons.prems])
  finally show ?case by simp
qed simp

lemma strto_digit_char: "d < 36 \<Longrightarrow> strto_digit (digit_char d) = d"
proof -
  assume d: "d < 36"
  have "list_all (\<lambda>d. strto_digit (digit_char d) = d) [10..<36]"
    by (simp add: strto_digit_def digit_char_def Let_def of_char_of)
  moreover have "strto_digit (digit_char d) = d" if "d < 10"
    using that by (simp add: strto_digit_def Let_def of_char_digit)
  ultimately show ?thesis using d by (cases "d < 10") (simp_all only: list_all_iff set_upt, auto)
qed

lemma digits_val_digits: "2 \<le> b \<Longrightarrow> b \<le> 36 \<Longrightarrow> digits_val b 0 (digits b n) = n"
proof (induction n rule: less_induct)
  case (less n)
  show ?case
  proof (cases "n < b")
    case True
    then show ?thesis using less.prems by (simp add: digits_small strto_digit_char)
  next
    case False
    then have "n div b < n" using less.prems by (auto intro: div_less_dividend)
    have "n mod b < b" using less.prems by simp
    then have m: "n mod b < 36" using less.prems by linarith
    have "digits_val b 0 (digits b n) = digits_val b 0 (digits b (n div b)) * b + n mod b"
      using False less.prems by (simp add: digits_step digits_val_def strto_digit_char m)
    then show ?thesis
      using less.IH [OF \<open>n div b < n\<close>] less.prems by simp
  qed
qed

lemma cutoff_iff:
  assumes "2 \<le> b" and "b \<le> 36" and "d < b"
  shows "(number > ULONG_MAX div of_nat b \<or> number = ULONG_MAX div of_nat b \<and> of_nat d > ULONG_MAX mod of_nat b)
     \<longleftrightarrow> 2 ^ 32 \<le> unat (number :: u32) * b + d"
proof -
  have b: "unat (of_nat b :: u32) = b" and d: "unat (of_nat d :: u32) = d"
    using assms by (simp_all add: unat_of_nat take_bit_nat_eq_self)
  have M: "unat ULONG_MAX = 2 ^ 32 - 1" by (simp add: ULONG_MAX_def)
  define q r where "q = (2 ^ 32 - 1) div b" and "r = (2 ^ 32 - 1) mod b"
  have qr: "2 ^ 32 - 1 = q * b + r" "r < b" using assms by (simp_all add: q_def r_def)
  have *: "(q < u \<or> q = u \<and> r < d) \<longleftrightarrow> 2 ^ 32 \<le> u * b + d" for u
  proof -
    consider "u < q" | "u = q" | "q < u" by linarith
    then show ?thesis
    proof cases
      case 1
      then have "Suc u * b \<le> q * b" by (intro mult_right_mono) auto
      then show ?thesis using 1 qr assms by auto
    next
      case 2
      then show ?thesis using qr assms by auto
    next
      case 3
      then have "Suc q * b \<le> u * b" by (intro mult_right_mono) auto
      then show ?thesis using 3 qr assms by auto
    qed
  qed
  have "unat (ULONG_MAX div of_nat b) = q" "unat (ULONG_MAX mod of_nat b) = r"
    by (simp_all add: unat_div unat_mod b M q_def r_def)
  then show ?thesis
    using * [of "unat number"] by (auto simp: word_less_nat_alt word_unat_eq_iff d)
qed

definition stops :: "nat \<Rightarrow> string \<Rightarrow> bool" where
  "stops b s \<longleftrightarrow> b \<le> strto_digit (peek s)"

lemma strto_loop_stop: "stops b s \<Longrightarrow> strto_loop b sflag s number negative = (number, negative)"
  by (subst strto_loop.simps) (simp add: stops_def Let_def)

lemma strto_loop_digit:
  assumes "2 \<le> b" "b \<le> 36" "strto_digit c < b"
  shows "strto_loop b sflag (c # s) number negative =
    (if 2 ^ 32 \<le> unat number * b + strto_digit c
     then strto_loop b sflag s ULONG_MAX (negative \<and> sflag)
     else strto_loop b sflag s (number * of_nat b + of_nat (strto_digit c)) negative)"
  using assms cutoff_iff [OF assms] by (subst strto_loop.simps) (simp add: Let_def)

lemma strto_loop_saturated:
  assumes "2 \<le> b" "b \<le> 36" "\<forall>c \<in> set ds. strto_digit c < b" "stops b rest"
  shows "strto_loop b sflag (ds @ rest) ULONG_MAX (negative \<and> sflag) = (ULONG_MAX, negative \<and> sflag)"
  using assms(3)
proof (induction ds)
  case Nil
  then show ?case using assms by (simp add: strto_loop_stop)
next
  case (Cons c ds)
  have "2 ^ 32 \<le> unat ULONG_MAX * b" using assms by (simp add: ULONG_MAX_def)
  then show ?case using Cons assms by (simp add: strto_loop_digit)
qed

lemma strto_loop_value:
  assumes "2 \<le> b" "b \<le> 36" "\<forall>c \<in> set ds. strto_digit c < b" "stops b rest"
  shows "strto_loop b sflag (ds @ rest) number negative =
    (let v = digits_val b (unat number) ds
     in if v < 2 ^ 32 then (of_nat v, negative) else (ULONG_MAX, negative \<and> sflag))"
  using assms(3)
proof (induction ds arbitrary: number)
  case Nil
  have "unat number < 2 ^ 32" using unsigned_less [of number] by simp
  then show ?case using assms by (simp add: strto_loop_stop)
next
  case (Cons c ds)
  let ?n = "unat number * b + strto_digit c"
  show ?case
  proof (cases "2 ^ 32 \<le> ?n")
    case True
    then have "2 ^ 32 \<le> digits_val b ?n ds" using digits_val_ge [of b ?n ds] assms(1) by linarith
    then show ?thesis using True Cons.prems assms by (simp add: strto_loop_digit strto_loop_saturated)
  next
    case False
    have "number * of_nat b + of_nat (strto_digit c) = of_nat ?n" by simp
    then have "unat (number * of_nat b + of_nat (strto_digit c)) = ?n"
      using False by (simp only: unat_of_nat) (simp add: take_bit_nat_eq_self)
    then show ?thesis
      using False Cons.IH [of "number * of_nat b + of_nat (strto_digit c)"] Cons.prems assms
      by (simp add: strto_loop_digit)
  qed
qed

definition ulong_clamp :: "nat \<Rightarrow> u32" where
  "ulong_clamp v = (if v < 2 ^ 32 then of_nat v else ULONG_MAX)"

lemma digits_chars:
  assumes "2 \<le> b" "b \<le> 36" "c \<in> set (digits b n)"
  shows "strto_digit c < b"
proof -
  obtain d where "d < b" "c = digit_char d" using digits_set [OF assms(1), of n] assms(3) by auto
  then show ?thesis using assms by (simp add: strto_digit_char)
qed

lemma strto_loop_digits:
  assumes "2 \<le> b" "b \<le> 36" "stops b rest"
  shows "strto_loop b sflag (digits b n @ rest) 0 negative
    = (ulong_clamp n, negative \<and> (n < 2 ^ 32 \<or> sflag))"
  using strto_loop_value [OF assms(1,2) _ assms(3), of "digits b n" sflag 0 negative]
    digits_chars [OF assms(1,2)] digits_val_digits [OF assms(1,2)]
  by (auto simp: ulong_clamp_def)

text \<open>What a digit string cannot start with.\<close>

lemma digit_char_plain:
  assumes "d < 36"
  shows "\<not> ISSPACE (digit_char d)" "digit_char d \<noteq> CHR ''-''" "digit_char d \<noteq> CHR ''+''"
    "digit_char d \<noteq> NUL" "digit_char d = CHR ''0'' \<longleftrightarrow> d = 0"
proof -
  have o: "(of_char (digit_char d) :: nat) = (if d < 10 then 48 + d else 87 + d)"
    using assms by (simp add: digit_char_def of_char_of)
  have ne: "digit_char d \<noteq> c" if "(of_char c :: nat) < 48" for c
    using o that by (auto split: if_splits)
  show "\<not> ISSPACE (digit_char d)" "digit_char d \<noteq> CHR ''-''" "digit_char d \<noteq> CHR ''+''"
    "digit_char d \<noteq> NUL"
    by (auto simp: ISSPACE_def ctrl_defs intro!: ne)
  have "(of_char (CHR ''0'') :: nat) = 48" by simp
  with char_of_char [of "CHR ''0''", where ?'a = nat] have "char_of (48 :: nat) = CHR ''0''" by (simp only:)
  then have "digit_char 0 = CHR ''0''" by (simp add: digit_char_def)
  moreover have "d = 0" if "digit_char d = CHR ''0''"
    using o by (auto simp: that split: if_splits)
  ultimately show "digit_char d = CHR ''0'' \<longleftrightarrow> d = 0" by auto
qed

lemma digits_first:
  assumes "2 \<le> b" "b \<le> 36"
  obtains d ds where "digits b n = digit_char d # ds" "d < b" "d = 0 \<longrightarrow> n = 0"
proof -
  have "\<exists>d ds. digits b n = digit_char d # ds \<and> d < b \<and> (d = 0 \<longrightarrow> n = 0)"
  proof (induction n rule: less_induct)
    case (less n)
    show ?case
    proof (cases "n < b")
      case True
      then show ?thesis by (auto simp: digits_small)
    next
      case False
      then have "n div b < n" "n div b \<noteq> 0" using assms by (auto intro: div_less_dividend simp: div_eq_0_iff)
      with less.IH [of "n div b"] show ?thesis using False assms by (auto simp: digits_step)
    qed
  qed
  then show thesis using that by blast
qed

lemma skip_space_digits:
  assumes "2 \<le> b" "b \<le> 36"
  shows "dropWhile ISSPACE (digits b n @ rest) = digits b n @ rest"
    "strto_sign (digits b n @ rest) = (False, digits b n @ rest)"
    "strto_sign (CHR ''-'' # digits b n @ rest) = (True, digits b n @ rest)"
proof -
  obtain d ds where d: "digits b n = digit_char d # ds" "d < b" using digits_first [OF assms] by metis
  then have "d < 36" using assms by simp
  note p = digit_char_plain [OF this]
  show "dropWhile ISSPACE (digits b n @ rest) = digits b n @ rest"
    "strto_sign (digits b n @ rest) = (False, digits b n @ rest)"
    "strto_sign (CHR ''-'' # digits b n @ rest) = (True, digits b n @ rest)"
    using p d by (auto simp: strto_sign_def)
qed

lemma strtoul_exact:
  assumes "2 \<le> b" "b \<le> 36" "b \<noteq> 16" "stops b rest"
  shows "strtoul (digits b n @ rest) b = ulong_clamp n"
  using assms by (simp add: strtoul_def strto_l_def skip_space_digits less_diff_conv2 strto_base_def
      strto_loop_digits Let_def)

lemma strtoul_hex:
  assumes "stops 16 rest"
  shows "strtoul (''0x'' @ digits 16 n @ rest) 0 = ulong_clamp n"
proof -
  have "(of_char (CHR ''x'') OR (32::nat)) = 120" by simp
  then show ?thesis
    using assms strto_loop_digits [of 16 rest False n False]
    by (simp add: strtoul_def strto_l_def strto_sign_def strto_base_def Let_def ISSPACE_def ctrl_defs)
qed

lemma strtol_exact:
  assumes "stops 10 rest"
  shows "strtol (digits 10 n @ rest) 10 = min (int n) (2 ^ 31 - 1)"
    "strtol (CHR ''-'' # digits 10 n @ rest) 10 = max (- int n) (- (2 ^ 31))"
proof -
  have w: "ulong_clamp n = word_of_int (int n)" if "n < 2 ^ 32"
    using that by (simp add: ulong_clamp_def)
  have s: "sint (ulong_clamp n) = int n" if "n < 2 ^ 31"
  proof -
    have "ulong_clamp n = word_of_int (int n)" using that by (intro w) simp
    then show ?thesis using that by (simp only: sint_word_of_int_u32) (simp add: i32_id)
  qed
  have m: "sint (- ulong_clamp n) = - int n" if "n \<le> 2 ^ 31"
  proof -
    have "- ulong_clamp n = word_of_int (- int n)" using that by (simp add: w)
    then show ?thesis using that by (simp only: sint_word_of_int_u32) (simp add: i32_id)
  qed
  have c: "ulong_clamp n > LONG_MAX \<longleftrightarrow> 2 ^ 31 \<le> n" "ulong_clamp n > LONG_MAX + 1 \<longleftrightarrow> 2 ^ 31 < n"
    by (auto simp: ulong_clamp_def LONG_MAX_def ULONG_MAX_def word_less_nat_alt unat_of_nat take_bit_nat_eq_self)
  show "strtol (digits 10 n @ rest) 10 = min (int n) (2 ^ 31 - 1)"
    using assms s c
    by (cases "n < 2 ^ 31") (simp_all add: strtol_def strto_l_def skip_space_digits strto_base_def
        strto_loop_digits Let_def LONG_MAX_def)
  show "strtol (CHR ''-'' # digits 10 n @ rest) 10 = max (- int n) (- (2 ^ 31))"
    using assms m c
    by (cases "n \<le> 2 ^ 31") (simp_all add: strtol_def strto_l_def skip_space_digits strto_base_def
        strto_loop_digits Let_def LONG_MAX_def ISSPACE_def ctrl_defs)
qed

lemma streq_cstr: "streq a b \<longleftrightarrow> cstr a = cstr b"
  apply (induction a b rule: streq.induct)
  subgoal by (auto simp: cstr_def)
  subgoal for ys by (cases ys) (auto simp: cstr_def)
  subgoal for xs by (cases xs) (auto simp: cstr_def)
  done

definition atoi_stops :: "string \<Rightarrow> bool" where
  "atoi_stops s \<longleftrightarrow> \<not> is_digit_char (peek s)"

lemma is_digit_range: "is_digit_char c \<longleftrightarrow> 48 \<le> (of_char c :: nat) \<and> (of_char c :: nat) \<le> 57"
  by (auto simp: is_digit_char_def)

lemma NUL_not_digit [simp]: "\<not> is_digit_char NUL"
  by (simp add: is_digit_range NUL_def)

lemma atoi_loop_stop: "atoi_stops s \<Longrightarrow> atoi_loop s v = v"
  by (subst atoi_loop.simps) (auto simp: atoi_stops_def is_digit_range Let_def not_le)

lemma atoi_loop_digit:
  "is_digit_char c \<Longrightarrow> atoi_loop (c # s) v = atoi_loop s (i32 (v * 10 + of_char c - 48))"
  using NUL_not_digit by (subst atoi_loop.simps) (auto simp: is_digit_range Let_def not_le)

lemma strto_digit_dec: "is_digit_char c \<Longrightarrow> strto_digit c = of_char c - 48"
  by (auto simp: is_digit_range strto_digit_def Let_def mod_if)

lemma atoi_loop_value:
  "\<forall>c \<in> set ds. is_digit_char c \<Longrightarrow> atoi_stops rest \<Longrightarrow> digits_val 10 v ds < 2 ^ 31 \<Longrightarrow>
   atoi_loop (ds @ rest) (int v) = int (digits_val 10 v ds)"
proof (induction ds arbitrary: v)
  case Nil
  then show ?case by (simp add: atoi_loop_stop)
next
  case (Cons c ds)
  let ?n = "v * 10 + strto_digit c"
  have c: "is_digit_char c" using Cons.prems by simp
  have "?n \<le> digits_val 10 ?n ds" by (rule digits_val_ge) simp
  then have "?n < 2 ^ 31" using Cons.prems by simp
  moreover have "int v * 10 + of_char c - 48 = int ?n"
    using c by (simp add: strto_digit_dec is_digit_range of_nat_diff of_nat_of_char)
  ultimately have "i32 (int v * 10 + of_char c - 48) = int ?n" by (simp only:) (simp add: i32_id)
  then show ?case using Cons.IH [of ?n] Cons.prems c by (simp add: atoi_loop_digit)
qed

lemma atoi_digits: "atoi_stops rest \<Longrightarrow> n < 2 ^ 31 \<Longrightarrow> atoi (digits 10 n @ rest) = int n"
  using atoi_loop_value [of "digits 10 n" rest 0]
  by (simp add: atoi_def digits_dec_chars digits_val_digits)

lemma atoi_minus: "atoi (CHR ''-'' # s) = 0"
  by (simp add: atoi_def atoi_loop_stop atoi_stops_def is_digit_range)

subsection \<open>Copying words\<close>

text \<open>The copy is right when the destination words do not meet the source words.\<close>

lemma copy_words_other:
  "(\<forall>i < n. p \<noteq> dst + 4 * of_nat i) \<Longrightarrow> copy_words n dst src h p = h p"
  by (induction n) (auto simp: Let_def)

lemma of_nat_word_inj:
  "i < 2 ^ 30 \<Longrightarrow> j < 2 ^ 30 \<Longrightarrow> 4 * of_nat i = (4 * of_nat j :: u32) \<Longrightarrow> i = j"
proof -
  assume i: "i < 2 ^ 30" "j < 2 ^ 30" and e: "4 * of_nat i = (4 * of_nat j :: u32)"
  have u: "unat (4 * of_nat k :: u32) = 4 * k" if "k < 2 ^ 30" for k
  proof -
    have "(4 * of_nat k :: u32) = of_nat (4 * k)" by simp
    then show ?thesis using that by (simp only: unat_of_nat) (simp add: take_bit_nat_eq_self)
  qed
  show "i = j" using arg_cong [OF e, of unat] u i by simp
qed

lemma copy_words_copies:
  assumes "n \<le> 2 ^ 30" and "\<forall>i < n. \<forall>j < n. src + 4 * of_nat i \<noteq> dst + 4 * of_nat j" and "i < n"
  shows "copy_words n dst src h (dst + 4 * of_nat i) = h (src + 4 * of_nat i)"
  using assms
proof (induction n)
  case (Suc n)
  have s: "copy_words n dst src h (src + 4 * of_nat k) = h (src + 4 * of_nat k)" if "k \<le> n" for k
    using Suc.prems(2) that by (intro copy_words_other) auto
  show ?case
  proof (cases "i = n")
    case True
    then show ?thesis using s by (simp add: Let_def)
  next
    case False
    then have "dst + 4 * of_nat i \<noteq> dst + 4 * of_nat n"
      using of_nat_word_inj [of i n] Suc.prems by auto
    then show ?thesis using False Suc by (simp add: Let_def)
  qed
qed simp

subsection \<open>Properties\<close>

text \<open>\<open>strtoul\<close> reads back the digits of a number in any base other than 16 up to 36,
  whatever follows them, and returns \<open>ULONG_MAX\<close> for every number that does not fit.\<close>

theorem strtoul_saturates:
  assumes "2 \<le> b" and "b \<le> 36" and "b \<noteq> 16" and "b \<le> strto_digit (peek rest)"
  shows "strtoul (digits b n @ rest) b = (if n < 2 ^ 32 then of_nat n else ULONG_MAX)"
  using strtoul_exact [of b rest n] assms by (simp add: stops_def ulong_clamp_def)

theorem strtoul_saturates_witness:
  "strtoul (digits 10 4294967301 @ '' x'') 10 = ULONG_MAX \<and> strtoul (digits 8 511 @ ''9'') 8 = 511"
  using strtoul_saturates [of 10 "'' x''" 4294967301] strtoul_saturates [of 8 "''9''" 511]
  by (simp add: strto_digit_def Let_def)

text \<open>C37: \<open>strtol\<close> in base ten returns the signed value of the digits, clamped to the range
  of \<open>long\<close>.\<close>

theorem strtol_clamps:
  assumes "10 \<le> strto_digit (peek rest)"
  shows "strtol ((if neg then ''-'' else '''') @ digits 10 n @ rest) 10
    = max (- (2 ^ 31)) (min (2 ^ 31 - 1) (if neg then - int n else int n))"
  using strtol_exact [of rest n] assms by (auto simp: stops_def)

theorem strtol_clamps_witness: "strtol (''-'' @ digits 10 2147483650 @ '';'') 10 = - (2 ^ 31)"
  using strtol_clamps [of "'';''" True 2147483650] by (simp add: strto_digit_def Let_def)

text \<open>\<open>streq\<close> holds exactly for buffers with the same C string.\<close>

theorem streq_spec: "streq a b \<longleftrightarrow> cstr a = cstr b"
  by (rule streq_cstr)

text \<open>When \<open>realloc\<close> moves a block, the new block starts with all words of the old
  one, provided the allocator returned memory that does not overlap it.\<close>

theorem realloc_keeps_contents:
  assumes "realloc orc buf new_size w = (p, w')" and "buf \<noteq> 0" and "p \<noteq> 0" and "p \<noteq> buf"
    and "\<forall>i < unat (heap w (buf - 4)) div 4. \<forall>j < unat (heap w (buf - 4)) div 4.
      buf + 4 * of_nat i \<noteq> p + 4 * of_nat j"
    and "k < unat (heap w (buf - 4)) div 4"
  shows "heap w' (p + 4 * of_nat k) = heap w (buf + 4 * of_nat k)"
proof -
  let ?size = "heap w (buf - 4)"
  have "unat ?size < 2 ^ 32" using unsigned_less [of ?size] by simp
  then have n: "unat ?size div 4 \<le> 2 ^ 30" by simp
  from assms(1-4) have "heap w' = copy_words (unat ?size div 4) p buf (heap w)"
    by (auto simp: realloc_def Let_def ask_def emit_def split: if_splits)
  then show ?thesis using copy_words_copies [OF n assms(5,6), of "heap w"] by simp
qed

definition sample_heap :: heap_world where
  "sample_heap = \<lparr>trace = [], heap = (\<lambda>a. if a = 0xFC then 8 else a)\<rparr>"

theorem realloc_keeps_contents_witness:
  "heap (snd (realloc (\<lambda>_. 0x1000) 0x100 16 sample_heap)) 0x1004 = 0x104"
proof -
  let ?r = "realloc (\<lambda>_. 0x1000) 0x100 16 sample_heap"
  have r: "?r = (0x1000, snd ?r)"
    by (simp add: realloc_def sample_heap_def ask_def Let_def)
  have size: "heap sample_heap (0x100 - 4) = 8" by (simp add: sample_heap_def)
  have "\<forall>i < 2. \<forall>j < 2. (0x100 :: u32) + 4 * of_nat i \<noteq> 0x1000 + 4 * of_nat j"
    by (auto dest!: less_2_cases)
  then show ?thesis
    using realloc_keeps_contents [OF r, of 1] by (simp add: size) (simp add: sample_heap_def)
qed

end
