(* ===== verification/Config.thy ===== *)
theory Config
  imports CStdio "HOL-Library.Multiset"
begin

text \<open>
  \<open>config.c\<close>: the \<open>name = value\<close> file, its parser, the variables that are filled from it
  and the writer.  The linked list of parsed lines only ever grows at its head and is
  modelled as a list; each node keeps the address \<open>malloc\<close> returned for it.  A file being
  read is the list of its remaining characters.
\<close>

definition MAX_NAME_LEN :: nat where "MAX_NAME_LEN = 64"
definition MAX_VALUE_LEN :: nat where "MAX_VALUE_LEN = 60"

record config =
  node :: addr
  name :: string
  "value" :: string

definition is_space :: "char \<Rightarrow> bool" where
  "is_space c \<longleftrightarrow> c = CHR '' '' \<or> c = TAB \<or> c = CR \<or> c = LF"

subsection \<open>Parsing a line\<close>

text \<open>A bounded copy loop: the characters copied and what is left of the line.\<close>

fun copy_while :: "(char \<Rightarrow> bool) \<Rightarrow> nat \<Rightarrow> string \<Rightarrow> string \<times> string" where
  "copy_while P 0 s = ([], s)"
| "copy_while P (Suc k) [] = ([], [])"
| "copy_while P (Suc k) (c # s) =
     (if c \<noteq> NUL \<and> P c then (let (cs, rest) = copy_while P k s in (c # cs, rest)) else ([], c # s))"

definition trim_right :: "string \<Rightarrow> string" where
  "trim_right s = rev (dropWhile is_space (rev s))"

definition parse_fields :: "string \<Rightarrow> (string \<times> string) option" where
  "parse_fields line =
     (let s = dropWhile is_space line;
          (nm, s) = copy_while (\<lambda>c. \<not> is_space c \<and> c \<noteq> CHR ''='') MAX_NAME_LEN s
      in if length nm = MAX_NAME_LEN then None
         else
           let s = dropWhile is_space s
           in if peek s \<noteq> CHR ''='' then None
              else
                let s = dropWhile is_space (tl s);
                    (v, s) = copy_while (\<lambda>c. True) MAX_VALUE_LEN s
                in Some (nm, trim_right v))"

definition sizeof_config :: nat where "sizeof_config = 4 + MAX_NAME_LEN + MAX_VALUE_LEN"

definition config_parse_line ::
  "answers \<Rightarrow> string \<Rightarrow> 'a world_scheme \<Rightarrow> config option \<times> 'a world_scheme" where
  "config_parse_line orc line w =
     (let (p, w) = ask orc (Sys (Malloc sizeof_config)) w
      in if p = 0 then (None, w)
         else case parse_fields line of
             None \<Rightarrow> (None, emit (Sys (Free p)) w)
           | Some (nm, v) \<Rightarrow> (Some \<lparr>node = p, name = nm, value = v\<rparr>, w))"

text \<open>One line of at most \<open>size\<close> bytes, without its line end; \<open>None\<close> is the return value
  -1: end of file, or a line that does not fit.\<close>

fun read_line :: "nat \<Rightarrow> string \<Rightarrow> string option \<times> string" where
  "read_line 0 file = (None, file)"
| "read_line (Suc n) [] = (None, [])"
| "read_line (Suc n) (c # file) =
     (if c = CR then read_line (Suc n) file
      else if c = LF then (Some [], file)
      else (let (r, rest) = read_line n file in (map_option ((#) c) r, rest)))"

subsection \<open>Variables\<close>

datatype cval = CInt u32 | CStr string

record config_var =
  var_name :: string
  var_value :: cval

fun config_auto_parse :: "config \<Rightarrow> config_var list \<Rightarrow> config_var list" where
  "config_auto_parse c [] = []"
| "config_auto_parse c (v # vs) =
     (if \<not> streq (var_name v) (name c) then v # config_auto_parse c vs
      else v\<lparr>var_value := (case var_value v of
                CInt _ \<Rightarrow> CInt (word_of_int (atoi (value c)))
              | CStr _ \<Rightarrow> CStr (value c))\<rparr> # vs)"

subsection \<open>Parsing a file\<close>

definition line_size :: nat where "line_size = MAX_NAME_LEN + MAX_VALUE_LEN"

definition free_all :: "config list \<Rightarrow> 'a world_scheme \<Rightarrow> 'a world_scheme" where
  "free_all cs w = emits (map (\<lambda>c. Sys (Free (node c))) cs) w"

lemma read_line_shorter: "read_line n f = (Some l, rest) \<Longrightarrow> length rest < length f"
  by (induction n f arbitrary: l rest rule: read_line.induct)
    (auto split: if_splits prod.splits simp: less_Suc_eq)

function config_parse ::
  "answers \<Rightarrow> string \<Rightarrow> config list \<Rightarrow> config_var list \<Rightarrow> 'a world_scheme \<Rightarrow>
   config list option \<times> config_var list \<times> 'a world_scheme" where
  "config_parse orc file config vars w =
     (case read_line line_size file of
        (None, _) \<Rightarrow> (Some config, vars, w)
      | (Some line, rest) \<Rightarrow>
          if peek line = CHR ''#'' \<or> peek line = NUL then config_parse orc rest config vars w
          else
            (case config_parse_line orc line w of
               (None, w) \<Rightarrow> (None, vars, free_all config w)
             | (Some c, w) \<Rightarrow>
                 config_parse orc rest (c # config) (config_auto_parse c vars) w))"
  by pat_completeness auto
termination
  by (relation "measure (\<lambda>(orc, f, config, vars, w). length f)")
    (auto dest: read_line_shorter [OF sym])

declare config_parse.simps [simp del]

definition head_node :: "string \<Rightarrow> config" where
  "head_node filename = \<lparr>node = 0, name = ''config.file'', value = filename\<rparr>"

definition fail_node :: config where
  "fail_node = \<lparr>node = 0, name = ''config.failure'', value = ''1''\<rparr>"

definition INVALID_PTR :: u32 where "INVALID_PTR = 0xFFFFFFFF"
definition O_SYNC :: u32 where "O_SYNC = 4096"

text \<open>The open file's contents are given as \<open>contents\<close>.\<close>

definition config_parse_file ::
  "answers \<Rightarrow> string \<Rightarrow> string \<Rightarrow> config_var list \<Rightarrow> 'a world_scheme \<Rightarrow>
   config list \<times> config_var list \<times> 'a world_scheme" where
  "config_parse_file orc filename contents vars w =
     (let (file, w) = ask orc (Fio (FIO_Open filename O_SYNC)) w
      in if file = INVALID_PTR then ([head_node filename, fail_node], vars, w)
         else
           let (cs, vars, w) = config_parse orc contents [] vars w;
               w = emit (Fio (FIO_CloseFile file)) w
           in (head_node filename # (case cs of None \<Rightarrow> [] | Some l \<Rightarrow> l), vars, w))"

subsection \<open>Looking values up\<close>

fun config_value :: "config list \<Rightarrow> string \<Rightarrow> string option" where
  "config_value [] nm = None"
| "config_value (c # cs) nm = (if streq (name c) nm then Some (value c) else config_value cs nm)"

definition config_int :: "config list \<Rightarrow> string \<Rightarrow> int \<Rightarrow> int" where
  "config_int cs nm def = (case config_value cs nm of None \<Rightarrow> def | Some s \<Rightarrow> atoi s)"

subsection \<open>Saving\<close>

text \<open>The build strings are generated into \<open>version.c\<close> and the date comes from the clock:
  both are arguments.\<close>

record build_info =
  build_version :: string
  build_id :: string
  build_date :: string
  build_user :: string

record tm =
  tm_year :: int
  tm_mon :: int
  tm_mday :: int
  tm_hour :: int
  tm_min :: int
  tm_sec :: int

definition save_banner :: "build_info \<Rightarrow> string" where
  "save_banner b = ''# Magic Lantern '' @ build_version b @ '' ('' @ build_id b @ '')'' @ [LF]
     @ ''# Build on '' @ build_date b @ '' by '' @ build_user b @ [LF]"

definition save_date :: "tm \<Rightarrow> string" where
  "save_date t = ''# Configuration saved on '' @ fmt_0d 4 (tm_year t + 1900) @ ''/''
     @ fmt_0d 2 (tm_mon t + 1) @ ''/'' @ fmt_0d 2 (tm_mday t) @ '' ''
     @ fmt_0d 2 (tm_hour t) @ '':'' @ fmt_0d 2 (tm_min t) @ '':'' @ fmt_0d 2 (tm_sec t) @ [LF]"

definition save_line :: "config_var \<Rightarrow> string" where
  "save_line v = var_name v @ '' = ''
     @ (case var_value v of CInt n \<Rightarrow> fmt_d 0 (sint n) | CStr s \<Rightarrow> s) @ [LF]"

fun save_vars :: "u32 \<Rightarrow> config_var list \<Rightarrow> 'a world_scheme \<Rightarrow> 'a world_scheme option" where
  "save_vars file [] w = Some w"
| "save_vars file (v # vs) w =
     (case fprintf file (save_line v) w of None \<Rightarrow> None | Some w \<Rightarrow> save_vars file vs w)"

definition config_save_file ::
  "answers \<Rightarrow> build_info \<Rightarrow> tm \<Rightarrow> string \<Rightarrow> config_var list \<Rightarrow> 'a world_scheme \<Rightarrow>
   (int \<times> 'a world_scheme) option" where
  "config_save_file orc b now filename vars w =
     (let (file, w) = ask orc (Fio (FIO_CreateFile filename)) w
      in if file = INVALID_PTR then Some (- 1, w)
         else
           case fprintf file (save_banner b) w of None \<Rightarrow> None
           | Some w \<Rightarrow>
             (case fprintf file (save_date now) (emit (Fio LoadCalendarFromRTC) w) of None \<Rightarrow> None
              | Some w \<Rightarrow>
                (case save_vars file vars w of None \<Rightarrow> None
                 | Some w \<Rightarrow> Some (int (length vars), emit (Fio (FIO_CloseFile file)) w))))"

text \<open>The text a trace has written to a file.\<close>

fun written :: "u32 \<Rightarrow> fw_event list \<Rightarrow> string" where
  "written f [] = []"
| "written f (Fio (FIO_WriteFile g s) # es) = (if f = g then s else []) @ written f es"
| "written f (e # es) = written f es"

subsection \<open>Lemmas on lines\<close>

lemma read_line_line:
  "CR \<notin> set l \<Longrightarrow> LF \<notin> set l \<Longrightarrow> length l < n \<Longrightarrow> read_line n (l @ LF # rest) = (Some l, rest)"
proof (induction l arbitrary: n)
  case Nil
  then show ?case by (cases n) (auto simp: ctrl_defs)
next
  case (Cons c l)
  then show ?case by (cases n) auto
qed

lemma read_line_bound: "read_line n f = (Some l, rest) \<Longrightarrow> length l < n \<and> LF \<notin> set l \<and> CR \<notin> set l"
  by (induction n f arbitrary: l rest rule: read_line.induct) (auto split: if_splits prod.splits)

lemma copy_while_eq:
  "copy_while P k s = (let p = take k (takeWhile (\<lambda>c. c \<noteq> NUL \<and> P c) s) in (p, drop (length p) s))"
  by (induction P k s rule: copy_while.induct) (auto simp: Let_def)

lemma copy_while_fit:
  "\<forall>c \<in> set a. c \<noteq> NUL \<and> P c \<Longrightarrow> length a \<le> k \<Longrightarrow> length a = k \<or> peek s = NUL \<or> \<not> P (peek s) \<Longrightarrow>
   copy_while P k (a @ s) = (a, s)"
proof (induction a arbitrary: k)
  case Nil
  then show ?case by (cases k; cases s) auto
next
  case (Cons c a)
  then show ?case by (cases k) auto
qed

definition good_name :: "string \<Rightarrow> bool" where
  "good_name nm \<longleftrightarrow> nm \<noteq> [] \<and> hd nm \<noteq> CHR ''#'' \<and> length nm < MAX_NAME_LEN
     \<and> (\<forall>c \<in> set nm. c \<noteq> NUL \<and> \<not> is_space c \<and> c \<noteq> CHR ''='')"

definition good_text :: "string \<Rightarrow> bool" where
  "good_text v \<longleftrightarrow> length v \<le> MAX_VALUE_LEN \<and> (\<forall>c \<in> set v. c \<noteq> NUL \<and> c \<noteq> CR \<and> c \<noteq> LF)
     \<and> (v = [] \<or> \<not> is_space (hd v) \<and> \<not> is_space (last v))"

lemma is_space_simps [simp]:
  "is_space CHR '' ''" "is_space CR" "is_space LF" "\<not> is_space CHR ''=''" "\<not> is_space NUL"
  by (simp_all add: is_space_def ctrl_defs)

lemma parse_fields_saved:
  assumes n: "good_name nm" and v: "good_text v"
  shows "parse_fields (nm @ '' = '' @ v) = Some (nm, v)"
proof -
  have "dropWhile is_space (nm @ '' = '' @ v) = nm @ '' = '' @ v"
    using n by (cases nm) (auto simp: good_name_def)
  moreover have "copy_while (\<lambda>c. \<not> is_space c \<and> c \<noteq> CHR ''='') MAX_NAME_LEN (nm @ '' = '' @ v)
      = (nm, '' = '' @ v)"
    using n by (intro copy_while_fit) (auto simp: good_name_def)
  moreover have "dropWhile is_space ('' '' @ v) = v"
    using v by (cases v) (auto simp: good_text_def)
  moreover have "copy_while (\<lambda>c. True) MAX_VALUE_LEN (v @ []) = (v, [])"
    using v by (intro copy_while_fit) (auto simp: good_text_def)
  moreover have "trim_right v = v"
    using v by (auto simp: trim_right_def good_text_def intro: rev_dropWhile_last)
  ultimately show ?thesis using n by (simp add: parse_fields_def good_name_def)
qed

lemma copy_while_length: "length (fst (copy_while P k s)) \<le> k"
  by (simp add: copy_while_eq Let_def)

lemma trim_right_length: "length (trim_right s) \<le> length s"
  using length_dropWhile_le [of is_space "rev s"] by (simp add: trim_right_def)

lemma parse_fields_bounds:
  assumes "parse_fields line = Some (nm, v)"
  shows "length nm < MAX_NAME_LEN \<and> length v \<le> MAX_VALUE_LEN"
proof -
  obtain s1 s2 u vv u' where n: "copy_while (\<lambda>c. \<not> is_space c \<and> c \<noteq> CHR ''='') MAX_NAME_LEN s1 = (nm, s2)"
    and "length nm \<noteq> MAX_NAME_LEN"
    and v: "copy_while (\<lambda>c. True) MAX_VALUE_LEN u = (vv, u')" "v = trim_right vv"
    using assms by (auto simp: parse_fields_def Let_def split: if_splits prod.splits)
  moreover have "length nm \<le> MAX_NAME_LEN" by (metis n copy_while_length fst_conv)
  moreover have "length v \<le> MAX_VALUE_LEN"
    by (metis v copy_while_length fst_conv trim_right_length le_trans)
  ultimately show ?thesis by simp
qed

lemma cstr_name: "good_name nm \<Longrightarrow> cstr nm = nm"
  by (rule cstr_id) (auto simp: good_name_def)

text \<open>The first variable of that name is set, the others are left.\<close>

lemma auto_parse_split:
  "\<forall>v \<in> set pre. cstr (var_name v) \<noteq> cstr (name c) \<Longrightarrow> cstr (var_name v) = cstr (name c) \<Longrightarrow>
   config_auto_parse c (pre @ v # post) = pre @ v\<lparr>var_value := (case var_value v of
      CInt _ \<Rightarrow> CInt (word_of_int (atoi (value c))) | CStr _ \<Rightarrow> CStr (value c))\<rparr> # post"
  by (induction pre) (auto simp: streq_cstr)

lemma auto_parse_names: "map var_name (config_auto_parse c vs) = map var_name vs"
  by (induction vs) auto

subsection \<open>Saving and parsing back\<close>

definition good_var :: "config_var \<Rightarrow> bool" where
  "good_var v \<longleftrightarrow> good_name (var_name v) \<and> length (save_line v) \<le> line_size
     \<and> (case var_value v of CInt n \<Rightarrow> 0 \<le> sint n | CStr s \<Rightarrow> good_text s)"

definition same_kind :: "config_var \<Rightarrow> config_var \<Rightarrow> bool" where
  "same_kind a b \<longleftrightarrow> var_name a = var_name b
     \<and> (case (var_value a, var_value b) of (CInt _, CInt _) \<Rightarrow> True | (CStr _, CStr _) \<Rightarrow> True | _ \<Rightarrow> False)"

definition value_text :: "cval \<Rightarrow> string" where
  "value_text v = (case v of CInt n \<Rightarrow> fmt_d 0 (sint n) | CStr s \<Rightarrow> s)"

lemma save_line_eq: "save_line v = (var_name v @ '' = '' @ value_text (var_value v)) @ [LF]"
  by (simp add: save_line_def value_text_def)

lemma digits_not_space: "c \<in> set (digits 10 n) \<Longrightarrow> \<not> is_space c \<and> c \<noteq> NUL \<and> c \<noteq> CR \<and> c \<noteq> LF"
  by (drule digits_dec_chars) (auto simp: is_digit_char_def is_space_def ctrl_defs)

lemma fmt_d_nonneg: "0 \<le> x \<Longrightarrow> fmt_d 0 x = digits 10 (nat x)"
  by (simp add: fmt_d_def pad_left_def sign_of_def)

lemma good_text_digits: "n < 2 ^ 31 \<Longrightarrow> good_text (digits 10 n)"
  using length_digits_le [of 10 n 9] digits_not_space [of _ n]
    digits_not_space [OF hd_in_set] digits_not_space [OF last_in_set]
  by (auto simp: good_text_def MAX_VALUE_LEN_def)

lemma sint_u32_less: "sint (n :: u32) < 2 ^ 31"
  using sint_less [of n] by simp

lemma good_var_text: "good_var v \<Longrightarrow> good_text (value_text (var_value v))"
  using sint_u32_less
  by (auto simp: good_var_def value_text_def fmt_d_nonneg nat_less_iff intro!: good_text_digits
      split: cval.splits)

lemma good_line:
  assumes "good_var v"
  shows "read_line line_size (save_line v @ rest)
    = (Some (var_name v @ '' = '' @ value_text (var_value v)), rest)"
proof -
  let ?l = "var_name v @ '' = '' @ value_text (var_value v)"
  have "CR \<notin> set ?l" "LF \<notin> set ?l" "length ?l < line_size"
    using assms good_var_text [OF assms]
    by (auto simp: good_var_def good_name_def good_text_def save_line_eq is_space_def ctrl_defs)
  from read_line_line [OF this] show ?thesis by (simp add: save_line_eq)
qed

lemma parse_back:
  assumes "good_var v" and "same_kind v u" and t: "value c = value_text (var_value v)"
  shows "u\<lparr>var_value := (case var_value u of
      CInt _ \<Rightarrow> CInt (word_of_int (atoi (value c))) | CStr _ \<Rightarrow> CStr (value c))\<rparr>
    = u\<lparr>var_value := var_value v\<rparr>"
proof (cases "var_value v")
  case (CInt n)
  then have n: "0 \<le> sint n" using assms by (simp add: good_var_def)
  have "atoi (digits 10 (nat (sint n)) @ []) = int (nat (sint n))"
    using n sint_u32_less by (intro atoi_digits) (auto simp: atoi_stops_def nat_less_iff)
  then show ?thesis
    using CInt assms n by (auto simp: t same_kind_def value_text_def fmt_d_nonneg split: cval.splits)
next
  case (CStr s)
  then show ?thesis using assms by (auto simp: t same_kind_def value_text_def split: cval.splits)
qed


lemma read_line_end: "0 < n \<Longrightarrow> read_line n [] = (None, [])"
  by (cases n) auto

lemma line_size_pos: "0 < line_size"
  by (simp add: line_size_def MAX_NAME_LEN_def)

lemma parse_saved_vars:
  assumes mem: "\<forall>es. orc es \<noteq> 0"
    and "\<forall>v \<in> set vs. good_var v" and "list_all2 same_kind vs us"
    and "distinct (map var_name (pre @ vs))" and "\<forall>v \<in> set pre. good_name (var_name v)"
  shows "\<exists>cs' w'. config_parse orc (concat (map save_line vs)) cs (pre @ us) (w :: 'a world_scheme)
    = (Some cs', pre @ map (\<lambda>(v, u). u\<lparr>var_value := var_value v\<rparr>) (zip vs us), w')"
  using assms(2-)
proof (induction vs arbitrary: us pre cs w)
  case Nil
  then show ?case by (auto simp: config_parse.simps read_line_end line_size_pos)
next
  case (Cons v vs)
  then obtain u us' where us: "us = u # us'" "same_kind v u" "list_all2 same_kind vs us'"
    by (cases us) auto
  let ?u = "u\<lparr>var_value := var_value v\<rparr>" and ?nm = "var_name v" and ?t = "value_text (var_value v)"
  define p where "p = orc (trace w @ [Sys (Malloc sizeof_config)])"
  have gv: "good_var v" and nm: "var_name u = ?nm"
    using Cons.prems us by (auto simp: same_kind_def)
  have fresh: "\<forall>x \<in> set pre. var_name x \<noteq> ?nm"
  proof -
    have "?nm \<notin> var_name ` set pre" using Cons.prems(3) by simp
    then show ?thesis by (metis imageI)
  qed
  have line: "config_parse_line orc (?nm @ '' = '' @ ?t) w
      = (Some \<lparr>node = p, name = ?nm, value = ?t\<rparr>, emit (Sys (Malloc sizeof_config)) w)"
    using mem parse_fields_saved [OF _ good_var_text [OF gv], of ?nm] gv
    unfolding config_parse_line_def good_var_def by (simp add: ask_def p_def)
  have set: "config_auto_parse \<lparr>node = p, name = ?nm, value = ?t\<rparr> (pre @ u # us') = pre @ ?u # us'"
    using fresh gv nm Cons.prems(4)
    by (subst auto_parse_split)
      (auto simp: cstr_name good_var_def parse_back [OF gv us(2), of "\<lparr>node = p, name = ?nm, value = ?t\<rparr>"])
  have start: "peek (?nm @ '' = '' @ ?t) \<noteq> CHR ''#''" "peek (?nm @ '' = '' @ ?t) \<noteq> NUL"
    using gv by (cases ?nm; auto simp: good_var_def good_name_def)+
  have "\<exists>cs' w'. config_parse orc (concat (map save_line vs)) cs0 ((pre @ [?u]) @ us') w0
    = (Some cs', (pre @ [?u]) @ map (\<lambda>(v, u). u\<lparr>var_value := var_value v\<rparr>) (zip vs us'), w')"
    for cs0 and w0 :: "'a world_scheme"
    using Cons.prems us gv nm by (intro Cons.IH) (auto simp: good_var_def)
  then show ?case
    using start by (subst config_parse.simps) (simp add: good_line [OF gv] line [simplified] set us(1))
qed

lemma same_kind_restore:
  "list_all2 same_kind vs us \<Longrightarrow> map (\<lambda>(v, u). u\<lparr>var_value := var_value v\<rparr>) (zip vs us) = vs"
  by (induction rule: list_all2_induct) (auto simp: same_kind_def)

lemma parse_comment:
  "CR \<notin> set l \<Longrightarrow> LF \<notin> set l \<Longrightarrow> length l < line_size \<Longrightarrow> peek l = CHR ''#'' \<Longrightarrow>
   config_parse orc (l @ LF # rest) cs vs w = config_parse orc rest cs vs w"
  by (subst config_parse.simps) (simp add: read_line_line)

definition good_banner :: "build_info \<Rightarrow> bool" where
  "good_banner b \<longleftrightarrow> (\<forall>c \<in> set (build_version b @ build_id b @ build_date b @ build_user b). c \<noteq> CR \<and> c \<noteq> LF)
     \<and> length (build_version b) + length (build_id b) < 100
     \<and> length (build_date b) + length (build_user b) < 100"

definition good_tm :: "tm \<Rightarrow> bool" where
  "good_tm t \<longleftrightarrow> (\<forall>x \<in> {tm_year t, tm_mon t, tm_mday t, tm_hour t, tm_min t, tm_sec t}. 0 \<le> x \<and> x < 8000)"

definition short_field :: "string \<Rightarrow> bool" where
  "short_field s \<longleftrightarrow> length s \<le> 4 \<and> CR \<notin> set s \<and> LF \<notin> set s"

lemma fmt_0d_small:
  assumes "0 \<le> x" "x < 10000" "k \<le> 4"
  shows "short_field (fmt_0d k x)"
  using assms length_digits_le [of 10 "nat x" 3] digits_not_space [of _ "nat x"]
  by (auto simp: short_field_def fmt_0d_def pad_left_def sign_of_def nat_less_iff ctrl_defs)

lemma parse_header:
  assumes "good_banner b" and "good_tm t"
  shows "config_parse orc (save_banner b @ save_date t @ rest) cs vs w = config_parse orc rest cs vs w"
proof -
  let ?a = "''# Magic Lantern '' @ build_version b @ '' ('' @ build_id b @ '')''"
  let ?b = "''# Build on '' @ build_date b @ '' by '' @ build_user b"
  let ?c = "''# Configuration saved on '' @ fmt_0d 4 (tm_year t + 1900) @ ''/''
     @ fmt_0d 2 (tm_mon t + 1) @ ''/'' @ fmt_0d 2 (tm_mday t) @ '' ''
     @ fmt_0d 2 (tm_hour t) @ '':'' @ fmt_0d 2 (tm_min t) @ '':'' @ fmt_0d 2 (tm_sec t)"
  have d: "short_field (fmt_0d 4 (tm_year t + 1900))" "short_field (fmt_0d 2 (tm_mon t + 1))"
    "short_field (fmt_0d 2 (tm_mday t))" "short_field (fmt_0d 2 (tm_hour t))"
    "short_field (fmt_0d 2 (tm_min t))" "short_field (fmt_0d 2 (tm_sec t))"
    using assms(2) by (simp_all add: good_tm_def fmt_0d_small)
  have "save_banner b @ save_date t @ rest = ?a @ LF # ?b @ LF # ?c @ LF # rest"
    by (simp add: save_banner_def save_date_def)
  moreover have "config_parse orc (?a @ LF # r) cs vs w = config_parse orc r cs vs w"
    "config_parse orc (?b @ LF # r) cs vs w = config_parse orc r cs vs w" for r
    using assms(1)
    by (intro parse_comment; auto simp: good_banner_def ctrl_defs line_size_def MAX_NAME_LEN_def MAX_VALUE_LEN_def)+
  moreover have "config_parse orc (?c @ LF # r) cs vs w = config_parse orc r cs vs w" for r
    using d by (intro parse_comment)
      (auto simp: short_field_def ctrl_defs line_size_def MAX_NAME_LEN_def MAX_VALUE_LEN_def)
  ultimately show ?thesis by (simp only:)
qed


lemma written_append [simp]: "written f (xs @ ys) = written f xs @ written f ys"
  by (induction xs rule: written.induct) auto

lemma save_vars_written:
  "save_vars f vs w = Some w' \<Longrightarrow> written f (trace w') = written f (trace w) @ concat (map save_line vs)"
  by (induction vs arbitrary: w) (auto simp: fprintf_def split: if_splits option.splits)

lemma config_save_written:
  assumes "config_save_file orc b now fn vs idle_world = Some (n, w')" and "0 \<le> n"
  shows "written (orc [Fio (FIO_CreateFile fn)]) (trace w')
    = save_banner b @ save_date now @ concat (map save_line vs)"
  using assms
  by (auto simp: config_save_file_def ask_def idle_world_def fprintf_def Let_def
      dest!: save_vars_written split: if_splits option.splits)

subsection \<open>Memory\<close>

text \<open>The addresses that successful \<open>malloc\<close> calls of a trace returned, and those freed.\<close>

fun allocated :: "answers \<Rightarrow> fw_event list \<Rightarrow> fw_event list \<Rightarrow> addr list" where
  "allocated orc past [] = []"
| "allocated orc past (e # es) =
     (case e of Sys (Malloc n) \<Rightarrow> if orc (past @ [e]) \<noteq> 0 then [orc (past @ [e])] else [] | _ \<Rightarrow> [])
     @ allocated orc (past @ [e]) es"

fun freed :: "fw_event list \<Rightarrow> addr list" where
  "freed [] = []"
| "freed (Sys (Free a) # es) = a # freed es"
| "freed (e # es) = freed es"

lemma allocated_append:
  "allocated orc past (xs @ ys) = allocated orc past xs @ allocated orc (past @ xs) ys"
  by (induction xs arbitrary: past) auto

lemma freed_append [simp]: "freed (xs @ ys) = freed xs @ freed ys"
  by (induction xs rule: freed.induct) auto

lemma frees: "freed (map (\<lambda>c. Sys (Free (node c))) cs) = map node cs"
  "allocated orc past (map (\<lambda>c. Sys (Free (node c))) cs) = []"
  by (induction cs arbitrary: past) auto

definition accounted :: "answers \<Rightarrow> fw_event list \<Rightarrow> config list \<Rightarrow> bool" where
  "accounted orc es cs \<longleftrightarrow> mset (allocated orc [] es) = mset (freed es) + mset (map node cs)"

lemma parse_line_accounted:
  assumes "accounted orc (trace w) cs" and "config_parse_line orc line w = (r, w')"
  shows "accounted orc (trace w') (case r of None \<Rightarrow> cs | Some c \<Rightarrow> c # cs)"
  using assms
  by (auto simp: config_parse_line_def ask_def accounted_def Let_def allocated_append
      split: if_splits option.splits prod.splits)

lemma free_all_accounted: "accounted orc (trace w) cs \<Longrightarrow> accounted orc (trace (free_all cs w)) []"
  by (simp add: free_all_def accounted_def allocated_append frees)

lemma config_parse_accounted:
  "config_parse orc f cs vars w = (r, vars', w') \<Longrightarrow> accounted orc (trace w) cs \<Longrightarrow>
   accounted orc (trace w') (case r of None \<Rightarrow> [] | Some l \<Rightarrow> l)"
proof (induction orc f cs vars w rule: config_parse.induct)
  case (1 orc f cs vars w)
  show ?case
  proof (cases "read_line line_size f")
    case (Pair l rest)
    show ?thesis
    proof (cases l)
      case None
      then show ?thesis using "1.prems" Pair by (auto simp: config_parse.simps)
    next
      case (Some line)
      show ?thesis
      proof (cases "peek line = CHR ''#'' \<or> peek line = NUL")
        case True
        have "config_parse orc rest cs vars w = (r, vars', w')"
          using "1.prems"(1) Pair Some True by (subst (asm) config_parse.simps) simp
        then show ?thesis using "1.IH"(1) [OF Pair [symmetric] Some True] "1.prems"(2) by blast
      next
        case False
        obtain c w1 where p: "config_parse_line orc line w = (c, w1)" by force
        note acc = parse_line_accounted [OF "1.prems"(2) p]
        show ?thesis
        proof (cases c)
          case None
          then show ?thesis using "1.prems"(1) Pair Some False p acc
            by (auto simp: config_parse.simps intro: free_all_accounted)
        next
          case c: (Some c1)
          have "config_parse orc rest (c1 # cs) (config_auto_parse c1 vars) w1 = (r, vars', w')"
            using "1.prems"(1) Pair Some False p c by (subst (asm) config_parse.simps) simp
          then show ?thesis
            using "1.IH"(2) [OF Pair [symmetric] Some False p [symmetric] c] acc c by simp
        qed
      qed
    qed
  qed
qed


lemma parse_line_bounds:
  assumes "config_parse_line orc line w = (Some c, w')"
  shows "length (name c) < MAX_NAME_LEN \<and> length (value c) \<le> MAX_VALUE_LEN"
proof (cases "parse_fields line")
  case None
  then show ?thesis using assms by (simp add: config_parse_line_def ask_def split: if_splits)
next
  case (Some p)
  then obtain nm v where "parse_fields line = Some (nm, v)" by (cases p) auto
  then show ?thesis using assms parse_fields_bounds [of line nm v]
    by (auto simp: config_parse_line_def ask_def split: if_splits)
qed

lemma config_parse_bounds_aux:
  "config_parse orc f cs vars w = (Some r, vars', w') \<Longrightarrow>
   \<forall>c \<in> set cs. length (name c) < MAX_NAME_LEN \<and> length (value c) \<le> MAX_VALUE_LEN \<Longrightarrow>
   \<forall>c \<in> set r. length (name c) < MAX_NAME_LEN \<and> length (value c) \<le> MAX_VALUE_LEN"
proof (induction orc f cs vars w rule: config_parse.induct)
  case (1 orc f cs vars w)
  obtain l rest where r: "read_line line_size f = (l, rest)" by force
  show ?case
  proof (cases l)
    case None
    then show ?thesis using "1.prems" r by (simp add: config_parse.simps)
  next
    case (Some line)
    show ?thesis
    proof (cases "peek line = CHR ''#'' \<or> peek line = NUL")
      case True
      have "config_parse orc rest cs vars w = (Some r, vars', w')"
        using "1.prems"(1) r Some True by (subst (asm) config_parse.simps) simp
      then show ?thesis using "1.IH"(1) [OF r [symmetric] Some True] "1.prems"(2) by blast
    next
      case False
      obtain c w1 where p: "config_parse_line orc line w = (c, w1)" by force
      obtain c1 where c: "c = Some c1"
        using "1.prems"(1) r Some False p by (cases c) (auto simp: config_parse.simps)
      have "length (name c1) < MAX_NAME_LEN \<and> length (value c1) \<le> MAX_VALUE_LEN"
        using parse_line_bounds p c by blast
      then have "\<forall>c \<in> set (c1 # cs). length (name c) < MAX_NAME_LEN \<and> length (value c) \<le> MAX_VALUE_LEN"
        using "1.prems"(2) by simp
      moreover have "config_parse orc rest (c1 # cs) (config_auto_parse c1 vars) w1 = (Some r, vars', w')"
        using "1.prems"(1) r Some False p c by (subst (asm) config_parse.simps) simp
      ultimately show ?thesis
        using "1.IH"(2) [OF r [symmetric] Some False p [symmetric] c] by blast
    qed
  qed
qed

text \<open>Saving succeeds once the file can be created.\<close>

lemma save_vars_succeeds: "\<forall>v \<in> set vs. good_var v \<Longrightarrow> \<exists>w'. save_vars f vs w = Some w'"
  by (induction vs arbitrary: w)
    (auto simp: good_var_def fprintf_def line_size_def MAX_NAME_LEN_def MAX_VALUE_LEN_def)

lemma save_succeeds:
  assumes "orc (trace w @ [Fio (FIO_CreateFile fn)]) \<noteq> INVALID_PTR"
    and "good_banner b" and "good_tm now" and "\<forall>v \<in> set vs. good_var v"
  shows "\<exists>w'. config_save_file orc b now fn vs w = Some (int (length vs), w')"
proof -
  have "length (save_banner b) < 256" using assms(2) by (simp add: save_banner_def good_banner_def)
  moreover have "short_field (fmt_0d 4 (tm_year now + 1900))" "short_field (fmt_0d 2 (tm_mon now + 1))"
    "short_field (fmt_0d 2 (tm_mday now))" "short_field (fmt_0d 2 (tm_hour now))"
    "short_field (fmt_0d 2 (tm_min now))" "short_field (fmt_0d 2 (tm_sec now))"
    using assms(3) by (simp_all add: good_tm_def fmt_0d_small)
  then have "length (save_date now) < 256" by (simp add: save_date_def short_field_def)
  ultimately show ?thesis
    using assms(1) save_vars_succeeds [OF assms(4)]
    by (auto simp: config_save_file_def ask_def fprintf_def Let_def split: option.split)
qed

lemma save_parse_back:
  assumes "config_save_file orc b now fn vs idle_world = Some (n, w)" and "0 \<le> n"
    and "good_banner b" and "good_tm now" and "\<forall>v \<in> set vs. good_var v"
    and "distinct (map var_name vs)" and "list_all2 same_kind vs us" and "\<forall>es. orc' es \<noteq> 0"
  shows "\<exists>cs w'. config_parse orc' (written (orc [Fio (FIO_CreateFile fn)]) (trace w)) [] us w0
    = (Some cs, vs, w')"
proof -
  have "\<exists>cs w'. config_parse orc' (concat (map save_line vs)) [] ([] @ us) w0
      = (Some cs, [] @ map (\<lambda>(v, u). u\<lparr>var_value := var_value v\<rparr>) (zip vs us), w')"
    using assms(5-8) by (intro parse_saved_vars) auto
  then show ?thesis
    using assms(3,4) parse_header [of b now orc' "concat (map save_line vs)" "[]" us w0]
    by (auto simp: config_save_written [OF assms(1,2)] same_kind_restore [OF assms(7)])
qed

subsection \<open>The properties\<close>

text \<open>C13: what \<open>config_save_file\<close> writes, \<open>config_parse\<close> reads back: every variable of the same
  names and types gets the saved value again, whatever it held, when the names and strings fit
  a line, the integers are not negative and memory does not run out.\<close>

theorem config_save_parse_roundtrip:
  assumes "config_save_file orc b now fn vs idle_world = Some (n, w)" and "0 \<le> n"
    and "good_banner b" and "good_tm now" and "\<forall>v \<in> set vs. good_var v"
    and "distinct (map var_name vs)" and "list_all2 same_kind vs us" and "\<forall>es. orc' es \<noteq> 0"
  shows "\<exists>cs w'. config_parse orc' (written (orc [Fio (FIO_CreateFile fn)]) (trace w)) [] us w0
    = (Some cs, vs, w')"
  by (rule save_parse_back [OF assms])

definition sample_banner :: build_info where
  "sample_banner = \<lparr>build_version = ''0.1.6'', build_id = ''hg'', build_date = ''2010'', build_user = ''th''\<rparr>"

definition sample_tm :: tm where
  "sample_tm = \<lparr>tm_year = 110, tm_mon = 1, tm_mday = 2, tm_hour = 3, tm_min = 4, tm_sec = 5\<rparr>"

definition sample_vars :: "config_var list" where
  "sample_vars = [\<lparr>var_name = ''zebra.level'', var_value = CInt 61440\<rparr>,
     \<lparr>var_name = ''audio.name'', var_value = CStr ''left mic''\<rparr>]"

theorem config_save_parse_roundtrip_witness:
  "\<exists>cs w'. config_parse (\<lambda>es. 4096)
     (written 7 (trace (snd (the (config_save_file (\<lambda>es. 7) sample_banner sample_tm ''A:/MAGIC.CFG'' sample_vars idle_world)))))
     [] (map (\<lambda>v. v\<lparr>var_value := (case var_value v of CInt _ \<Rightarrow> CInt 0 | CStr _ \<Rightarrow> CStr [])\<rparr>) sample_vars) idle_world
   = (Some cs, sample_vars, w')"
proof -
  have ok: "config_save_file (\<lambda>es. 7) sample_banner sample_tm ''A:/MAGIC.CFG'' sample_vars idle_world
    = Some (2, snd (the (config_save_file (\<lambda>es. 7) sample_banner sample_tm ''A:/MAGIC.CFG'' sample_vars idle_world)))"
    by (simp add: config_save_file_def ask_def INVALID_PTR_def fprintf_def save_banner_def save_date_def
        save_line_def sample_vars_def sample_banner_def sample_tm_def fmt_d_def fmt_0d_def pad_left_def
        sign_of_def digits.simps)
  have "\<forall>v \<in> set sample_vars. good_var v"
    by (simp add: sample_vars_def good_var_def good_name_def good_text_def is_space_def ctrl_defs
        MAX_NAME_LEN_def MAX_VALUE_LEN_def line_size_def save_line_def fmt_d_def pad_left_def
        sign_of_def digits.simps)
  moreover have "good_banner sample_banner" "good_tm sample_tm"
    by (simp_all add: sample_banner_def sample_tm_def good_banner_def good_tm_def ctrl_defs)
  ultimately show ?thesis
    by (intro config_save_parse_roundtrip [OF ok, simplified])
      (auto simp: sample_vars_def same_kind_def)
qed

text \<open>C38: no node is leaked and none is freed twice: whatever the file holds and whenever \<open>malloc\<close>
  fails, the nodes allocated while parsing are exactly the ones freed and the ones in the list
  returned.\<close>

theorem config_parse_no_leak:
  "let (r, vars', w) = config_parse orc f [] vars idle_world
   in mset (allocated orc [] (trace w))
      = mset (freed (trace w)) + mset (map node (case r of None \<Rightarrow> [] | Some cs \<Rightarrow> cs))"
  using config_parse_accounted [of orc f "[]" vars idle_world]
  by (auto simp: accounted_def idle_world_def split: prod.splits)

text \<open>Every name parsed leaves room for its terminator; a value may fill its array of
  \<open>MAX_VALUE_LEN\<close> characters completely.\<close>

theorem config_parse_bounds:
  assumes "config_parse orc f [] vars w = (Some cs, vars', w')" and "c \<in> set cs"
  shows "length (name c) < MAX_NAME_LEN \<and> length (value c) \<le> MAX_VALUE_LEN"
  using config_parse_bounds_aux [OF assms(1)] assms(2) by simp

theorem config_parse_bounds_witness:
  "\<exists>cs vars w. config_parse (\<lambda>es. 8) (''a='' @ replicate 60 CHR ''x'' @ [LF]) [] [] idle_world
      = (Some cs, vars, w) \<and> (\<forall>c \<in> set cs. length (name c) < MAX_NAME_LEN \<and> length (value c) \<le> MAX_VALUE_LEN)
      \<and> length (value (hd cs)) = MAX_VALUE_LEN"
proof -
  let ?l = "''a='' @ replicate 60 CHR ''x''"
  let ?c = "\<lparr>node = 8, name = ''a'', value = replicate 60 CHR ''x''\<rparr> :: config"
  have l: "read_line line_size (?l @ LF # []) = (Some ?l, [])"
    by (intro read_line_line) (auto simp: ctrl_defs line_size_def MAX_NAME_LEN_def MAX_VALUE_LEN_def)
  have f: "parse_fields ?l = Some (''a'', replicate 60 CHR ''x'')"
    by (simp add: parse_fields_def copy_while_eq is_space_def ctrl_defs MAX_NAME_LEN_def
        MAX_VALUE_LEN_def trim_right_def eval_nat_numeral)
  have p: "config_parse_line (\<lambda>es. 8) ?l idle_world = (Some ?c, emit (Sys (Malloc sizeof_config)) idle_world)"
    using f by (simp add: config_parse_line_def ask_def)
  have r: "config_parse (\<lambda>es. 8) (?l @ LF # []) [] [] idle_world
    = (Some [?c], [], emit (Sys (Malloc sizeof_config)) idle_world)"
    unfolding config_parse.simps [of _ "?l @ LF # []"] l
    by (simp add: p [simplified] config_parse.simps read_line_end line_size_pos ctrl_defs)
  have "\<forall>c \<in> set [?c]. length (name c) < MAX_NAME_LEN \<and> length (value c) \<le> MAX_VALUE_LEN"
    using config_parse_bounds [OF r] by blast
  then show ?thesis using r by (auto simp: MAX_VALUE_LEN_def)
qed

end
