(* ===== verification/Bmp.thy ===== *)
theory Bmp
  imports Config
begin

text \<open>
  \<open>bmp.h\<close>, \<open>bmp.c\<close> and \<open>font.h\<close>: drawing into the bitmap VRAM.  Memory is a function from
  32-bit addresses to bytes.  The fonts live in the camera's ROM: a font is its header, the
  words that follow the header (the character map, then the offsets) and the glyph found at an
  offset.
\<close>

type_synonym memory = "addr \<Rightarrow> u8"

record display = world +
  mem :: memory
  bmp_vram :: addr

definition bmp_width :: u32 where "bmp_width = 720"
definition bmp_pitch :: u32 where "bmp_pitch = 960"
definition bmp_height :: u32 where "bmp_height = 480"

subsection \<open>Fonts\<close>

record canon_char =
  char_width :: u16
  char_height :: u16
  display_width :: u16
  xoff :: u16
  yoff :: u16
  bitmap :: "nat \<Rightarrow> u8"

record canon_font =
  font_addr :: addr
  magic :: u32
  font_height :: u16
  charmap_size :: u32
  bitmap_size :: u32
  table_words :: "nat \<Rightarrow> u32"
  glyph_at :: "u32 \<Rightarrow> canon_char"

record fonts =
  font_med :: canon_font
  font_gothic_30 :: canon_font
  font_gothic_36 :: canon_font
  font_mono_24 :: canon_font
  font_small :: canon_font

definition CANON_FONT_MAGIC :: u32 where "CANON_FONT_MAGIC = 0x544e46"

definition fontspec_font :: "fonts \<Rightarrow> u32 \<Rightarrow> canon_font" where
  "fontspec_font fs fontspec =
     (let f = fontspec AND FONT_MASK
      in if f = FONT_MED then font_med fs
         else if f = FONT_LARGE then font_gothic_30 fs
         else if f = FONT_HUGE then font_gothic_36 fs
         else if f = FONT_MONO then font_mono_24 fs
         else font_small fs)"

definition fontspec_height :: "fonts \<Rightarrow> u32 \<Rightarrow> u32" where
  "fontspec_height fs fontspec = ucast (font_height (fontspec_font fs fontspec))"

definition charmap :: "canon_font \<Rightarrow> nat \<Rightarrow> u32" where
  "charmap font i = table_words font i"

definition offsets :: "canon_font \<Rightarrow> nat \<Rightarrow> u32" where
  "offsets font i = table_words font (unat (charmap_size font) div 4 + i)"

text \<open>The slow search returns the offset of the first match, -1 when there is none.\<close>

fun charmap_search :: "canon_font \<Rightarrow> u32 \<Rightarrow> nat list \<Rightarrow> u32" where
  "charmap_search font c [] = - 1"
| "charmap_search font c (i # is) =
     (if charmap font i = c then offsets font i else charmap_search font c is)"

definition canon_char_lookup ::
  "canon_font \<Rightarrow> u32 \<Rightarrow> 'a world_scheme \<Rightarrow> canon_char option \<times> 'a world_scheme" where
  "canon_char_lookup font c w =
     (if magic font \<noteq> CANON_FONT_MAGIC
      then (None, emit (Draw (Bmp_printf FONT_SMALL 0 4
              (fmt_0x 0 (font_addr font) @ '' => '' @ fmt_0x 0 (magic font)))) w)
      else
        let offset =
              (if 0x20 \<le> c \<and> c \<le> 0x7F \<and> charmap font (unat (c - 0x20)) = c
               then offsets font (unat (c - 0x20))
               else charmap_search font c [0..<unat (charmap_size font) div 4])
        in (if offset > bitmap_size font then None else Some (glyph_at font offset), w))"

definition fontspec_width :: "fonts \<Rightarrow> u32 \<Rightarrow> 'a world_scheme \<Rightarrow> u32 \<times> 'a world_scheme" where
  "fontspec_width fs fontspec w =
     (let (em, w) = canon_char_lookup (fontspec_font fs fontspec) (of_char CHR ''m'') w
      in (case em of None \<Rightarrow> 12 | Some em \<Rightarrow> ucast (display_width em), w))"

subsection \<open>Drawing loops\<close>

text \<open>Writes \<open>n\<close> bytes from address \<open>a\<close>, and a rectangle of rows one pitch apart.\<close>

definition write_row :: "addr \<Rightarrow> nat \<Rightarrow> (nat \<Rightarrow> u8) \<Rightarrow> memory \<Rightarrow> memory" where
  "write_row a n f m = fold (\<lambda>j m. m(a + of_nat j := f j)) [0..<n] m"

definition raster :: "addr \<Rightarrow> nat \<Rightarrow> nat \<Rightarrow> (nat \<Rightarrow> nat \<Rightarrow> u8) \<Rightarrow> memory \<Rightarrow> memory" where
  "raster a w h f m = fold (\<lambda>i m. write_row (a + of_nat i * bmp_pitch) w (f i) m) [0..<h] m"

definition store_word :: "addr \<Rightarrow> u32 \<Rightarrow> memory \<Rightarrow> memory" where
  "store_word a v m = m(a := byte_of v 0, a + 1 := byte_of v 1, a + 2 := byte_of v 2, a + 3 := byte_of v 3)"

definition load_word :: "memory \<Rightarrow> addr \<Rightarrow> u32" where
  "load_word m a = ucast (m a) OR push_bit 8 (ucast (m (a + 1)))
     OR push_bit 16 (ucast (m (a + 2))) OR push_bit 24 (ucast (m (a + 3)))"

definition draw_colors :: "u32 \<Rightarrow> u8 \<times> u8" where
  "draw_colors fontspec =
     (if fontspec_fg fontspec = 0 \<and> fontspec_bg fontspec = 0 then (ucast COLOR_WHITE, ucast COLOR_BG)
      else (ucast (fontspec_fg fontspec), ucast (fontspec_bg fontspec)))"

text \<open>Bit \<open>j\<close> of row \<open>i\<close> of a glyph; the row stride is kept in a \<open>uint8_t\<close>.\<close>

definition glyph_bit :: "canon_char \<Rightarrow> nat \<Rightarrow> nat \<Rightarrow> bool" where
  "glyph_bit c i j =
     (bitmap c (i * ((unat (char_width c) + 7) div 8 mod 256) + j div 8) AND drop_bit (j mod 8) 0x80 \<noteq> 0)"

definition canon_char_draw :: "canon_font \<Rightarrow> canon_char \<Rightarrow> u32 \<Rightarrow> addr \<Rightarrow> memory \<Rightarrow> memory" where
  "canon_char_draw font c fontspec bmp_vram_row m =
     (let (fg, bg) = draw_colors fontspec;
          m = raster bmp_vram_row (unat (display_width c)) (unat (font_height font)) (\<lambda>i j. bg) m
      in raster (bmp_vram_row + ucast (xoff c) + ucast (yoff c) * bmp_pitch)
           (unat (char_width c)) (unat (char_height c)) (\<lambda>i j. if glyph_bit c i j then fg else bg) m)"

subsection \<open>Text\<close>

record cursor =
  cur_row :: addr
  first_row :: addr
  cur_x :: u32
  cur_y :: u32

text \<open>\<open>None\<close> is the null pointer access of a line feed in a font without a space.\<close>

fun puts_loop ::
  "canon_font \<Rightarrow> canon_char option \<Rightarrow> u32 \<Rightarrow> u32 \<Rightarrow> string \<Rightarrow> cursor \<Rightarrow> 'a display_scheme \<Rightarrow>
   (cursor \<times> 'a display_scheme) option" where
  "puts_loop font space fontspec initial_x [] q w = Some (q, w)"
| "puts_loop font space fontspec initial_x (c # s) q w =
     (if c = NUL then Some (q, w)
      else if c = LF then
        (case space of None \<Rightarrow> None
         | Some sp \<Rightarrow>
            (let first = first_row q + bmp_pitch * ucast (char_height sp)
             in puts_loop font space fontspec initial_x s
                  \<lparr>cur_row = first, first_row = first, cur_x = initial_x,
                   cur_y = cur_y q + ucast (char_height sp)\<rparr> w))
      else
        (case canon_char_lookup font (of_char c) w of
           (None, w) \<Rightarrow> puts_loop font space fontspec initial_x s q w
         | (Some cc, w) \<Rightarrow>
             puts_loop font space fontspec initial_x s
               (q\<lparr>cur_row := cur_row q + ucast (display_width cc), cur_x := cur_x q + ucast (display_width cc)\<rparr>)
               (w\<lparr>mem := canon_char_draw font cc fontspec (cur_row q) (mem w)\<rparr>)))"

definition bmp_puts ::
  "fonts \<Rightarrow> u32 \<Rightarrow> u32 \<Rightarrow> u32 \<Rightarrow> string \<Rightarrow> 'a display_scheme \<Rightarrow> (u32 \<times> u32 \<times> 'a display_scheme) option" where
  "bmp_puts fs fontspec x y s w =
     (let vram = bmp_vram w
      in if vram = 0 \<or> vram AND 1 = 1 then Some (x, y, w)
         else
           let first = vram + y * bmp_pitch + x;
               font = fontspec_font fs fontspec;
               (space, w) = canon_char_lookup font (of_char CHR '' '') w
           in map_option (\<lambda>(q, w). (cur_x q, cur_y q, w))
                (puts_loop font space fontspec x s
                   \<lparr>cur_row = first, first_row = first, cur_x = x, cur_y = y\<rparr> w))"

text \<open>\<open>text\<close> is the result of the conversions, cut to the buffer of 256 bytes.\<close>

definition bmp_printf :: "fonts \<Rightarrow> u32 \<Rightarrow> u32 \<Rightarrow> u32 \<Rightarrow> string \<Rightarrow> 'a display_scheme \<Rightarrow> 'a display_scheme option" where
  "bmp_printf fs fontspec x y text w =
     map_option (\<lambda>(x, y, w). w) (bmp_puts fs fontspec x y (snprintf 256 text) w)"

definition con_printf :: "u32 \<Rightarrow> string \<Rightarrow> 'a display_scheme \<Rightarrow> 'a display_scheme" where
  "con_printf fontspec text w = w"

definition hexdump_text :: "memory \<Rightarrow> addr \<Rightarrow> u32 \<Rightarrow> string" where
  "hexdump_text m d len =
     fmt_0x 8 d @ '':'' @ fmt_0x 8 (if len > 0 then load_word m d else 0)
     @ fmt_0x 8 (if len > 4 then load_word m (d + 4) else 0)
     @ '' '' @ fmt_0x 8 (if len > 8 then load_word m (d + 8) else 0)
     @ fmt_0x 8 (if len > 12 then load_word m (d + 12) else 0)"

fun hexdump_lines :: "fonts \<Rightarrow> memory \<Rightarrow> u32 \<Rightarrow> nat \<Rightarrow> u32 \<Rightarrow> u32 \<Rightarrow> addr \<Rightarrow> u32 \<Rightarrow> fw_event list" where
  "hexdump_lines fs m fontspec 0 x y d len = []"
| "hexdump_lines fs m fontspec (Suc n) x y d len =
     Draw (Bmp_printf fontspec x y (hexdump_text m d len))
     # hexdump_lines fs m fontspec n x (y + fontspec_height fs fontspec) (d + 16) (len - 16)"

text \<open>The loop counts a multiple of 16 down to 0; when the rounding wrapped to 0 it goes all the
  way around.\<close>

definition bmp_hexdump :: "fonts \<Rightarrow> u32 \<Rightarrow> u32 \<Rightarrow> u32 \<Rightarrow> addr \<Rightarrow> u32 \<Rightarrow> 'a display_scheme \<Rightarrow> 'a display_scheme" where
  "bmp_hexdump fs fontspec x y buf len w =
     (if len = 0 then w
      else
        let len = (len + 15) AND NOT 15;
            n = (if len = 0 then 2 ^ 28 else unat len div 16)
        in emits (hexdump_lines fs (mem w) fontspec n x y buf len) w)"

subsection \<open>Filling\<close>

definition fill_width :: "u32 \<Rightarrow> u32 \<Rightarrow> u32" where
  "fill_width x w = (if x + w > bmp_width then bmp_width - x else w)"

definition bmp_fill :: "u8 \<Rightarrow> u32 \<Rightarrow> u32 \<Rightarrow> u32 \<Rightarrow> u32 \<Rightarrow> 'a display_scheme \<Rightarrow> 'a display_scheme" where
  "bmp_fill color x y w h d =
     (let w = fill_width x w;
          word = color_word color;
          y = (if y > bmp_height then bmp_height else y);
          y_end = (ucast (ucast (y + h) :: u16) :: u32);
          y_end = (if y_end > bmp_height then bmp_height else y_end)
      in if w = 0 \<or> h = 0 then d
         else
           let vram = bmp_vram d;
               row = vram + y * bmp_pitch + x
           in if vram = 0 \<or> 1 AND vram \<noteq> 0 then d
              else d\<lparr>mem := fold (\<lambda>i m.
                     fold (\<lambda>x m. store_word (row + of_nat i * bmp_pitch + 4 * of_nat x) word m)
                       [0..<unat (w div 4)] m)
                   [0..<unat y_end - unat y] (mem d)\<rparr>)"

text \<open>The palette: 16 by 16 fields of 45 by 30 pixels; the static flag makes the screen shot
  happen once.\<close>

definition bmp_draw_palette :: "bool \<Rightarrow> 'a display_scheme \<Rightarrow> bool \<times> 'a display_scheme" where
  "bmp_draw_palette shown d =
     (let d = d\<lparr>mem := fold (\<lambda>msb. fold (\<lambda>y m.
                let row = bmp_vram d + of_nat (y + 30 * msb) * bmp_pitch
                in fold (\<lambda>lsb. fold (\<lambda>x m.
                      m(row + of_nat (x + 45 * lsb) := push_bit 4 (of_nat msb) OR of_nat lsb))
                     [0..<45]) [0..<16] m)
              [0..<30]) [0..<16] (mem d)\<rparr>
      in (True, if shown then d else emit (Sys (Call_function ''dispcheck'')) d))"

subsection \<open>Loading a picture\<close>

definition read_file :: "answers \<Rightarrow> string \<Rightarrow> u32 \<Rightarrow> 'a world_scheme \<Rightarrow> u32 \<times> 'a world_scheme" where
  "read_file orc filename sz w =
     (let (f, w) = ask orc (Fio (FIO_Open filename O_SYNC)) w
      in if f = INVALID_PTR then (- 1, w)
         else
           let (rc, w) = ask orc (Fio (FIO_ReadFile f (unat sz))) w;
               w = emit (Fio (FIO_CloseFile f)) w
           in (if rc = sz then sz else - 1, w))"

record bmp_picture =
  fast_buf :: addr
  content :: "u8 list"
  image :: addr

definition le16 :: "(nat \<Rightarrow> u8) \<Rightarrow> nat \<Rightarrow> u16" where
  "le16 b k = ucast (b k) OR push_bit 8 (ucast (b (k + 1)))"

definition le32_at :: "(nat \<Rightarrow> u8) \<Rightarrow> nat \<Rightarrow> u32" where
  "le32_at b k = ucast (b k) OR push_bit 8 (ucast (b (k + 1)))
     OR push_bit 16 (ucast (b (k + 2))) OR push_bit 24 (ucast (b (k + 3)))"

text \<open>\<open>bytes\<close> is the file; \<open>stale\<close> is what lies in memory after the buffer, which the header
  accesses reach when the file is shorter than a header.\<close>

definition bmp_load ::
  "answers \<Rightarrow> (nat \<Rightarrow> u8) \<Rightarrow> string \<Rightarrow> u8 list \<Rightarrow> 'a world_scheme \<Rightarrow> bmp_picture option \<times> 'a world_scheme" where
  "bmp_load orc stale filename bytes w =
     (let size = (of_nat (length bytes) :: u32);
          (rc, w) = ask orc (Fio (FIO_GetFileSize filename)) w
      in if rc \<noteq> 0 then (None, w)
         else
           let (buf, w) = ask orc (Sys (Alloc_dma_memory (unat size))) w
           in if buf = 0 then (None, w)
              else
                let (rc, w) = read_file orc filename size w;
                    at = (\<lambda>k. if k < length bytes then bytes ! k else stale k)
                in if rc \<noteq> size then (None, emit (Sys (Free_dma_memory buf)) w)
                   else if le16 at 0 \<noteq> 0x4D42 then (None, emit (Sys (Free_dma_memory buf)) w)
                   else
                     let image_offset = le32_at at 10
                     in if image_offset > size then (None, emit (Sys (Free_dma_memory buf)) w)
                        else
                          let (fast, w) = ask orc (Sys (Malloc (unat size))) w
                          in if fast = 0 then (None, emit (Sys (Free_dma_memory buf)) w)
                             else (Some \<lparr>fast_buf = fast, content = bytes, image = fast + image_offset\<rparr>,
                                   emit (Sys (Free_dma_memory buf)) w))"

subsection \<open>Rows and rectangles\<close>

lemma unat_diff_of_nat:
  fixes c :: u32
  assumes "k < 2 ^ 32"
  shows "unat (c - of_nat k) = (if k \<le> unat c then unat c - k else unat c + 2 ^ 32 - k)"
proof -
  have k: "unat (of_nat k :: u32) = k" using assms by (simp add: unat_of_nat take_bit_nat_eq_self)
  show ?thesis using unat_sub_if_size [of c "of_nat k"] by (simp add: k word_size)
qed

lemma write_row_eq:
  "n \<le> 2 ^ 32 \<Longrightarrow> write_row a n f m = (\<lambda>b. if unat (b - a) < n then f (unat (b - a)) else m b)"
proof (induction n)
  case 0
  then show ?case by (simp add: write_row_def)
next
  case (Suc n)
  have "b = a + of_nat n \<longleftrightarrow> unat (b - a) = n" for b
    using Suc.prems by (auto simp: unat_of_nat take_bit_nat_eq_self)
  then show ?case using Suc by (auto simp: write_row_def fun_eq_iff less_Suc_eq)
qed

lemma div_mod_block:
  fixes d h p w :: nat
  assumes "w \<le> p" and "0 < p"
  shows "h * p \<le> d \<and> d - h * p < w \<longleftrightarrow> d div p = h \<and> d mod p < w"
proof
  assume l: "h * p \<le> d \<and> d - h * p < w"
  then have "d div p = h" using assms by (intro div_nat_eqI) (auto simp: mult.commute)
  moreover from this have "d mod p = d - h * p" by (metis minus_div_mult_eq_mod)
  ultimately show "d div p = h \<and> d mod p < w" using l by simp
next
  assume r: "d div p = h \<and> d mod p < w"
  moreover have "d = d div p * p + d mod p" by simp
  ultimately show "h * p \<le> d \<and> d - h * p < w" by (metis add_diff_cancel_left' le_add1)
qed

lemma raster_eq:
  "w \<le> 960 \<Longrightarrow> h * 960 \<le> 2 ^ 32 \<Longrightarrow> raster a w h f m =
    (\<lambda>b. if unat (b - a) div 960 < h \<and> unat (b - a) mod 960 < w
         then f (unat (b - a) div 960) (unat (b - a) mod 960) else m b)"
proof (induction h)
  case 0
  then show ?case by (simp add: raster_def)
next
  case (Suc h)
  have inner: "raster a w (Suc h) f m = write_row (a + of_nat (h * 960)) w (f h) (raster a w h f m)"
    by (simp add: raster_def bmp_pitch_def)
  show ?case
  proof
    fix b
    let ?d = "unat (b - a)"
    have "unat (b - (a + of_nat (h * 960))) = (if h * 960 \<le> ?d then ?d - h * 960 else ?d + 2 ^ 32 - h * 960)"
      using unat_diff_of_nat [of "h * 960" "b - a"] Suc.prems by (simp add: algebra_simps)
    moreover have "h * 960 \<le> ?d \<and> ?d - h * 960 < w \<longleftrightarrow> ?d div 960 = h \<and> ?d mod 960 < w"
      if "w \<le> 960" using div_mod_block [OF that, of h ?d] by simp
    ultimately show "raster a w (Suc h) f m b = (if ?d div 960 < Suc h \<and> ?d mod 960 < w
         then f (?d div 960) (?d mod 960) else m b)"
      using Suc unfolding inner by (subst write_row_eq) (auto simp: less_Suc_eq minus_div_mult_eq_mod)
  qed
qed


lemma store_words_row:
  "4 * n \<le> 2 ^ 32 \<Longrightarrow>
   fold (\<lambda>x m. store_word (a + 4 * of_nat x) (color_word (c x)) m) [0..<n] m
     = write_row a (4 * n) (\<lambda>j. c (j div 4)) m"
proof (induction n)
  case 0
  then show ?case by (simp add: write_row_def)
next
  case (Suc n)
  have "byte_of (color_word c) k = c" if "k < 4" for c k
    using bytes_of_color_word [of c] that less_Suc_eq by (auto simp: bytes_of_def numeral_eq_Suc)
  then have st: "store_word p (color_word c) m = m(p := c, p + 1 := c, p + 2 := c, p + 3 := c)" for c p m
    by (simp add: store_word_def)
  have "[0..<4 * Suc n] = [0..<4 * n] @ [4 * n, 4 * n + 1, 4 * n + 2, 4 * n + 3]"
    by (simp add: upt_rec [of "4 * n"] upt_rec [of "Suc (4 * n)"] eval_nat_numeral)
  moreover have d: "Suc (n * 4) div 4 = n" "Suc (Suc (n * 4)) div 4 = n" by simp_all
  ultimately have w: "write_row a (4 * Suc n) (\<lambda>j. c (j div 4)) m
    = store_word (a + 4 * of_nat n) (color_word (c n)) (write_row a (4 * n) (\<lambda>j. c (j div 4)) m)"
    by (simp add: write_row_def st ac_simps d)
  have "fold (\<lambda>x m. store_word (a + 4 * of_nat x) (color_word (c x)) m) [0..<n] m
      = write_row a (4 * n) (\<lambda>j. c (j div 4)) m"
    using Suc by simp
  then show ?case unfolding w by simp
qed

definition fill_cols :: "u32 \<Rightarrow> u32 \<Rightarrow> nat" where
  "fill_cols x w = unat (fill_width x w div 4) * 4"

text \<open>Pixel coordinates of an address in the bitmap VRAM.\<close>

definition pixel_addr :: "addr \<Rightarrow> nat \<Rightarrow> nat \<Rightarrow> addr" where
  "pixel_addr vram px py = vram + of_nat (py * 960 + px)"

lemma unat_of_nat_u32: "n < 2 ^ 32 \<Longrightarrow> unat (of_nat n :: u32) = n"
  by (simp add: unat_of_nat take_bit_nat_eq_self)

lemma unat_mult_small: "unat (a :: u32) * unat b < 2 ^ 32 \<Longrightarrow> unat (a * b) = unat a * unat b"
  by (simp add: unat_word_ariths)

lemma unat_add_small: "unat (a :: u32) + unat b < 2 ^ 32 \<Longrightarrow> unat (a + b) = unat a + unat b"
  by (simp add: unat_word_ariths)

lemma pixel_offset:
  assumes "x \<le> px" "px < x + 960" "y \<le> py" "py < 1000" "x \<le> 960"
  shows "unat (pixel_addr vram px py - (vram + of_nat y * bmp_pitch + of_nat x)) = (py - y) * 960 + (px - x)"
proof -
  have "pixel_addr vram px py - (vram + of_nat y * bmp_pitch + of_nat x)
    = of_nat (py * 960 + px) - of_nat (y * 960 + x)"
    by (simp add: pixel_addr_def bmp_pitch_def)
  also have "\<dots> = of_nat (py * 960 + px - (y * 960 + x))"
    using assms by (intro of_nat_diff [symmetric]) (auto intro!: add_mono)
  also have "py * 960 + px - (y * 960 + x) = (py - y) * 960 + (px - x)"
    using assms by (simp add: diff_mult_distrib)
  finally have e: "pixel_addr vram px py - (vram + of_nat y * bmp_pitch + of_nat x)
    = of_nat ((py - y) * 960 + (px - x))" .
  have "(py - y) * 960 + (px - x) < 2 ^ 32" using assms by simp
  then show ?thesis unfolding e by (simp only: unat_of_nat_u32)
qed


lemma fold_store_raster:
  assumes "4 * n \<le> 2 ^ 32"
  shows "fold (\<lambda>i m. fold (\<lambda>x m. store_word (row + of_nat i * bmp_pitch + 4 * of_nat x) (color_word (c i x)) m)
      [0..<n] m) [0..<h] m = raster row (4 * n) h (\<lambda>i j. c i (j div 4)) m"
  unfolding raster_def by (intro fold_cong refl) (simp add: store_words_row [OF assms])

text \<open>A rectangle of rows, read in pixel coordinates.\<close>

lemma pixel_offset_above:
  assumes "py < y" "px < x + 960" "y < 1000" "x \<le> 960" "w \<le> 960" "h \<le> 1000"
  shows "\<not> unat (pixel_addr vram px py - (vram + of_nat y * bmp_pitch + of_nat x)) div 960 < h"
proof -
  let ?d = "unat (pixel_addr vram px py - (vram + of_nat y * bmp_pitch + of_nat x))"
  have e: "pixel_addr vram px py - (vram + of_nat y * bmp_pitch + of_nat x)
    = of_nat (py * 960 + px) - of_nat (y * 960 + x)"
    by (simp add: pixel_addr_def bmp_pitch_def)
  have "Suc py * 960 \<le> y * 960" using assms(1) by (intro mult_le_mono1) simp
  then have "(y * 960 + x \<le> py * 960 + px) = False" using assms(2) by simp
  moreover have "unat (of_nat (py * 960 + px) :: u32) = py * 960 + px"
    using assms by (intro unat_of_nat_u32) simp
  moreover have "y * 960 + x < 2 ^ 32" using assms by simp
  ultimately have "?d = py * 960 + px + 2 ^ 32 - (y * 960 + x)"
    unfolding e by (simp only: unat_diff_of_nat if_False)
  then have "?d \<ge> 2000000" using assms by simp
  then show ?thesis using div_le_mono [of 2000000 ?d 960] assms(6) by simp
qed

lemma raster_pixel:
  assumes "x \<le> px" "px < x + 960" "py < 1000" "y < 1000" "x \<le> 960" "w \<le> 960" "h \<le> 1000"
  shows "raster (vram + of_nat y * bmp_pitch + of_nat x) w h f m (pixel_addr vram px py)
    = (if y \<le> py \<and> py < y + h \<and> px < x + w then f (py - y) (px - x) else m (pixel_addr vram px py))"
proof -
  let ?row = "vram + of_nat y * bmp_pitch + of_nat x"
  have "h * 960 \<le> 2 ^ 32" using assms(7) by simp
  note r = raster_eq [OF assms(6) this, THEN fun_cong, of ?row f m "pixel_addr vram px py"]
  show ?thesis
  proof (cases "y \<le> py")
    case True
    have "unat (pixel_addr vram px py - ?row) = (py - y) * 960 + (px - x)"
      using assms True by (intro pixel_offset) auto
    moreover have "px - x < 960" using assms(1,2) by simp
    ultimately have "unat (pixel_addr vram px py - ?row) div 960 = py - y"
      "unat (pixel_addr vram px py - ?row) mod 960 = px - x" by simp_all
    then show ?thesis unfolding r using assms(1) True by auto
  next
    case False
    then show ?thesis unfolding r using pixel_offset_above [of py y px x w h vram] assms by simp
  qed
qed

text \<open>Which pixels a fill reaches.\<close>

definition in_fill :: "u32 \<Rightarrow> u32 \<Rightarrow> u32 \<Rightarrow> u32 \<Rightarrow> nat \<Rightarrow> nat \<Rightarrow> bool" where
  "in_fill x y w h px py \<longleftrightarrow>
     unat x \<le> px \<and> px < unat x + 4 * (min (unat w) (720 - unat x) div 4)
     \<and> unat y \<le> py \<and> py < min (unat y + unat h) 480"

lemma unat_fill_width: "x \<le> 720 \<Longrightarrow> unat w \<le> 2000 \<Longrightarrow> unat (fill_width x w) = min (unat w) (720 - unat x)"
  using unat_sub_if_size [of 720 x]
  by (auto simp: fill_width_def bmp_width_def word_less_nat_alt word_le_nat_alt unat_word_ariths word_size)

text \<open>A fill that is not empty writes a rectangle.\<close>

lemma bmp_fill_raster:
  assumes "x \<le> 720" and "y \<le> 480" and "unat w \<le> 2000" and "unat h \<le> 2000"
    and "bmp_vram d \<noteq> 0" and "bmp_vram d AND 1 = 0" and "fill_width x w \<noteq> 0" and "h \<noteq> 0"
  shows "mem (bmp_fill c x y w h d)
    = raster (bmp_vram d + y * bmp_pitch + x) (4 * (min (unat w) (720 - unat x) div 4))
        (min (unat y + unat h) 480 - unat y) (\<lambda>i j. c) (mem d)"
proof -
  let ?ye = "ucast (ucast (y + h) :: u16) :: u32"
  have "unat ?ye = unat y + unat h"
    using assms(2,4) by (simp add: unsigned_ucast_eq unsigned_take_bit_eq unat_word_ariths
        take_bit_nat_eq_self word_le_nat_alt)
  then have yend: "unat (if ?ye > bmp_height then bmp_height else ?ye) = min (unat y + unat h) 480"
    by (auto simp: bmp_height_def word_less_nat_alt)
  have y0: "(if y > bmp_height then bmp_height else y) = y"
    using assms(2) by (auto simp: bmp_height_def)
  have "unat (fill_width x w div 4) = min (unat w) (720 - unat x) div 4"
    by (simp add: unat_div unat_fill_width assms)
  then show ?thesis
    using assms(5-8) by (simp add: bmp_fill_def Let_def y0 yend fold_store_raster and.commute)
qed



text \<open>C30: after a glyph is drawn, each of its pixels shows the foreground colour exactly where its
  bitmap has a one bit, and the background colour elsewhere.\<close>

theorem canon_char_draw_pixel:
  assumes "char_width c \<le> 960" and "i < unat (char_height c)" and "j < unat (char_width c)"
  shows "canon_char_draw font c fontspec row m
      (row + ucast (xoff c) + ucast (yoff c) * bmp_pitch + of_nat (i * 960 + j))
    = (if glyph_bit c i j then fst (draw_colors fontspec) else snd (draw_colors fontspec))"
proof -
  have w: "unat (char_width c) \<le> 960" using assms(1) by (simp add: word_le_nat_alt)
  have h: "unat (char_height c) < 65536" using unsigned_less [of "char_height c"] by simp
  have o: "unat (of_nat (i * 960 + j) :: u32) = i * 960 + j"
    using assms(2,3) w h by (intro unat_of_nat_u32) simp
  have "(i * 960 + j) div 960 = i" "(i * 960 + j) mod 960 = j" using assms(3) w by simp_all
  moreover have "unat (char_height c) * 960 \<le> 2 ^ 32" using h by simp
  ultimately show ?thesis
    unfolding canon_char_draw_def Let_def prod.case_eq_if using assms(2,3)
    by (subst raster_eq [OF w]) (simp_all only: add_diff_cancel_left' o if_True simp_thms)
qed

definition letter_i :: canon_char where
  "letter_i = \<lparr>char_width = 8, char_height = 2, display_width = 9, xoff = 1, yoff = 3,
     bitmap = (\<lambda>k. if k = 0 then 0x10 else 0x38)\<rparr>"

definition ascii_font :: canon_font where
  "ascii_font = \<lparr>font_addr = 0xF0000000, magic = CANON_FONT_MAGIC, font_height = 20,
     charmap_size = 384, bitmap_size = 4000,
     table_words = (\<lambda>i. if i < 96 then of_nat (i + 32) else of_nat (40 * (i - 96))),
     glyph_at = (\<lambda>offset. letter_i)\<rparr>"

definition sample_fonts :: fonts where
  "sample_fonts = \<lparr>font_med = ascii_font, font_gothic_30 = ascii_font, font_gothic_36 = ascii_font,
     font_mono_24 = ascii_font, font_small = ascii_font\<rparr>"

theorem canon_char_draw_pixel_witness:
  "canon_char_draw ascii_font letter_i (FONT FONT_SMALL 8 3) 0x1000 (\<lambda>_. 0) (0x1000 + 1 + 3 * bmp_pitch + of_nat (1 * 960 + 4)) = 8"
  using canon_char_draw_pixel [of letter_i 1 4 ascii_font "FONT FONT_SMALL 8 3" "0x1000" "\<lambda>_. 0"]
  by (simp add: letter_i_def glyph_bit_def draw_colors_def fontspec_fg_FONT fontspec_bg_FONT)

subsection \<open>Looking characters up\<close>

lemma charmap_search_first:
  assumes "i \<in> set is" and "charmap font i = c" and "inj_on (charmap font) (set is)"
  shows "charmap_search font c is = offsets font i"
  using assms by (induction "is") (auto simp: inj_on_def)

text \<open>The fast path for ASCII finds what the linear search finds, in every font whose
  character map has no character twice and covers the characters it is indexed with.\<close>

theorem lookup_fast_is_search:
  assumes "magic font = CANON_FONT_MAGIC"
    and "inj_on (charmap font) {..<unat (charmap_size font) div 4}"
    and "0x20 \<le> c \<and> c \<le> 0x7F \<longrightarrow> unat (c - 0x20) < unat (charmap_size font) div 4"
  shows "canon_char_lookup font c w =
    (let offset = charmap_search font c [0..<unat (charmap_size font) div 4]
     in (if offset > bitmap_size font then None else Some (glyph_at font offset), w))"
proof (cases "0x20 \<le> c \<and> c \<le> 0x7F \<and> charmap font (unat (c - 0x20)) = c")
  case True
  have "charmap_search font c [0..<unat (charmap_size font) div 4] = offsets font (unat (c - 0x20))"
    using True assms(2,3) by (intro charmap_search_first) (auto simp: atLeast0LessThan)
  then show ?thesis using assms(1) True by (simp add: canon_char_lookup_def)
next
  case False
  then show ?thesis using assms(1) by (auto simp: canon_char_lookup_def)
qed

theorem lookup_fast_is_search_witness:
  "canon_char_lookup ascii_font 0x41 idle_world =
    (let offset = charmap_search ascii_font 0x41 [0..<96]
     in (if offset > 4000 then None else Some letter_i, idle_world))"
proof -
  have "inj_on (charmap ascii_font) {..<96}"
  proof (rule inj_onI)
    fix i j assume l: "i \<in> {..<96}" "j \<in> {..<96}" and e: "charmap ascii_font i = charmap ascii_font j"
    then have "(of_nat (i + 32) :: u32) = of_nat (j + 32)" by (simp add: charmap_def ascii_font_def)
    then have "i + 32 = j + 32" using l unat_of_nat_u32 [of "i + 32"] unat_of_nat_u32 [of "j + 32"] by simp
    then show "i = j" by simp
  qed
  moreover have "unat (c - 0x20) < 96" if "0x20 \<le> c \<and> c \<le> 0x7F" for c :: u32
    using that unat_sub_if_size [of c "0x20"] by (auto simp: word_le_nat_alt word_size)
  ultimately show ?thesis
    using lookup_fast_is_search [of ascii_font "0x41" idle_world] by (simp add: ascii_font_def)
qed

subsection \<open>The text cursor\<close>

definition tracks :: "addr \<Rightarrow> u32 \<Rightarrow> cursor \<Rightarrow> bool" where
  "tracks vram initial_x q \<longleftrightarrow> cur_row q = vram + cur_y q * bmp_pitch + cur_x q
     \<and> first_row q = vram + cur_y q * bmp_pitch + initial_x"

text \<open>C29: the row pointer that text is drawn at always is the address of the cursor position,
  through every line feed, unknown character and glyph.\<close>

theorem puts_loop_tracks:
  assumes "puts_loop font space fontspec initial_x s q w = Some (q', w')" and "tracks vram initial_x q"
  shows "tracks vram initial_x q'"
  using assms
proof (induction font space fontspec initial_x s q w rule: puts_loop.induct)
  case (1 font space fontspec initial_x q w)
  then show ?case by simp
next
  case (2 font space fontspec initial_x c s q w)
  show ?case
  proof (cases "c = NUL \<or> c = LF \<and> space = None")
    case True
    then show ?thesis using 2 by (auto simp: ctrl_defs)
  next
    case F: False
    show ?thesis
    proof (cases "c = LF")
      case True
      then obtain sp where "space = Some sp" using F by auto
      then show ?thesis using 2 True F
        by (auto simp: tracks_def algebra_simps Let_def)
    next
      case False
      then show ?thesis using 2 F
        by (cases "canon_char_lookup font (of_char c) w"; cases "fst (canon_char_lookup font (of_char c) w)")
          (auto simp: tracks_def algebra_simps)
    qed
  qed
qed


theorem puts_loop_tracks_witness:
  "\<exists>q' w'. puts_loop ascii_font (Some letter_i) 0 4 (''ab'' @ [LF] @ ''c'')
      \<lparr>cur_row = 0x1000 + 5 * bmp_pitch + 4, first_row = 0x1000 + 5 * bmp_pitch + 4, cur_x = 4, cur_y = 5\<rparr>
      \<lparr>trace = [], mem = (\<lambda>a. 0), bmp_vram = 0x1000\<rparr> = Some (q', w')
    \<and> tracks 0x1000 4 q' \<and> cur_y q' = 7 \<and> cur_x q' = 13"
proof -
  let ?q = "\<lparr>cur_row = 0x1000 + 5 * bmp_pitch + 4, first_row = 0x1000 + 5 * bmp_pitch + 4, cur_x = 4, cur_y = 5\<rparr>"
  have l: "canon_char_lookup ascii_font 97 w = (Some letter_i, w)"
    "canon_char_lookup ascii_font 98 w = (Some letter_i, w)"
    "canon_char_lookup ascii_font 99 w = (Some letter_i, w)" for w :: display
    by (simp_all add: canon_char_lookup_def ascii_font_def charmap_def offsets_def)
  obtain q' w' where r: "puts_loop ascii_font (Some letter_i) 0 4 (''ab'' @ [LF] @ ''c'') ?q
      \<lparr>trace = [], mem = (\<lambda>a. 0), bmp_vram = 0x1000\<rparr> = Some (q', w')"
    and xy: "cur_y q' = 7 \<and> cur_x q' = 13"
    by (simp add: l ctrl_defs letter_i_def Let_def)
  moreover have "tracks 0x1000 4 q'"
    by (rule puts_loop_tracks [OF r]) (simp add: tracks_def)
  ultimately show ?thesis using xy by blast
qed

subsection \<open>Picture files\<close>

fun dma_allocated :: "answers \<Rightarrow> fw_event list \<Rightarrow> fw_event list \<Rightarrow> addr list" where
  "dma_allocated orc past [] = []"
| "dma_allocated orc past (e # es) =
     (case e of Sys (Alloc_dma_memory n) \<Rightarrow> if orc (past @ [e]) \<noteq> 0 then [orc (past @ [e])] else [] | _ \<Rightarrow> [])
     @ dma_allocated orc (past @ [e]) es"

fun dma_freed :: "fw_event list \<Rightarrow> addr list" where
  "dma_freed [] = []"
| "dma_freed (Sys (Free_dma_memory a) # es) = a # dma_freed es"
| "dma_freed (e # es) = dma_freed es"

text \<open>On every path \<open>bmp_load\<close> frees the DMA buffer it allocated, exactly once; the picture it
  returns has the BMP signature, and its image starts inside the copy or at its end.\<close>

theorem bmp_load_spec:
  assumes "length bytes < 2 ^ 32"
  shows "let (r, w) = bmp_load orc stale filename bytes idle_world
    in dma_freed (trace w) = dma_allocated orc [] (trace w)
     \<and> (case r of None \<Rightarrow> True
        | Some p \<Rightarrow> content p = bytes \<and> fast_buf p \<noteq> 0 \<and> unat (image p - fast_buf p) \<le> length bytes)"
proof -
  have "unat (of_nat (length bytes) :: u32) = length bytes"
    using assms by (rule unat_of_nat_u32)
  then show ?thesis
    by (auto simp: bmp_load_def read_file_def ask_def idle_world_def emit_def Let_def word_less_nat_alt not_less)
qed

definition tiny_bmp :: "u8 list" where
  "tiny_bmp = [0x42, 0x4D, 58, 0, 0, 0, 0, 0, 0, 0, 12, 0, 0, 0]"

theorem bmp_load_spec_witness:
  "\<exists>p w. bmp_load (\<lambda>es. case last es of Fio (FIO_GetFileSize f) \<Rightarrow> 0 | Fio (FIO_ReadFile f n) \<Rightarrow> 14 | _ \<Rightarrow> 0x4000)
     (\<lambda>k. 0) ''A:/TEST.BMP'' tiny_bmp idle_world = (Some p, w)
   \<and> image p = 0x400C \<and> dma_freed (trace w) = [0x4000] \<and> unat (image p - fast_buf p) \<le> 14"
proof -
  let ?orc = "\<lambda>es. (case last es of Fio (FIO_GetFileSize f) \<Rightarrow> 0 | Fio (FIO_ReadFile f n) \<Rightarrow> 14 | _ \<Rightarrow> 0x4000) :: u32"
  obtain p w where l: "bmp_load ?orc (\<lambda>k. 0) ''A:/TEST.BMP'' tiny_bmp idle_world = (Some p, w)"
    and i: "image p = 0x400C" and d: "dma_freed (trace w) = [0x4000]"
    by (simp add: bmp_load_def read_file_def ask_def idle_world_def emit_def tiny_bmp_def le16_def
        le32_at_def INVALID_PTR_def)
  have "unat (image p - fast_buf p) \<le> length tiny_bmp"
    using bmp_load_spec [of tiny_bmp ?orc "\<lambda>k. 0" "''A:/TEST.BMP''"] l by (simp add: tiny_bmp_def)
  then show ?thesis using l i d by (auto simp: tiny_bmp_def)
qed

end
