(* ===== verification/Gui.thy ===== *)
theory Gui
  imports Firmware
begin

text \<open>
  \<open>gui.h\<close> and \<open>gui.c\<close>: the event numbers, and the main loop that replaces the camera's own
  \<open>gui_main_task\<close>.  A received message is an \<open>event\<close>, or \<open>None\<close> for the null pointer; one turn
  of the loop is \<open>gui_main_step\<close> and the loop, which only the shutdown ends, is the run over any
  list of received messages.
\<close>

datatype gui_event_t =
  GOT_TOP_OF_CONTROL | LOST_TOP_OF_CONTROL | INITIALIZE_CONTROLLER | TERMINATE_WINSYS
| DELETE_DIALOG_REQUEST | PRESS_RIGHT_BUTTON | PRESS_LEFT_BUTTON | PRESS_UP_BUTTON
| PRESS_DOWN_BUTTON | PRESS_MENU_BUTTON | UNPRESS_SET_BUTTON | PRESS_SET_BUTTON
| PRESS_PICSTYLE_BUTTON | PRESS_ZOOM_IN_BUTTON | UNPRESS_ZOOM_IN_BUTTON | PRESS_JOY_LEFT
| PRESS_JOY_UP | PRESS_JOY_DOWN | PRESS_JOY_RIGHT | JOY_CENTER | PRESS_INFO_BUTTON
| ELECTRONIC_SUB_DIAL_RIGHT | ELECTRONIC_SUB_DIAL_LEFT | DIAL_LEFT | DIAL_RIGHT
| PRESS_DISP_BUTTON | PRESS_ERASE_BUTTON | PRESS_DIRECT_PRINT_BUTTON | PRESS_FUNC_BUTTON
| PRESS_PICTURE_STYLE_BUTTON | GUICMD_OPEN_SLOT_COVER | GUICMD_CLOSE_SLOT_COVER
| GUICMD_MADE_QR | GUICMD_MADE_FILE | GUI_TIMER4 | GUI_TIMER2 | GUI_TIMER3 | START_SHOOT_MOVIE
| GUI_PROP_EVENT | LOCAL_MOVIE_RECORD_STOP | GUICMD_UI_OK | GUICMD_START_AS_CHECK
| GUICMD_LOCK_OFF | GUICMD_LOCK_ON | EVENTID_METERING_START | EVENTID_94

fun event_code :: "gui_event_t \<Rightarrow> u32" where
  "event_code GOT_TOP_OF_CONTROL = 0x800"
| "event_code LOST_TOP_OF_CONTROL = 0x801"
| "event_code INITIALIZE_CONTROLLER = 0x802"
| "event_code TERMINATE_WINSYS = 0x804"
| "event_code DELETE_DIALOG_REQUEST = 0x805"
| "event_code PRESS_RIGHT_BUTTON = 0x807"
| "event_code PRESS_LEFT_BUTTON = 0x809"
| "event_code PRESS_UP_BUTTON = 0x80B"
| "event_code PRESS_DOWN_BUTTON = 0x80D"
| "event_code PRESS_MENU_BUTTON = 0x80F"
| "event_code UNPRESS_SET_BUTTON = 0x810"
| "event_code PRESS_SET_BUTTON = 0x812"
| "event_code PRESS_PICSTYLE_BUTTON = 0x81C"
| "event_code PRESS_ZOOM_IN_BUTTON = 0x819"
| "event_code UNPRESS_ZOOM_IN_BUTTON = 0x81A"
| "event_code PRESS_JOY_LEFT = 0x820"
| "event_code PRESS_JOY_UP = 0x822"
| "event_code PRESS_JOY_DOWN = 0x824"
| "event_code PRESS_JOY_RIGHT = 0x826"
| "event_code JOY_CENTER = 0x828"
| "event_code PRESS_INFO_BUTTON = 0x829"
| "event_code ELECTRONIC_SUB_DIAL_RIGHT = 0x82B"
| "event_code ELECTRONIC_SUB_DIAL_LEFT = 0x82C"
| "event_code DIAL_LEFT = 0x82E"
| "event_code DIAL_RIGHT = 0x82F"
| "event_code PRESS_DISP_BUTTON = 0x10000000"
| "event_code PRESS_ERASE_BUTTON = 0x10000001"
| "event_code PRESS_DIRECT_PRINT_BUTTON = 0x10000005"
| "event_code PRESS_FUNC_BUTTON = 0x10000007"
| "event_code PRESS_PICTURE_STYLE_BUTTON = 0x10000009"
| "event_code GUICMD_OPEN_SLOT_COVER = 0x1000000B"
| "event_code GUICMD_CLOSE_SLOT_COVER = 0x1000000C"
| "event_code GUICMD_MADE_QR = 0x10000037"
| "event_code GUICMD_MADE_FILE = 0x10000038"
| "event_code GUI_TIMER4 = 0x10000054"
| "event_code GUI_TIMER2 = 0x10000069"
| "event_code GUI_TIMER3 = 0x1000006D"
| "event_code START_SHOOT_MOVIE = 0x1000008A"
| "event_code GUI_PROP_EVENT = 0x10000085"
| "event_code LOCAL_MOVIE_RECORD_STOP = 0x10000078"
| "event_code GUICMD_UI_OK = 0x100000A1"
| "event_code GUICMD_START_AS_CHECK = 0x100000A2"
| "event_code GUICMD_LOCK_OFF = 0x100000A3"
| "event_code GUICMD_LOCK_ON = 0x100000A4"
| "event_code EVENTID_METERING_START = 0x10000039"
| "event_code EVENTID_94 = 0x10000094"

subsection \<open>The main task\<close>

record event =
  ev_type :: u32
  ev_param :: u32
  ev_obj :: u32
  ev_arg :: u32

record gui_main = world +
  main_obj :: u32
  counter :: u32
  timer_obj :: u32

text \<open>The parameters that pass while all other events are cancelled.\<close>

definition control_exempt :: "u32 list" where
  "control_exempt = [0x25, 0x26, 0x27, 0x28, 0x29, 0x2A, 0x1F, 0x2B, 0x23, 0x2C, 0x2D, 0x2E, 0x2F,
     0x30, 0x31, 0x32, 0x3B]"

definition mode_exempt :: "u32 list" where
  "mode_exempt = [0x00, 0x07, 0x05]"

definition local_exempt :: "u32 list" where
  "local_exempt = [0x17, 0x18, 0x14, 0x1B, 0x30, 0x31]"

definition other_exempt :: "u32 list" where
  "other_exempt = [0x00, 0x03, 0x01, 0x12, 0x13, 0x14]"

text \<open>The firmware calls of an event; \<open>obj\<close> is the local variable of the task.\<close>

definition gui_main_event :: "event \<Rightarrow> u32 \<Rightarrow> 'a gui_main_scheme \<Rightarrow> u32 \<times> 'a gui_main_scheme" where
  "gui_main_event e obj s =
     (let cancelled = (\<lambda>exempt. main_obj s \<noteq> obj \<and> ev_param e \<notin> set exempt)
      in if ev_type e = 0 then
           if cancelled control_exempt then (obj, s)
           else if ev_param e = 0x13 then (obj, emit (Sem (Give_semaphore Gui_sem)) s)
           else (obj, emit (Gui (Gui_massive_event_loop (ev_param e) (ev_obj e) (ev_arg e))) s)
         else if ev_type e = 1 then
           if cancelled mode_exempt then (obj, s)
           else
             let s = (if ev_param e = 0
                      then let s = emit (Gui (Gui_local_post 0x12 0 0)) s
                           in if timer_obj s \<noteq> 0
                              then emit (Gui (Gui_timer_something (timer_obj s) 4)) s else s
                      else s)
             in (obj, emit (Gui (Gui_change_mode (ev_param e))) s)
         else if ev_type e = 2 then
           if cancelled local_exempt then (obj, s)
           else (obj, emit (Gui (Gui_local_post (ev_param e) (ev_obj e) (ev_arg e))) s)
         else if ev_type e = 3 then
           if ev_param e = 0x11 then (ev_obj e, s)
           else if cancelled other_exempt then (obj, s)
           else (obj, emit (Gui (Gui_other_post (ev_param e) (ev_obj e) (ev_arg e))) s)
         else if ev_type e = 4 then
           (obj, emit (Gui (Gui_post_10000085 (ev_param e) (ev_obj e) (ev_arg e))) s)
         else if ev_type e = 5 then (obj, emit (Gui (Gui_init_event (ev_obj e))) s)
         else if ev_type e = 6 then (obj, emit (Gui (Gui_change_shoot_type_post (ev_param e))) s)
         else if ev_type e = 7 then (obj, emit (Gui (Gui_change_lcd_state_post (ev_param e))) s)
         else (obj, s))"

definition gui_main_step :: "event option \<Rightarrow> u32 \<times> 'a gui_main_scheme \<Rightarrow> u32 \<times> 'a gui_main_scheme" where
  "gui_main_step m st =
     (let (obj, s) = (case m of None \<Rightarrow> st | Some e \<Rightarrow> gui_main_event e (fst st) (snd st))
      in (obj, s\<lparr>counter := counter s - 1\<rparr>))"

definition my_gui_main_task :: "event option list \<Rightarrow> 'a gui_main_scheme \<Rightarrow> u32 \<times> 'a gui_main_scheme" where
  "my_gui_main_task ms s = fold gui_main_step ms (0, emit (Gui Gui_init_end) s)"

subsection \<open>Facts\<close>

lemma counter_emit [simp]: "counter (emit e s) = counter s"
  by (simp add: emit_def)

lemma main_obj_emit [simp]: "main_obj (emit e s) = main_obj s"
  by (simp add: emit_def)

lemma timer_obj_emit [simp]: "timer_obj (emit e s) = timer_obj s"
  by (simp add: emit_def)

lemma gui_main_event_frame:
  "counter (snd (gui_main_event e obj s)) = counter s" "main_obj (snd (gui_main_event e obj s)) = main_obj s"
  by (simp_all only: gui_main_event_def Let_def if_distrib [of snd] if_distrib [of counter] if_distrib [of main_obj]
      snd_conv counter_emit main_obj_emit if_cancel cong: if_cong)

lemma gui_main_step_counter: "counter (snd (gui_main_step m st)) = counter (snd st) - 1"
  by (cases m) (simp_all add: gui_main_step_def gui_main_event_frame prod.case_eq_if)

text \<open>The exempt parameters of the four groups that obey the cancellation.\<close>

definition exempt :: "u32 \<Rightarrow> u32 list" where
  "exempt t = (if t = 0 then control_exempt else if t = 1 then mode_exempt
     else if t = 2 then local_exempt else other_exempt)"

subsection \<open>The properties\<close>

text \<open>Every received message, the null one, a cancelled one and each kind of event included,
  takes the message counter down by exactly one.\<close>

theorem gui_counter:
  fixes s :: "'a gui_main_scheme"
  shows "counter (snd (my_gui_main_task ms s)) = counter s - of_nat (length ms)"
proof -
  have "counter (snd (fold gui_main_step ms st)) = counter (snd st) - of_nat (length ms)"
    for st :: "u32 \<times> 'a gui_main_scheme"
    by (induction ms arbitrary: st) (simp_all add: gui_main_step_counter)
  then show ?thesis by (simp add: my_gui_main_task_def)
qed

text \<open>The picture style button never reaches the camera's own GUI: whatever state the
  cancellation is in, its event makes at most the one call that wakes the menu, and makes it
  exactly when events of that object are not cancelled.\<close>

theorem picture_style_opens_menu:
  assumes "ev_type e = 0" and "ev_param e = 0x13"
  shows "gui_main_step (Some e) (obj, s) = (obj, s\<lparr>
    trace := trace s @ (if main_obj s = obj then [Sem (Give_semaphore Gui_sem)] else []),
    counter := counter s - 1\<rparr>)"
  using assms by (simp add: gui_main_step_def gui_main_event_def control_exempt_def emit_def)

theorem picture_style_opens_menu_witness:
  "gui_main_step (Some \<lparr>ev_type = 0, ev_param = 0x13, ev_obj = 0, ev_arg = 0\<rparr>)
     (0, \<lparr>trace = [], main_obj = 0, counter = 5, timer_obj = 0\<rparr>)
   = (0, \<lparr>trace = [Sem (Give_semaphore Gui_sem)], main_obj = 0, counter = 4, timer_obj = 0\<rparr>)"
  by (subst picture_style_opens_menu) simp_all



end
