(* ===== verification/Menu.thy ===== *)
theory Menu
  imports Bmp Gui
begin

text \<open>
  \<open>menu.c\<close> and \<open>menu.h\<close>: the menus and their entries are doubly linked lists of structures
  in memory, here two heaps from addresses to records.  Loops along a list are
  \<open>partial_function\<close>s, so a corrupt list that never ends is the result \<open>None\<close>.  The lemmas
  show that the operations keep the lists well formed and always return on well-formed lists,
  and that the selection moves around them as a ring.
\<close>

record menu_entry =
  me_next :: addr
  me_prev :: addr
  me_selected :: int
  me_priv :: addr
  me_select :: addr
  me_display :: addr

record menu =
  mn_next :: addr
  mn_prev :: addr
  mn_name :: string
  mn_children :: addr
  mn_selected :: int

record menu_state = world +
  menus :: addr
  menu_heap :: "addr \<Rightarrow> menu"
  entry_heap :: "addr \<Rightarrow> menu_entry"
  menu_damage :: int
  menu_hidden :: int
  menu_timeout :: int
  gui_menu_task :: addr
  draw_event :: u32
  menu_timeout_time :: int

definition sizeof_menu :: nat where "sizeof_menu = 20"
definition sizeof_menu_entry :: u32 where "sizeof_menu_entry = 24"

definition menu_binary_toggle :: "u32 \<Rightarrow> u32" where
  "menu_binary_toggle val = c_not val"

definition menu_print :: "string \<Rightarrow> u32 \<Rightarrow> u32 \<Rightarrow> int \<Rightarrow> 'a world_scheme \<Rightarrow> 'a world_scheme" where
  "menu_print text x y selected w = emit (Draw (Bmp_printf (menu_font selected) x y text)) w"

subsection \<open>Walking a list\<close>

partial_function (option) walk_last :: "(addr \<Rightarrow> addr) \<Rightarrow> addr \<Rightarrow> addr option" where
  "walk_last nx a = (if nx a \<noteq> 0 then walk_last nx (nx a) else Some a)"

text \<open>The first node with the property, or the null pointer.\<close>

partial_function (option) walk_find :: "(addr \<Rightarrow> addr) \<Rightarrow> (addr \<Rightarrow> bool) \<Rightarrow> addr \<Rightarrow> addr option" where
  "walk_find nx P a = (if a = 0 then Some 0 else if P a then Some a else walk_find nx P (nx a))"

text \<open>The search of \<open>menu_find_by_name\<close>: the node and whether it has the name; otherwise it stops
  at the last node.\<close>

partial_function (option) walk_name :: "(addr \<Rightarrow> addr) \<Rightarrow> (addr \<Rightarrow> bool) \<Rightarrow> addr \<Rightarrow> (addr \<times> bool) option" where
  "walk_name nx P a =
     (if a = 0 then Some (0, False)
      else if P a then Some (a, True)
      else if nx a = 0 then Some (a, False)
      else walk_name nx P (nx a))"

definition mnext :: "'a menu_state_scheme \<Rightarrow> addr \<Rightarrow> addr" where "mnext s a = mn_next (menu_heap s a)"
definition mprev :: "'a menu_state_scheme \<Rightarrow> addr \<Rightarrow> addr" where "mprev s a = mn_prev (menu_heap s a)"
definition enext :: "'a menu_state_scheme \<Rightarrow> addr \<Rightarrow> addr" where "enext s a = me_next (entry_heap s a)"
definition eprev :: "'a menu_state_scheme \<Rightarrow> addr \<Rightarrow> addr" where "eprev s a = me_prev (entry_heap s a)"

text \<open>Stores to a node.\<close>

definition set_menu :: "addr \<Rightarrow> (menu \<Rightarrow> menu) \<Rightarrow> 'a menu_state_scheme \<Rightarrow> 'a menu_state_scheme" where
  "set_menu a f s = s\<lparr>menu_heap := (menu_heap s)(a := f (menu_heap s a))\<rparr>"

definition set_entry :: "addr \<Rightarrow> (menu_entry \<Rightarrow> menu_entry) \<Rightarrow> 'a menu_state_scheme \<Rightarrow> 'a menu_state_scheme" where
  "set_entry a f s = s\<lparr>entry_heap := (entry_heap s)(a := f (entry_heap s a))\<rparr>"

subsection \<open>Building menus\<close>

definition menu_find_by_name ::
  "answers \<Rightarrow> string \<Rightarrow> 'a menu_state_scheme \<Rightarrow> (addr \<times> 'a menu_state_scheme) option" where
  "menu_find_by_name orc nm s =
     (let s = emit (Sem (Take_semaphore Menu_sem 0)) s
      in case walk_name (mnext s) (\<lambda>a. streq (mn_name (menu_heap s a)) nm) (menus s) of
           None \<Rightarrow> None
         | Some (m, True) \<Rightarrow> Some (m, emit (Sem (Give_semaphore Menu_sem)) s)
         | Some (m, False) \<Rightarrow>
             (let (new, s) = ask orc (Sys (Malloc sizeof_menu)) s
              in if new = 0 then Some (0, emit (Sem (Give_semaphore Menu_sem)) s)
                 else
                   let s = set_menu new (\<lambda>n. n\<lparr>mn_name := nm, mn_prev := m, mn_next := 0, mn_children := 0\<rparr>) s;
                       s = (if m \<noteq> 0
                            then set_menu new (\<lambda>n. n\<lparr>mn_selected := 0\<rparr>) (set_menu m (\<lambda>n. n\<lparr>mn_next := new\<rparr>) s)
                            else set_menu new (\<lambda>n. n\<lparr>mn_selected := 1\<rparr>) (s\<lparr>menus := new\<rparr>))
                   in Some (new, emit (Sem (Give_semaphore Menu_sem)) s)))"

text \<open>Appends \<open>count\<close> entries of the array \<open>new\<close> behind the node \<open>head\<close>.\<close>

fun append_entries :: "nat \<Rightarrow> addr \<Rightarrow> addr \<Rightarrow> 'a menu_state_scheme \<Rightarrow> 'a menu_state_scheme" where
  "append_entries 0 new head s = s"
| "append_entries (Suc k) new head s =
     (let s = set_entry new (\<lambda>e. e\<lparr>me_selected := 0, me_next := enext s head, me_prev := head\<rparr>) s;
          s = set_entry head (\<lambda>e. e\<lparr>me_next := new\<rparr>) s
      in append_entries k (new + sizeof_menu_entry) new s)"

text \<open>Adds \<open>n\<close> entries to a menu that was found; an array of no entries for a menu without children
  would make the C loop count down from -1, which is not modelled: the number is at least 1 then.\<close>

definition menu_attach :: "addr \<Rightarrow> addr \<Rightarrow> nat \<Rightarrow> 'a menu_state_scheme \<Rightarrow> 'a menu_state_scheme option" where
  "menu_attach m new n s =
     (let s = emit (Sem (Take_semaphore Menu_sem 0)) s;
          head = mn_children (menu_heap s m);
          first = (head = 0);
          s = (if first
               then set_entry new (\<lambda>e. e\<lparr>me_next := 0, me_prev := 0, me_selected := 1\<rparr>)
                      (set_menu m (\<lambda>r. r\<lparr>mn_children := new\<rparr>) s)
               else s);
          head = (if first then new else head)
      in case walk_last (enext s) head of
           None \<Rightarrow> None
         | Some tail \<Rightarrow>
             Some (emit (Sem (Give_semaphore Menu_sem))
               (append_entries (if first then n - 1 else n)
                  (if first then new + sizeof_menu_entry else new) tail s)))"

definition menu_add ::
  "answers \<Rightarrow> string \<Rightarrow> addr \<Rightarrow> nat \<Rightarrow> 'a menu_state_scheme \<Rightarrow> 'a menu_state_scheme option" where
  "menu_add orc nm new n s =
     (case menu_find_by_name orc nm s of
        None \<Rightarrow> None
      | Some (m, s) \<Rightarrow> if m = 0 then Some s else menu_attach m new n s)"

subsection \<open>Drawing menus\<close>

partial_function (option) menu_display ::
  "u32 \<Rightarrow> addr \<Rightarrow> u32 \<Rightarrow> u32 \<Rightarrow> 'a menu_state_scheme \<Rightarrow> 'a menu_state_scheme option" where
  "menu_display h a x y s =
     (if a = 0 then Some s
      else
        let e = entry_heap s a
        in menu_display h (me_next e) x (y + h)
             (emit (Sys (Entry_display (me_display e) (me_priv e) x y (me_selected e))) s))"

partial_function (option) menus_loop ::
  "fonts \<Rightarrow> addr \<Rightarrow> u32 \<Rightarrow> u32 \<Rightarrow> u32 \<Rightarrow> 'a menu_state_scheme \<Rightarrow> 'a menu_state_scheme option" where
  "menus_loop fs a orig_x x y s =
     (if a = 0 then Some s
      else
        let m = menu_heap s a;
            fontspec = FONT FONT_MED COLOR_YELLOW (if mn_selected m \<noteq> 0 then 0x7F else COLOR_BG);
            s = emit (Draw (Bmp_printf fontspec x y (fmt_s 6 (mn_name m)))) s;
            (cw, s) = fontspec_width fs fontspec s
        in case (if mn_selected m \<noteq> 0
                 then menu_display (ucast (font_height (font_mono_24 fs))) (mn_children m) orig_x
                        (y + fontspec_height fs fontspec + 4) s
                 else Some s) of
             None \<Rightarrow> None
           | Some s \<Rightarrow> menus_loop fs (mn_next m) orig_x (x + cw * 6) y s)"

definition menus_display ::
  "fonts \<Rightarrow> addr \<Rightarrow> u32 \<Rightarrow> u32 \<Rightarrow> 'a menu_state_scheme \<Rightarrow> 'a menu_state_scheme option" where
  "menus_display fs a orig_x y s =
     map_option (emit (Sem (Give_semaphore Menu_sem)))
       (menus_loop fs a orig_x orig_x y (emit (Sem (Take_semaphore Menu_sem 0)) s))"

subsection \<open>Selecting and moving\<close>

definition menu_entry_select :: "addr \<Rightarrow> 'a menu_state_scheme \<Rightarrow> 'a menu_state_scheme option" where
  "menu_entry_select m s =
     (if m = 0 then Some s
      else
        let s = emit (Sem (Take_semaphore Menu_sem 0)) s
        in case walk_find (enext s) (\<lambda>e. me_selected (entry_heap s e) \<noteq> 0) (mn_children (menu_heap s m)) of
             None \<Rightarrow> None
           | Some e \<Rightarrow>
               let s = emit (Sem (Give_semaphore Menu_sem)) s
               in Some (if e = 0 \<or> me_select (entry_heap s e) = 0 then s
                        else emit (Sys (Entry_call (me_select (entry_heap s e)) (me_priv (entry_heap s e)))) s))"

text \<open>The neighbour in the direction of travel, wrapping around at the ends.\<close>

definition ring_step :: "(addr \<Rightarrow> addr) \<Rightarrow> (addr \<Rightarrow> addr) \<Rightarrow> int \<Rightarrow> addr \<Rightarrow> addr option" where
  "ring_step nx pv direction a =
     (if direction < 0 then (if pv a \<noteq> 0 then Some (pv a) else walk_last nx a)
      else (if nx a \<noteq> 0 then Some (nx a) else walk_last pv a))"

definition menu_move ::
  "answers \<Rightarrow> addr \<Rightarrow> int \<Rightarrow> 'a menu_state_scheme \<Rightarrow> 'a menu_state_scheme option" where
  "menu_move orc m direction s =
     (let s = s\<lparr>menu_damage := 1\<rparr>
      in if m = 0 then Some s
         else
           let (rc, s) = ask orc (Sem (Take_semaphore Menu_sem 100)) s
           in if rc \<noteq> 0 then Some s
              else
                let s = set_menu m (\<lambda>n. n\<lparr>mn_selected := 0\<rparr>) s
                in case ring_step (mnext s) (mprev s) direction m of
                     None \<Rightarrow> None
                   | Some m \<Rightarrow> Some (emit (Sem (Give_semaphore Menu_sem)) (set_menu m (\<lambda>n. n\<lparr>mn_selected := 1\<rparr>) s)))"

definition menu_entry_move ::
  "answers \<Rightarrow> addr \<Rightarrow> int \<Rightarrow> 'a menu_state_scheme \<Rightarrow> 'a menu_state_scheme option" where
  "menu_entry_move orc m direction s =
     (if m = 0 then Some s
      else
        let (rc, s) = ask orc (Sem (Take_semaphore Menu_sem 100)) s
        in if rc \<noteq> 0 then Some s
           else
             case walk_find (enext s) (\<lambda>e. me_selected (entry_heap s e) \<noteq> 0) (mn_children (menu_heap s m)) of
               None \<Rightarrow> None
             | Some e \<Rightarrow>
                 if e = 0 then Some (emit (Sem (Give_semaphore Menu_sem)) s)
                 else
                   let s = set_entry e (\<lambda>n. n\<lparr>me_selected := 0\<rparr>) s
                   in case ring_step (enext s) (eprev s) direction e of
                        None \<Rightarrow> None
                      | Some e \<Rightarrow>
                          Some (emit (Sem (Give_semaphore Menu_sem)) (set_entry e (\<lambda>n. n\<lparr>me_selected := 1\<rparr>) s)))"

subsection \<open>The event handler and the menu task\<close>

definition menu_area :: "u32 \<Rightarrow> fw_event" where
  "menu_area color = Draw (Bmp_fill (ucast color) 90 90 (720 - 160) (480 - 180))"

definition gui_stop_menu :: "'a menu_state_scheme \<Rightarrow> 'a menu_state_scheme" where
  "gui_stop_menu s =
     (let s = s\<lparr>menu_hidden := 0, menu_damage := 0\<rparr>
      in if gui_menu_task s = 0 then s
         else emit (menu_area 0)
                (emit (Gui (Gui_task_destroy (gui_menu_task s))) s\<lparr>gui_menu_task := 0\<rparr>))"

definition gui_hide_menu :: "int \<Rightarrow> 'a menu_state_scheme \<Rightarrow> 'a menu_state_scheme" where
  "gui_hide_menu redisplay_time s =
     emit (menu_area 0) (s\<lparr>menu_hidden := redisplay_time, menu_damage := 1\<rparr>)"

definition gui_menu_shown :: "'a menu_state_scheme \<Rightarrow> addr" where
  "gui_menu_shown s = gui_menu_task s"

definition toggle_draw_event :: "'a menu_state_scheme \<Rightarrow> 'a menu_state_scheme" where
  "toggle_draw_event s = s\<lparr>draw_event := c_not (draw_event s)\<rparr>"

text \<open>The end of the handler, after an event that changed something.\<close>

definition menu_redraw :: "fonts \<Rightarrow> 'a menu_state_scheme \<Rightarrow> (int \<times> 'a menu_state_scheme) option" where
  "menu_redraw fs s =
     (let s = s\<lparr>menu_timeout := menu_timeout_time s\<rparr>
      in if menu_hidden s \<noteq> 0 \<or> gui_menu_task s = 0 then Some (0, s)
         else
           let s = (if menu_damage s \<noteq> 0 then emit (menu_area COLOR_BG) s else s);
               s = s\<lparr>menu_damage := 0\<rparr>
           in map_option (\<lambda>s. (0, s)) (menus_display fs (menus s) 100 100 s))"

definition menu_handler ::
  "answers \<Rightarrow> fonts \<Rightarrow> u32 \<Rightarrow> u32 \<Rightarrow> u32 \<Rightarrow> u32 \<Rightarrow> 'a menu_state_scheme \<Rightarrow>
   (int \<times> 'a menu_state_scheme) option" where
  "menu_handler orc fs event arg2 arg3 arg4 s =
     (let is = (\<lambda>es. event \<in> event_code ` set es)
      in if is [GUI_TIMER2, GUI_TIMER3, GUI_TIMER4] then Some (0, s)
         else if is [GUI_PROP_EVENT] then Some (0, s)
         else
           let s = (if event \<noteq> 1 \<and> draw_event s \<noteq> 0
                    then emit (Draw (Bmp_printf FONT_SMALL 400 40
                           (''event '' @ fmt_0x 8 event @ '' args '' @ fmt_0x 8 arg2 @ '' ''
                            @ fmt_0x 8 arg3 @ '' '' @ fmt_0x 8 arg4))) s
                    else s)
           in case walk_find (mnext s) (\<lambda>m. mn_selected (menu_heap s m) \<noteq> 0) (menus s) of
                None \<Rightarrow> None
              | Some m \<Rightarrow>
                  if is [INITIALIZE_CONTROLLER] then Some (0, s)
                  else if is [GOT_TOP_OF_CONTROL] then menu_redraw fs (s\<lparr>menu_damage := 1\<rparr>)
                  else if is [TERMINATE_WINSYS] then Some (1, gui_stop_menu s)
                  else if is [DELETE_DIALOG_REQUEST] then Some (0, gui_stop_menu s)
                  else if is [PRESS_MENU_BUTTON, EVENTID_METERING_START] then Some (1, gui_stop_menu s)
                  else if is [JOY_CENTER] then Some (0, s)
                  else if is [EVENTID_94] then Some (1, s)
                  else if is [PRESS_JOY_UP, ELECTRONIC_SUB_DIAL_LEFT] then
                    Option.bind (menu_entry_move orc m (- 1) s) (\<lambda>s. menu_redraw fs (s\<lparr>menu_damage := 1\<rparr>))
                  else if is [PRESS_JOY_DOWN, ELECTRONIC_SUB_DIAL_RIGHT] then
                    Option.bind (menu_entry_move orc m 1 s) (\<lambda>s. menu_redraw fs (s\<lparr>menu_damage := 1\<rparr>))
                  else if is [PRESS_JOY_RIGHT, DIAL_RIGHT] then
                    Option.bind (menu_move orc m 1 s) (menu_redraw fs)
                  else if is [PRESS_JOY_LEFT, DIAL_LEFT] then
                    Option.bind (menu_move orc m (- 1) s) (menu_redraw fs)
                  else if is [PRESS_SET_BUTTON] then
                    Option.bind (menu_entry_select m s) (menu_redraw fs)
                  else if event = 1 then menu_redraw fs s
                  else Some (0, s))"

definition menu_init :: "answers \<Rightarrow> 'a menu_state_scheme \<Rightarrow> 'a menu_state_scheme option" where
  "menu_init orc s =
     (let s = s\<lparr>menus := 0, gui_menu_task := 0\<rparr>;
          s = emit (Sem (Create_named_semaphore Menu_sem ''menus'' 1)) s;
          s = emit (Sem (Create_named_semaphore Gui_sem ''gui'' 0)) s
      in fold (\<lambda>nm r. Option.bind r (\<lambda>s. map_option snd (menu_find_by_name orc nm s)))
           [''Audio'', ''Video'', ''Brack'', ''Focus'', ''Debug''] (Some s))"

text \<open>The start of the menu task, and one turn of its loop, which opens, times out and redraws the
  menu.\<close>

definition menu_task_start :: "answers \<Rightarrow> addr \<Rightarrow> 'a menu_state_scheme \<Rightarrow> 'a menu_state_scheme option" where
  "menu_task_start orc draw_prop_menus s = menu_add orc ''Debug'' draw_prop_menus 1 s"

definition menu_task_step :: "answers \<Rightarrow> 'a menu_state_scheme \<Rightarrow> 'a menu_state_scheme" where
  "menu_task_step orc s =
     (let (rc, s) = ask orc (Sem (Take_semaphore Gui_sem 500)) s
      in if rc \<noteq> 0 then
           if gui_menu_task s = 0 then s
           else
             let s = s\<lparr>menu_timeout := menu_timeout s - 1\<rparr>
             in if menu_timeout s = 0 then gui_stop_menu s
                else if menu_hidden s \<noteq> 0 then
                  let s = s\<lparr>menu_hidden := menu_hidden s - 1\<rparr>
                  in if menu_hidden s \<noteq> 0 then s
                     else emit (Gui (Ctrlman_dispatch_event (gui_menu_task s) (event_code GOT_TOP_OF_CONTROL))) s
                else emit (Gui (Ctrlman_dispatch_event (gui_menu_task s) 1)) s
         else if gui_menu_task s \<noteq> 0 then gui_stop_menu s
         else
           let s = s\<lparr>menu_damage := 1, menu_hidden := 0\<rparr>;
               (task, s) = ask orc (Gui Gui_task_create) s
           in s\<lparr>gui_menu_task := task\<rparr>)"

subsection \<open>Well-formed lists\<close>

text \<open>\<open>as\<close> are the addresses of a doubly linked list, from its head to its tail.\<close>

definition dlist :: "(addr \<Rightarrow> addr) \<Rightarrow> (addr \<Rightarrow> addr) \<Rightarrow> addr list \<Rightarrow> bool" where
  "dlist nx pv as \<longleftrightarrow> distinct as \<and> (\<forall>i < length as. as ! i \<noteq> 0
     \<and> nx (as ! i) = (if Suc i < length as then as ! Suc i else 0)
     \<and> pv (as ! i) = (if i = 0 then 0 else as ! (i - 1)))"

lemma dlist_nth:
  assumes "dlist nx pv as" and "i < length as"
  shows "as ! i \<noteq> 0" "nx (as ! i) = (if Suc i < length as then as ! Suc i else 0)"
    "pv (as ! i) = (if i = 0 then 0 else as ! (i - 1))"
  using assms by (auto simp: dlist_def)

lemma walk_last_next: "dlist nx pv as \<Longrightarrow> i < length as \<Longrightarrow> walk_last nx (as ! i) = Some (as ! (length as - 1))"
proof (induction "length as - i" arbitrary: i)
  case 0
  then show ?case by simp
next
  case (Suc k)
  show ?case
  proof (cases "Suc i < length as")
    case True
    then have "walk_last nx (as ! Suc i) = Some (as ! (length as - 1))" using Suc by auto
    then show ?thesis using dlist_nth [OF Suc.prems] dlist_nth(1) [OF Suc.prems(1) True] True
      by (subst walk_last.simps) simp
  next
    case False
    then have "i = length as - 1" using Suc.prems by simp
    then show ?thesis using dlist_nth [OF Suc.prems] False by (subst walk_last.simps) simp
  qed
qed

lemma walk_last_prev: "dlist nx pv as \<Longrightarrow> i < length as \<Longrightarrow> walk_last pv (as ! i) = Some (as ! 0)"
proof (induction i)
  case 0
  then show ?case using dlist_nth [OF 0] by (subst walk_last.simps) simp
next
  case (Suc i)
  then show ?case using dlist_nth [OF Suc.prems] dlist_nth(1) [OF Suc.prems(1), of i]
    by (subst walk_last.simps) simp
qed

definition node_at :: "addr list \<Rightarrow> nat \<Rightarrow> addr" where
  "node_at as i = (if i < length as then as ! i else 0)"

lemma walk_find_list:
  "dlist nx pv as \<Longrightarrow> i \<le> length as \<Longrightarrow>
   walk_find nx P (node_at as i) = Some (case find P (drop i as) of None \<Rightarrow> 0 | Some a \<Rightarrow> a)"
proof (induction "length as - i" arbitrary: i)
  case 0
  then show ?case by (simp add: node_at_def walk_find.simps)
next
  case (Suc k)
  then have i: "i < length as" by simp
  have "nx (as ! i) = node_at as (Suc i)" using dlist_nth(2) [OF Suc.prems(1) i] by (simp add: node_at_def)
  moreover have "walk_find nx P (node_at as (Suc i)) = Some (case find P (drop (Suc i) as) of None \<Rightarrow> 0 | Some a \<Rightarrow> a)"
    using Suc i by auto
  moreover have "drop i as = as ! i # drop (Suc i) as" using i by (simp add: Cons_nth_drop_Suc)
  ultimately show ?case using dlist_nth(1) [OF Suc.prems(1) i] i
    by (subst walk_find.simps) (simp add: node_at_def)
qed

lemma walk_name_list:
  "dlist nx pv as \<Longrightarrow> i < length as \<Longrightarrow>
   walk_name nx P (as ! i) = Some (case find P (drop i as) of None \<Rightarrow> (last as, False) | Some a \<Rightarrow> (a, True))"
proof (induction "length as - i" arbitrary: i)
  case 0
  then show ?case by simp
next
  case (Suc k)
  have d: "drop i as = as ! i # drop (Suc i) as" using Suc.prems by (simp add: Cons_nth_drop_Suc)
  show ?case
  proof (cases "Suc i < length as")
    case True
    then have "walk_name nx P (as ! Suc i) = Some (case find P (drop (Suc i) as) of None \<Rightarrow> (last as, False) | Some a \<Rightarrow> (a, True))"
      using Suc by auto
    then show ?thesis using dlist_nth [OF Suc.prems] dlist_nth(1) [OF Suc.prems(1) True] True d
      by (subst walk_name.simps) simp
  next
    case False
    then have "i = length as - 1" using Suc.prems by simp
    moreover have "as \<noteq> []" using Suc.prems by auto
    ultimately have "last as = as ! i" by (simp add: last_conv_nth)
    then show ?thesis using dlist_nth [OF Suc.prems] False d by (subst walk_name.simps) simp
  qed
qed

lemma ring_step_list:
  assumes "dlist nx pv as" and "i < length as"
  shows "ring_step nx pv d (as ! i) = Some (as ! ((if d < 0 then i + length as - 1 else i + 1) mod length as))"
proof (cases "d < 0")
  case True
  have "(i + length as - 1) mod length as = (if i = 0 then length as - 1 else i - 1)"
  proof (cases i)
    case (Suc k)
    have "i + length as - 1 = k + length as" using Suc by simp
    then show ?thesis using assms(2) Suc by (simp only: mod_add_self2) simp
  qed (use assms(2) in simp)
  then show ?thesis
    using True dlist_nth(3) [OF assms] dlist_nth(1) [OF assms(1), of "i - 1"] walk_last_next [OF assms] assms(2)
    by (auto simp: ring_step_def)
next
  case False
  have "(i + 1) mod length as = (if Suc i < length as then Suc i else 0)"
    using assms(2) by (cases "Suc i = length as") auto
  then show ?thesis
    using False dlist_nth(2) [OF assms] dlist_nth(1) [OF assms(1), of "Suc i"] walk_last_prev [OF assms] assms(2)
    by (auto simp: ring_step_def)
qed

subsection \<open>Moving around a ring\<close>

fun moves :: "(int \<Rightarrow> 's \<Rightarrow> 's option) \<Rightarrow> int list \<Rightarrow> 's \<Rightarrow> 's option" where
  "moves mv [] s = Some s"
| "moves mv (d # ds) s = Option.bind (mv d s) (moves mv ds)"

definition net :: "int list \<Rightarrow> int" where
  "net ds = sum_list (map (\<lambda>d. if d < 0 then - 1 else 1) ds)"

text \<open>
  The contract of a selection that moves around a ring of \<open>n\<close> items: the moves succeed, and
  they take the selected index one to the left or to the right modulo \<open>n\<close>.
\<close>

locale selection_ring =
  fixes ok :: "nat \<Rightarrow> nat \<Rightarrow> 's \<Rightarrow> bool" and move :: "int \<Rightarrow> 's \<Rightarrow> 's option"
  assumes index: "ok n i s \<Longrightarrow> i < n"
    and forward: "ok n i s \<Longrightarrow> \<not> d < 0 \<Longrightarrow> \<exists>s'. move d s = Some s' \<and> ok n ((i + 1) mod n) s'"
    and backward: "ok n i s \<Longrightarrow> d < 0 \<Longrightarrow> \<exists>s'. move d s = Some s' \<and> ok n ((i + n - 1) mod n) s'"
begin

lemma one_move:
  assumes "ok n i s"
  shows "\<exists>s'. move d s = Some s' \<and> ok n (nat ((int i + (if d < 0 then - 1 else 1)) mod int n)) s'"
proof (cases "d < 0")
  case True
  have "int i + - 1 = int (i + n - 1) - int n"
    using index [OF assms] by (simp add: of_nat_diff)
  then have "int ((i + n - 1) mod n) = (int i + - 1) mod int n"
    by (simp only: minus_mod_self2 zmod_int)
  then have "nat ((int i + - 1) mod int n) = (i + n - 1) mod n" by (metis nat_int)
  then show ?thesis using backward [OF assms True] True by simp
next
  case False
  have "nat ((int i + 1) mod int n) = (i + 1) mod n"
    by (metis nat_int of_nat_1 of_nat_add zmod_int)
  then show ?thesis using forward [OF assms False] False by simp
qed

lemma many_moves:
  "ok n i s \<Longrightarrow> \<exists>s'. moves move ds s = Some s' \<and> ok n (nat ((int i + net ds) mod int n)) s'"
proof (induction ds arbitrary: i s)
  case Nil
  then show ?case using index [OF Nil] by (auto simp: net_def)
next
  case (Cons d ds)
  let ?d = "if d < 0 then - 1 else 1 :: int"
  obtain s1 where s1: "move d s = Some s1" "ok n (nat ((int i + ?d) mod int n)) s1"
    using one_move [OF Cons.prems] by blast
  have n: "0 < n" using index [OF Cons.prems] by simp
  have "int (nat ((int i + ?d) mod int n)) = (int i + ?d) mod int n"
    using n by simp
  then have "(int (nat ((int i + ?d) mod int n)) + net ds) mod int n = (int i + net (d # ds)) mod int n"
    by (simp add: net_def mod_add_left_eq add.assoc)
  then show ?case using Cons.IH [OF s1(2)] s1(1) by auto
qed

lemma round_trip:
  assumes "ok n i s" and "net ds mod int n = 0"
  shows "\<exists>s'. moves move ds s = Some s' \<and> ok n i s'"
proof -
  have "(int i + net ds) mod int n = int i"
    using assms(2) index [OF assms(1)] by (metis add.right_neutral mod_add_right_eq mod_pos_pos_trivial of_nat_0_le_iff of_nat_less_iff)
  then show ?thesis using many_moves [OF assms(1), of ds] by simp
qed

end


subsection \<open>The two rings of the menu\<close>

text \<open>The menus are the list \<open>as\<close>, and exactly the \<open>i\<close>-th is selected; likewise the entries of a
  menu.  The semaphore is granted.\<close>

definition granted :: "answers \<Rightarrow> bool" where
  "granted orc \<longleftrightarrow> (\<forall>es. orc (es @ [Sem (Take_semaphore Menu_sem 100)]) = 0)"

definition menus_ring :: "addr list \<Rightarrow> nat \<Rightarrow> 'a menu_state_scheme \<Rightarrow> bool" where
  "menus_ring as i s \<longleftrightarrow> i < length as \<and> menus s = as ! 0 \<and> dlist (mnext s) (mprev s) as
     \<and> (\<forall>j < length as. mn_selected (menu_heap s (as ! j)) = (if j = i then 1 else 0))"

definition entries_ring :: "addr \<Rightarrow> addr list \<Rightarrow> nat \<Rightarrow> 'a menu_state_scheme \<Rightarrow> bool" where
  "entries_ring m as i s \<longleftrightarrow> i < length as \<and> m \<noteq> 0 \<and> mn_children (menu_heap s m) = as ! 0
     \<and> dlist (enext s) (eprev s) as
     \<and> (\<forall>j < length as. me_selected (entry_heap s (as ! j)) = (if j = i then 1 else 0))"

lemma find_selected:
  assumes "i < length as" and "\<forall>j < length as. P (as ! j) = (j = i)"
  shows "find P as = Some (as ! i)"
proof -
  have "find P as = Some (as ! i)" if "i < length as" "P (as ! i)" "\<forall>j < i. \<not> P (as ! j)" for i
    using that by (auto simp: find_Some_iff)
  then show ?thesis using assms by auto
qed

lemma find_selected_menu:
  assumes "menus_ring as i s"
  shows "walk_find (mnext s) (\<lambda>m. mn_selected (menu_heap s m) \<noteq> 0) (menus s) = Some (as ! i)"
proof -
  have "find (\<lambda>m. mn_selected (menu_heap s m) \<noteq> 0) as = Some (as ! i)"
    using assms by (intro find_selected) (auto simp: menus_ring_def)
  moreover have "menus s = node_at as 0" using assms by (auto simp: menus_ring_def node_at_def)
  ultimately show ?thesis
    using walk_find_list [of "mnext s" "mprev s" as 0] assms by (simp add: menus_ring_def)
qed

lemma find_selected_entry:
  assumes "entries_ring m as i s"
  shows "walk_find (enext s) (\<lambda>e. me_selected (entry_heap s e) \<noteq> 0) (mn_children (menu_heap s m)) = Some (as ! i)"
proof -
  have "find (\<lambda>e. me_selected (entry_heap s e) \<noteq> 0) as = Some (as ! i)"
    using assms by (intro find_selected) (auto simp: entries_ring_def)
  moreover have "mn_children (menu_heap s m) = node_at as 0"
    using assms by (auto simp: entries_ring_def node_at_def)
  ultimately show ?thesis
    using walk_find_list [of "enext s" "eprev s" as 0] assms by (simp add: entries_ring_def)
qed

lemma heap_emit [simp]:
  "menu_heap (emit e s) = menu_heap s" "entry_heap (emit e s) = entry_heap s" "menus (emit e s) = menus s"
  "mnext (emit e s) = mnext s" "mprev (emit e s) = mprev s" "enext (emit e s) = enext s" "eprev (emit e s) = eprev s"
  by (auto simp: emit_def mnext_def mprev_def enext_def eprev_def fun_eq_iff)

lemma heap_select [simp]:
  "mnext (set_menu a (\<lambda>n. n\<lparr>mn_selected := v\<rparr>) s) = mnext s"
  "mprev (set_menu a (\<lambda>n. n\<lparr>mn_selected := v\<rparr>) s) = mprev s"
  "enext (set_entry a (\<lambda>n. n\<lparr>me_selected := v\<rparr>) s) = enext s"
  "eprev (set_entry a (\<lambda>n. n\<lparr>me_selected := v\<rparr>) s) = eprev s"
  by (auto simp: set_menu_def set_entry_def mnext_def mprev_def enext_def eprev_def fun_eq_iff)

lemma reselect_menu:
  assumes "menus_ring as i s" and "k < length as"
  shows "menus_ring as k (set_menu (as ! k) (\<lambda>n. n\<lparr>mn_selected := 1\<rparr>) (set_menu (as ! i) (\<lambda>n. n\<lparr>mn_selected := 0\<rparr>) s))"
  using assms by (auto simp: menus_ring_def set_menu_def dlist_def nth_eq_iff_index_eq mnext_def mprev_def)

lemma reselect_entry:
  assumes "entries_ring m as i s" and "k < length as"
  shows "entries_ring m as k (set_entry (as ! k) (\<lambda>n. n\<lparr>me_selected := 1\<rparr>) (set_entry (as ! i) (\<lambda>n. n\<lparr>me_selected := 0\<rparr>) s))"
  using assms by (auto simp: entries_ring_def set_entry_def dlist_def nth_eq_iff_index_eq enext_def eprev_def)

lemma ring_emit [simp]:
  "menus_ring as i (emit e s) = menus_ring as i s" "entries_ring m as i (emit e s) = entries_ring m as i s"
  "menus_ring as i (s\<lparr>menu_damage := v\<rparr>) = menus_ring as i s"
  by (simp_all add: menus_ring_def entries_ring_def) (simp add: mnext_def [abs_def] mprev_def [abs_def])

definition ring_target :: "int \<Rightarrow> nat \<Rightarrow> nat \<Rightarrow> nat" where
  "ring_target d n i = (if d < 0 then i + n - 1 else i + 1) mod n"

lemma ring_target_less: "i < n \<Longrightarrow> ring_target d n i < n"
  unfolding ring_target_def by (intro mod_less_divisor) auto

text \<open>What the moves do on well-formed lists: they take the mark from one node and give it to its
  neighbour.\<close>

lemma menu_move_run:
  assumes "menus_ring as i s" and "granted orc"
  shows "menu_move orc (as ! i) d s = Some (emit (Sem (Give_semaphore Menu_sem))
    (set_menu (as ! ring_target d (length as) i) (\<lambda>n. n\<lparr>mn_selected := 1\<rparr>)
      (set_menu (as ! i) (\<lambda>n. n\<lparr>mn_selected := 0\<rparr>)
        (emit (Sem (Take_semaphore Menu_sem 100)) (s\<lparr>menu_damage := 1\<rparr>)))))"
proof -
  let ?s = "set_menu (as ! i) (\<lambda>n. n\<lparr>mn_selected := 0\<rparr>) (emit (Sem (Take_semaphore Menu_sem 100)) (s\<lparr>menu_damage := 1\<rparr>))"
  have i: "i < length as" and dl: "dlist (mnext s) (mprev s) as" using assms(1) by (auto simp: menus_ring_def)
  have nx: "mnext ?s = mnext s" "mprev ?s = mprev s" by (simp_all add: mnext_def mprev_def fun_eq_iff)
  have "ring_step (mnext ?s) (mprev ?s) d (as ! i) = Some (as ! ring_target d (length as) i)"
    unfolding nx ring_target_def by (rule ring_step_list [OF dl i])
  then show ?thesis
    using assms(2) dlist_nth(1) [OF dl i] by (simp add: menu_move_def ask_def granted_def)
qed

lemma menu_move_ring:
  assumes "menus_ring as i s" and "granted orc"
  shows "\<exists>s'. menu_move orc (as ! i) d s = Some s' \<and> menus_ring as (ring_target d (length as) i) s'"
proof -
  have k: "ring_target d (length as) i < length as" using assms(1) by (auto simp: menus_ring_def intro: ring_target_less)
  have "menus_ring as i (emit (Sem (Take_semaphore Menu_sem 100)) (s\<lparr>menu_damage := 1\<rparr>))"
    using assms(1) by simp
  from reselect_menu [OF this k] show ?thesis unfolding menu_move_run [OF assms] by simp
qed

lemma menu_entry_move_run:
  assumes "entries_ring m as i s" and "granted orc"
  shows "menu_entry_move orc m d s = Some (emit (Sem (Give_semaphore Menu_sem))
    (set_entry (as ! ring_target d (length as) i) (\<lambda>n. n\<lparr>me_selected := 1\<rparr>)
      (set_entry (as ! i) (\<lambda>n. n\<lparr>me_selected := 0\<rparr>) (emit (Sem (Take_semaphore Menu_sem 100)) s))))"
proof -
  have i: "i < length as" and dl: "dlist (enext s) (eprev s) as" using assms(1) by (auto simp: entries_ring_def)
  have "ring_step (enext s) (eprev s) d (as ! i) = Some (as ! ring_target d (length as) i)"
    unfolding ring_target_def by (rule ring_step_list [OF dl i])
  then show ?thesis
    using assms dlist_nth(1) [OF dl i] find_selected_entry [OF assms(1)]
    by (simp add: menu_entry_move_def ask_def granted_def entries_ring_def)
qed

lemma menu_entry_move_ring:
  assumes "entries_ring m as i s" and "granted orc"
  shows "\<exists>s'. menu_entry_move orc m d s = Some s' \<and> entries_ring m as (ring_target d (length as) i) s'"
proof -
  have k: "ring_target d (length as) i < length as" using assms(1) by (auto simp: entries_ring_def intro: ring_target_less)
  have "entries_ring m as i (emit (Sem (Take_semaphore Menu_sem 100)) s)" using assms(1) by simp
  from reselect_entry [OF this k] show ?thesis unfolding menu_entry_move_run [OF assms] by simp
qed

text \<open>What the handler does for a left or right key: find the selected menu, move from it.\<close>

definition move_selected_menu :: "answers \<Rightarrow> int \<Rightarrow> 'a menu_state_scheme \<Rightarrow> 'a menu_state_scheme option" where
  "move_selected_menu orc d s =
     Option.bind (walk_find (mnext s) (\<lambda>m. mn_selected (menu_heap s m) \<noteq> 0) (menus s)) (\<lambda>m. menu_move orc m d s)"

interpretation menu_ring: selection_ring
  "\<lambda>n i s. n = length as \<and> menus_ring as i s \<and> granted orc" "move_selected_menu orc" for as orc
proof unfold_locales
  fix n i s d assume as: "n = length as \<and> menus_ring as i s \<and> granted orc"
  then show "i < n" by (auto simp: menus_ring_def)
  have m: "menus_ring as i s" "granted orc" "n = length as" using as by auto
  note m' = menu_move_ring [OF m(1,2), of d, unfolded ring_target_def] find_selected_menu [OF m(1)]
  show "\<exists>s'. move_selected_menu orc d s = Some s'
      \<and> n = length as \<and> menus_ring as ((i + 1) mod n) s' \<and> granted orc" if "\<not> d < 0"
    using m m' that by (auto simp: move_selected_menu_def)
  show "\<exists>s'. move_selected_menu orc d s = Some s'
      \<and> n = length as \<and> menus_ring as ((i + n - 1) mod n) s' \<and> granted orc" if "d < 0"
    using m m' that by (auto simp: move_selected_menu_def)
qed

interpretation entry_ring: selection_ring
  "\<lambda>n i s. n = length as \<and> entries_ring m as i s \<and> granted orc" "menu_entry_move orc m" for as orc m
proof unfold_locales
  fix n i s d assume as: "n = length as \<and> entries_ring m as i s \<and> granted orc"
  then show "i < n" by (auto simp: entries_ring_def)
  have e: "entries_ring m as i s" "granted orc" "n = length as" using as by auto
  note e' = menu_entry_move_ring [OF e(1,2), of d, unfolded ring_target_def]
  show "\<exists>s'. menu_entry_move orc m d s = Some s'
      \<and> n = length as \<and> entries_ring m as ((i + 1) mod n) s' \<and> granted orc" if "\<not> d < 0"
    using e e' that by auto
  show "\<exists>s'. menu_entry_move orc m d s = Some s'
      \<and> n = length as \<and> entries_ring m as ((i + n - 1) mod n) s' \<and> granted orc" if "d < 0"
    using e e' that by auto
qed

subsection \<open>Building the lists\<close>

definition menu_list :: "addr list \<Rightarrow> 'a menu_state_scheme \<Rightarrow> bool" where
  "menu_list as s \<longleftrightarrow> menus s = node_at as 0 \<and> dlist (mnext s) (mprev s) as"

lemma dlist_snoc:
  assumes "dlist nx pv as" and "new \<noteq> 0" and "new \<notin> set as"
    and "\<forall>a \<in> set as. nx' a = (if a = last as then new else nx a) \<and> pv' a = pv a"
    and "nx' new = 0" and "pv' new = (if as = [] then 0 else last as)"
  shows "dlist nx' pv' (as @ [new])"
proof -
  have l: "as ! i = last as \<longleftrightarrow> i = length as - 1" if "i < length as" for i
  proof -
    have "as \<noteq> []" "distinct as" using assms(1) that by (auto simp: dlist_def)
    then show ?thesis using that by (simp add: last_conv_nth nth_eq_iff_index_eq)
  qed
  show ?thesis
    unfolding dlist_def
  proof (intro conjI allI impI)
    show "distinct (as @ [new])" using assms(1,3) by (auto simp: dlist_def)
  next
    fix i assume i: "i < length (as @ [new])"
    show "(as @ [new]) ! i \<noteq> 0"
      using assms(1,2) i by (auto simp: dlist_def nth_append)
    show "nx' ((as @ [new]) ! i) = (if Suc i < length (as @ [new]) then (as @ [new]) ! Suc i else 0)"
      using assms(1,4,5) i l by (auto simp: dlist_def nth_append)
    show "pv' ((as @ [new]) ! i) = (if i = 0 then 0 else (as @ [new]) ! (i - 1))"
    proof (cases "i < length as")
      case True
      then show ?thesis using assms(1,4) by (auto simp: dlist_def nth_append)
    next
      case False
      then show ?thesis using assms(6) i by (auto simp: nth_append last_conv_nth less_Suc_eq)
    qed
  qed
qed

lemma menu_list_mono:
  "menu_list as s \<Longrightarrow> menu_heap s' = menu_heap s \<Longrightarrow> menus s' = menus s \<Longrightarrow> menu_list as s'"
  by (simp add: menu_list_def mnext_def [abs_def] mprev_def [abs_def])

lemma walk_menus:
  assumes "menu_list as s"
  shows "walk_name (mnext s) P (menus s) = Some (case find P as of
      None \<Rightarrow> (if as = [] then 0 else last as, False) | Some a \<Rightarrow> (a, True))"
proof (cases "as = []")
  case True
  then show ?thesis using assms by (simp add: menu_list_def node_at_def walk_name.simps)
next
  case False
  then show ?thesis using assms walk_name_list [of "mnext s" "mprev s" as 0 P]
    by (simp add: menu_list_def node_at_def)
qed

lemma menu_find_existing:
  assumes "menu_list as s" and "find (\<lambda>a. streq (mn_name (menu_heap s a)) nm) as = Some a"
  shows "menu_find_by_name orc nm s
    = Some (a, emits [Sem (Take_semaphore Menu_sem 0), Sem (Give_semaphore Menu_sem)] s)"
  using walk_menus [OF assms(1)] assms(2) by (simp add: menu_find_by_name_def)

text \<open>A menu that is not found is created behind the others.\<close>

lemma menu_find_new:
  assumes ml: "menu_list as s" and nf: "find (\<lambda>a. streq (mn_name (menu_heap s a)) nm) as = None"
    and new: "new = orc (trace s @ [Sem (Take_semaphore Menu_sem 0), Sys (Malloc sizeof_menu)])"
    and fresh: "new \<noteq> 0" "new \<notin> set as"
  shows "\<exists>s'. menu_find_by_name orc nm s = Some (new, s') \<and> menu_list (as @ [new]) s'
    \<and> mn_name (menu_heap s' new) = nm \<and> mn_children (menu_heap s' new) = 0
    \<and> mn_selected (menu_heap s' new) = (if as = [] then 1 else 0)
    \<and> (\<forall>a \<in> set as. mn_name (menu_heap s' a) = mn_name (menu_heap s a)
         \<and> mn_children (menu_heap s' a) = mn_children (menu_heap s a)
         \<and> mn_selected (menu_heap s' a) = mn_selected (menu_heap s a))
    \<and> trace s' = trace s @ [Sem (Take_semaphore Menu_sem 0), Sys (Malloc sizeof_menu), Sem (Give_semaphore Menu_sem)]
    \<and> entry_heap s' = entry_heap s"
proof -
  let ?m = "if as = [] then 0 else last as"
  let ?s1 = "emit (Sys (Malloc sizeof_menu)) (emit (Sem (Take_semaphore Menu_sem 0)) s)"
  let ?s2 = "set_menu new (\<lambda>n. n\<lparr>mn_name := nm, mn_prev := ?m, mn_next := 0, mn_children := 0\<rparr>) ?s1"
  have lastn: "as \<noteq> [] \<Longrightarrow> last as \<noteq> 0 \<and> last as \<in> set as"
    using ml by (auto simp: menu_list_def dlist_def last_conv_nth)
  have ml1: "menu_list as ?s1" using ml by (rule menu_list_mono) simp_all
  show ?thesis
  proof (cases "as = []")
    case True
    let ?s3 = "set_menu new (\<lambda>n. n\<lparr>mn_selected := 1\<rparr>) (?s2\<lparr>menus := new\<rparr>)"
    have "menu_find_by_name orc nm s = Some (new, emit (Sem (Give_semaphore Menu_sem)) ?s3)"
      using walk_menus [OF ml] True nf new fresh by (simp add: menu_find_by_name_def ask_def)
    moreover have "menu_list [new] ?s3" using fresh True
      by (simp add: menu_list_def dlist_def node_at_def set_menu_def mnext_def mprev_def)
    ultimately show ?thesis using True
      by (auto simp: set_menu_def intro: menu_list_mono)
  next
    case False
    let ?s3 = "set_menu new (\<lambda>n. n\<lparr>mn_selected := 0\<rparr>) (set_menu ?m (\<lambda>n. n\<lparr>mn_next := new\<rparr>) ?s2)"
    have r: "menu_find_by_name orc nm s = Some (new, emit (Sem (Give_semaphore Menu_sem)) ?s3)"
      using walk_menus [OF ml] False nf new fresh lastn by (simp add: menu_find_by_name_def ask_def)
    have "dlist (mnext ?s3) (mprev ?s3) (as @ [new])"
      using ml1 fresh False lastn
      by (intro dlist_snoc [of "mnext ?s1" "mprev ?s1"])
        (auto simp: menu_list_def set_menu_def mnext_def mprev_def)
    then have "menu_list (as @ [new]) ?s3"
      using ml False by (auto simp: menu_list_def node_at_def set_menu_def nth_append)
    then have "menu_list (as @ [new]) (emit (Sem (Give_semaphore Menu_sem)) ?s3)"
      by (rule menu_list_mono) simp_all
    with r show ?thesis using False fresh lastn
      by (intro exI [of _ "emit (Sem (Give_semaphore Menu_sem)) ?s3"]) (auto simp: set_menu_def)
  qed
qed


text \<open>Appending entries.\<close>

definition entry_addr :: "addr \<Rightarrow> nat \<Rightarrow> addr" where
  "entry_addr new k = new + of_nat k * sizeof_menu_entry"

lemma append_entries_frame:
  "menu_heap (append_entries k new h s) = menu_heap s" "menus (append_entries k new h s) = menus s"
  "trace (append_entries k new h s) = trace s"
  by (induction k arbitrary: new h s) (simp_all add: Let_def set_entry_def)

text \<open>One entry behind the last.\<close>

lemma append_one:
  fixes s :: "'a menu_state_scheme"
  defines "app \<equiv> \<lambda>as new s. set_entry (last as) (\<lambda>e. e\<lparr>me_next := new\<rparr>)
    (set_entry new (\<lambda>e. e\<lparr>me_selected := 0, me_next := enext s (last as), me_prev := last as\<rparr>) s)"
  assumes "dlist (enext s) (eprev s) as" and "as \<noteq> []" and "new \<noteq> 0" and "new \<notin> set as"
  shows "dlist (enext (app as new s)) (eprev (app as new s)) (as @ [new])"
    and "a \<in> set as \<Longrightarrow> me_selected (entry_heap (app as new s) a) = me_selected (entry_heap s a)"
    and "me_selected (entry_heap (app as new s) new) = 0"
proof -
  have las: "last as \<in> set as" "last as \<noteq> new" using assms by auto
  have "enext s (last as) = 0"
    using dlist_nth(2) [OF assms(2), of "length as - 1"] assms(3) by (simp add: last_conv_nth)
  then show "dlist (enext (app as new s)) (eprev (app as new s)) (as @ [new])"
    using assms(3-5) las unfolding app_def
    by (intro dlist_snoc [OF assms(2)]) (auto simp: set_entry_def enext_def eprev_def)
  show "a \<in> set as \<Longrightarrow> me_selected (entry_heap (app as new s) a) = me_selected (entry_heap s a)"
    "me_selected (entry_heap (app as new s) new) = 0"
    using las assms(5) unfolding app_def by (auto simp: set_entry_def)
qed

lemma entry_addr_shift: "entry_addr (new + sizeof_menu_entry) j = entry_addr new (Suc j)"
  by (simp add: entry_addr_def algebra_simps)

lemma append_entries_list:
  assumes "dlist (enext s) (eprev s) as" and "as \<noteq> []"
    and "\<forall>j < k. entry_addr new j \<noteq> 0" and "distinct (as @ map (entry_addr new) [0..<k])"
  shows "dlist (enext (append_entries k new (last as) s)) (eprev (append_entries k new (last as) s))
      (as @ map (entry_addr new) [0..<k])
    \<and> (\<forall>a \<in> set as. me_selected (entry_heap (append_entries k new (last as) s) a) = me_selected (entry_heap s a))
    \<and> (\<forall>j < k. me_selected (entry_heap (append_entries k new (last as) s) (entry_addr new j)) = 0)"
  using assms
proof (induction k arbitrary: new s as)
  case 0
  then show ?case by simp
next
  case (Suc k)
  let ?s = "set_entry (last as) (\<lambda>e. e\<lparr>me_next := new\<rparr>)
    (set_entry new (\<lambda>e. e\<lparr>me_selected := 0, me_next := enext s (last as), me_prev := last as\<rparr>) s)"
  have sh: "map (entry_addr new) [0..<Suc k] = new # map (entry_addr (new + sizeof_menu_entry)) [0..<k]"
    unfolding map_upt_Suc entry_addr_shift by (simp add: entry_addr_def)
  have n0: "new \<noteq> 0" using Suc.prems(3) by (auto simp: entry_addr_def dest: spec [of _ 0])
  have nin: "new \<notin> set as" using Suc.prems(4) unfolding sh by auto
  note one = append_one [OF Suc.prems(1,2) n0 nin]
  have nz: "\<forall>j < k. entry_addr (new + sizeof_menu_entry) j \<noteq> 0" using Suc.prems(3) by (simp add: entry_addr_shift)
  have "distinct ((as @ [new]) @ map (entry_addr (new + sizeof_menu_entry)) [0..<k])"
    using Suc.prems(4) unfolding sh by simp
  note ih = Suc.IH [OF one(1) _ nz this]
  have step: "append_entries (Suc k) new (last as) s = append_entries k (new + sizeof_menu_entry) new ?s"
    by (simp add: Let_def)
  have "me_selected (entry_heap (append_entries (Suc k) new (last as) s) (entry_addr new j)) = 0" if "j < Suc k" for j
    using that ih one(3) unfolding step by (cases j) (simp_all add: entry_addr_def, simp add: algebra_simps)
  moreover have "me_selected (entry_heap (append_entries (Suc k) new (last as) s) a) = me_selected (entry_heap s a)" if "a \<in> set as" for a
    using that ih one(2) [OF that] unfolding step by simp
  ultimately show ?case using ih unfolding sh step by simp
qed


lemma entries_ring_append:
  assumes er: "entries_ring m as i s"
    and fresh: "\<forall>j < k. entry_addr new j \<noteq> 0" "distinct (as @ map (entry_addr new) [0..<k])"
  shows "entries_ring m (as @ map (entry_addr new) [0..<k]) i (append_entries k new (last as) s)"
proof -
  have as: "as \<noteq> []" "i < length as" using er by (auto simp: entries_ring_def)
  have dl: "dlist (enext s) (eprev s) as" using er by (simp add: entries_ring_def)
  note ap = append_entries_list [OF dl as(1) fresh]
  have "me_selected (entry_heap (append_entries k new (last as) s) ((as @ map (entry_addr new) [0..<k]) ! j))
      = (if j = i then 1 else 0)" if j: "j < length (as @ map (entry_addr new) [0..<k])" for j
  proof (cases "j < length as")
    case True
    then show ?thesis using ap er by (simp add: nth_append entries_ring_def)
  next
    case False
    then have "j - length as < k" using j by simp
    then show ?thesis using ap False as by (simp add: nth_append)
  qed
  then show ?thesis using er ap as
    by (auto simp: entries_ring_def append_entries_frame nth_append)
qed

lemma entries_ring_single:
  assumes "m \<noteq> 0" and "new \<noteq> 0"
  shows "entries_ring m [new] 0 (set_entry new (\<lambda>e. e\<lparr>me_next := 0, me_prev := 0, me_selected := 1\<rparr>)
     (set_menu m (\<lambda>r. r\<lparr>mn_children := new\<rparr>) s))"
  using assms by (simp add: entries_ring_def dlist_def set_entry_def set_menu_def enext_def eprev_def)

lemma append_entries_other:
  "a \<noteq> head \<Longrightarrow> \<forall>j < k. a \<noteq> entry_addr new j \<Longrightarrow> entry_heap (append_entries k new head s) a = entry_heap s a"
proof (induction k arbitrary: new head s)
  case (Suc k)
  have "a \<noteq> new" using Suc.prems(2) by (auto simp: entry_addr_def dest: spec [of _ 0])
  moreover have "\<forall>j < k. a \<noteq> entry_addr (new + sizeof_menu_entry) j"
  proof (intro allI impI)
    fix j assume "j < k"
    then have "a \<noteq> entry_addr new (Suc j)" using Suc.prems(2) by blast
    then show "a \<noteq> entry_addr (new + sizeof_menu_entry) j" by (simp add: entry_addr_def algebra_simps)
  qed
  ultimately show ?case using Suc by (simp add: Let_def set_entry_def)
qed simp

lemma entry_addr_Suc: "map (entry_addr new) [0..<Suc k] = new # map (entry_addr (new + sizeof_menu_entry)) [0..<k]"
  unfolding map_upt_Suc by (simp add: entry_addr_def algebra_simps)

lemma all_entries_Suc:
  "(\<forall>j < Suc k. P (entry_addr new j)) \<longleftrightarrow> P new \<and> (\<forall>j < k. P (entry_addr (new + sizeof_menu_entry) j))"
proof -
  have "(\<forall>j < k. P (entry_addr new j)) \<longleftrightarrow> (\<forall>a \<in> set (map (entry_addr new) [0..<k]). P a)" for new k by auto
  then show ?thesis by (simp only: entry_addr_Suc list.set ball_simps)
qed

text \<open>What attaching entries to a menu leaves alone: the other menus, and the other entries.\<close>

definition attached :: "addr \<Rightarrow> addr list \<Rightarrow> 'a menu_state_scheme \<Rightarrow> 'a menu_state_scheme \<Rightarrow> bool" where
  "attached m as s s' \<longleftrightarrow>
     menu_heap s' = (menu_heap s)(m := (menu_heap s m)\<lparr>mn_children := mn_children (menu_heap s' m)\<rparr>)
     \<and> menus s' = menus s \<and> (\<forall>a. a \<notin> set as \<longrightarrow> entry_heap s' a = entry_heap s a)
     \<and> trace s' = trace s @ [Sem (Take_semaphore Menu_sem 0), Sem (Give_semaphore Menu_sem)]"

lemma menu_attach_empty:
  assumes m0: "m \<noteq> 0" and old: "mn_children (menu_heap s m) = 0"
    and fresh: "\<forall>j < n. entry_addr new j \<noteq> 0" "distinct (map (entry_addr new) [0..<n])" and n: "0 < n"
  shows "\<exists>s'. menu_attach m new n s = Some s' \<and> entries_ring m (map (entry_addr new) [0..<n]) 0 s'
    \<and> attached m (map (entry_addr new) [0..<n]) s s'"
proof -
  let ?s = "emit (Sem (Take_semaphore Menu_sem 0)) s"
  let ?s1 = "set_entry new (\<lambda>e. e\<lparr>me_next := 0, me_prev := 0, me_selected := 1\<rparr>) (set_menu m (\<lambda>r. r\<lparr>mn_children := new\<rparr>) ?s)"
  obtain k where k: "n = Suc k" using n by (cases n) auto
  have nz: "new \<noteq> 0" "\<forall>j < k. entry_addr (new + sizeof_menu_entry) j \<noteq> 0"
    using fresh(1) unfolding k all_entries_Suc [of k "\<lambda>a. a \<noteq> 0" new] by simp_all
  have er: "entries_ring m [new] 0 ?s1" by (rule entries_ring_single [OF m0 nz(1)])
  let ?s2 = "append_entries k (new + sizeof_menu_entry) new ?s1"
  have "walk_last (enext ?s1) new = Some new"
    by (subst walk_last.simps) (simp add: set_entry_def enext_def)
  then have run: "menu_attach m new n s = Some (emit (Sem (Give_semaphore Menu_sem)) ?s2)"
    using old by (simp add: menu_attach_def k)
  have "distinct ([new] @ map (entry_addr (new + sizeof_menu_entry)) [0..<k])"
    using fresh(2) unfolding k entry_addr_Suc by simp
  note ring = entries_ring_append [OF er nz(2) this]
  have "entry_heap ?s2 a = entry_heap s a" if "a \<notin> set (map (entry_addr new) [0..<n])" for a
  proof -
    have "a \<noteq> new" "\<forall>j < k. a \<noteq> entry_addr (new + sizeof_menu_entry) j"
      using that unfolding k entry_addr_Suc by auto
    then show ?thesis by (simp add: append_entries_other set_entry_def set_menu_def)
  qed
  then have "attached m (map (entry_addr new) [0..<n]) s (emit (Sem (Give_semaphore Menu_sem)) ?s2)"
    by (simp add: attached_def append_entries_frame set_entry_def set_menu_def)
  moreover have "entries_ring m (map (entry_addr new) [0..<n]) 0 (emit (Sem (Give_semaphore Menu_sem)) ?s2)"
    using ring unfolding k entry_addr_Suc by simp
  ultimately show ?thesis using run by blast
qed

lemma menu_attach_nonempty:
  assumes old: "entries_ring m as i s"
    and fresh: "\<forall>j < n. entry_addr new j \<noteq> 0" "distinct (as @ map (entry_addr new) [0..<n])"
  shows "\<exists>s'. menu_attach m new n s = Some s' \<and> entries_ring m (as @ map (entry_addr new) [0..<n]) i s'
    \<and> attached m (as @ map (entry_addr new) [0..<n]) s s'"
proof -
  let ?s = "emit (Sem (Take_semaphore Menu_sem 0)) s" and ?es = "map (entry_addr new) [0..<n]"
  have er: "entries_ring m as i ?s" using old by simp
  have as: "as \<noteq> []" "mn_children (menu_heap ?s m) = as ! 0" "dlist (enext ?s) (eprev ?s) as"
    using er by (auto simp: entries_ring_def)
  have "as ! 0 \<noteq> 0" using as by (auto simp: dlist_def)
  moreover have "walk_last (enext ?s) (as ! 0) = Some (last as)"
    using walk_last_next [OF as(3), of 0] as(1) by (simp add: last_conv_nth)
  ultimately have run: "menu_attach m new n s = Some (emit (Sem (Give_semaphore Menu_sem)) (append_entries n new (last as) ?s))"
    using as(2) by (simp add: menu_attach_def)
  have "entry_heap (append_entries n new (last as) ?s) a = entry_heap s a" if "a \<notin> set (as @ ?es)" for a
    using that as(1) by (subst append_entries_other) auto
  then have "attached m (as @ ?es) s (emit (Sem (Give_semaphore Menu_sem)) (append_entries n new (last as) ?s))"
    by (simp add: attached_def append_entries_frame)
  then show ?thesis using run entries_ring_append [OF er fresh] by simp
qed

lemma menu_add_existing:
  assumes "menu_list ms s" and "find (\<lambda>a. streq (mn_name (menu_heap s a)) nm) ms = Some m"
  shows "m \<noteq> 0" and "menu_add orc nm new n s =
    menu_attach m new n (emits [Sem (Take_semaphore Menu_sem 0), Sem (Give_semaphore Menu_sem)] s)"
proof -
  show "m \<noteq> 0" using assms by (auto simp: find_Some_iff menu_list_def dlist_def)
  then show "menu_add orc nm new n s =
      menu_attach m new n (emits [Sem (Take_semaphore Menu_sem 0), Sem (Give_semaphore Menu_sem)] s)"
    by (simp add: menu_add_def menu_find_existing [OF assms])
qed

lemma menu_add_empty:
  assumes ml: "menu_list ms s" and f: "find (\<lambda>a. streq (mn_name (menu_heap s a)) nm) ms = Some m"
    and old: "mn_children (menu_heap s m) = 0"
    and fresh: "\<forall>j < n. entry_addr new j \<noteq> 0" "distinct (map (entry_addr new) [0..<n])" and n: "0 < n"
  shows "\<exists>s'. menu_add orc nm new n s = Some s' \<and> entries_ring m (map (entry_addr new) [0..<n]) 0 s'"
proof -
  let ?s = "emits [Sem (Take_semaphore Menu_sem 0), Sem (Give_semaphore Menu_sem)] s"
  have "mn_children (menu_heap ?s m) = 0" using old by simp
  from menu_attach_empty [OF menu_add_existing(1) [OF ml f] this fresh n] show ?thesis
    using menu_add_existing(2) [OF ml f] by auto
qed

lemma menu_add_nonempty:
  assumes ml: "menu_list ms s" and f: "find (\<lambda>a. streq (mn_name (menu_heap s a)) nm) ms = Some m"
    and old: "entries_ring m as i s"
    and fresh: "\<forall>j < n. entry_addr new j \<noteq> 0" "distinct (as @ map (entry_addr new) [0..<n])"
  shows "\<exists>s'. menu_add orc nm new n s = Some s' \<and> entries_ring m (as @ map (entry_addr new) [0..<n]) i s'"
proof -
  have "entries_ring m as i (emits [Sem (Take_semaphore Menu_sem 0), Sem (Give_semaphore Menu_sem)] s)" using old by simp
  from menu_attach_nonempty [OF this fresh] show ?thesis using menu_add_existing(2) [OF ml f] by auto
qed

subsection \<open>The properties\<close>

text \<open>The left and right keys move the selection around the ring of menus: after any sequence
  of presses exactly one menu is selected, the one the net number of steps away, and the list
  itself is unchanged; every press returns.\<close>

theorem menu_keys_ring:
  assumes "menus_ring as i s" and "granted orc"
  shows "\<exists>s'. moves (move_selected_menu orc) ds s = Some s'
    \<and> menus_ring as (nat ((int i + net ds) mod int (length as))) s'"
  using menu_ring.many_moves [of "length as" as i s orc ds] assms by simp

definition two_menus :: menu_state where
  "two_menus = \<lparr>trace = [], menus = 0x100,
     menu_heap = (\<lambda>a. if a = 0x100
       then \<lparr>mn_next = 0x200, mn_prev = 0, mn_name = ''Audio'', mn_children = 0x300, mn_selected = 1\<rparr>
       else \<lparr>mn_next = 0, mn_prev = 0x100, mn_name = ''Video'', mn_children = 0, mn_selected = 0\<rparr>),
     entry_heap = (\<lambda>a. if a = 0x300
       then \<lparr>me_next = 0x318, me_prev = 0, me_selected = 1, me_priv = 1, me_select = 0, me_display = 0x1000\<rparr>
       else \<lparr>me_next = 0, me_prev = 0x300, me_selected = 0, me_priv = 2, me_select = 0x2000, me_display = 0x1000\<rparr>),
     menu_damage = 0, menu_hidden = 0, menu_timeout = 3, gui_menu_task = 0x5000, draw_event = 0,
     menu_timeout_time = 15\<rparr>"

lemma two_menus_ring: "menus_ring [0x100, 0x200] 0 two_menus"
  by (auto simp: menus_ring_def dlist_def two_menus_def mnext_def mprev_def less_Suc_eq)

lemma two_entries_ring: "entries_ring 0x100 [0x300, 0x318] 0 two_menus"
  by (auto simp: entries_ring_def dlist_def two_menus_def enext_def eprev_def less_Suc_eq)

theorem menu_keys_ring_witness:
  "\<exists>s'. moves (move_selected_menu (\<lambda>es. 0)) [1, 1, - 1, 1, 1] two_menus = Some s'
    \<and> menus_ring [0x100, 0x200] 1 s'"
  using menu_keys_ring [OF two_menus_ring, of "\<lambda>es. 0" "[1, 1, - 1, 1, 1]"]
  by (simp add: granted_def net_def)

text \<open>Up and down presses whose steps cancel out, counted modulo the number of entries, end on
  the entry they started from, with the entry list unchanged.\<close>

theorem menu_entry_keys_round_trip:
  assumes "entries_ring m as i s" and "granted orc" and "net ds mod int (length as) = 0"
  shows "\<exists>s'. moves (menu_entry_move orc m) ds s = Some s' \<and> entries_ring m as i s'"
  using entry_ring.round_trip [of "length as" as m i s orc ds] assms by simp

theorem menu_entry_keys_round_trip_witness:
  "\<exists>s'. moves (menu_entry_move (\<lambda>es. 0) 0x100) [1, 1, - 1, 1] two_menus = Some s'
    \<and> entries_ring 0x100 [0x300, 0x318] 0 s'"
  using menu_entry_keys_round_trip [OF two_entries_ring, of "\<lambda>es. 0" "[1, 1, - 1, 1]"]
  by (simp add: granted_def net_def)

text \<open>Looking a menu up creates it at most once: a second look-up of the name returns the menu
  the first one returned, and only touches the semaphore.\<close>

theorem menu_find_twice:
  assumes ml: "menu_list as s"
    and fresh: "orc (trace s @ [Sem (Take_semaphore Menu_sem 0), Sys (Malloc sizeof_menu)]) \<notin> {0} \<union> set as"
  shows "\<exists>m s'. menu_find_by_name orc nm s = Some (m, s') \<and> m \<noteq> 0
    \<and> menu_find_by_name orc' nm s'
       = Some (m, emits [Sem (Take_semaphore Menu_sem 0), Sem (Give_semaphore Menu_sem)] s')"
proof (cases "find (\<lambda>a. streq (mn_name (menu_heap s a)) nm) as")
  case (Some a)
  let ?s' = "emits [Sem (Take_semaphore Menu_sem 0), Sem (Give_semaphore Menu_sem)] s"
  have "menu_list as ?s'" using ml by (rule menu_list_mono) simp_all
  then have "menu_find_by_name orc' nm ?s'
      = Some (a, emits [Sem (Take_semaphore Menu_sem 0), Sem (Give_semaphore Menu_sem)] ?s')"
    using Some by (intro menu_find_existing) simp_all
  moreover have "a \<noteq> 0" using Some ml by (auto simp: find_Some_iff menu_list_def dlist_def)
  ultimately show ?thesis using menu_find_existing [OF ml Some] by blast
next
  case None
  define new where "new = orc (trace s @ [Sem (Take_semaphore Menu_sem 0), Sys (Malloc sizeof_menu)])"
  have f: "new \<noteq> 0" "new \<notin> set as" using fresh by (auto simp: new_def)
  obtain s' where s': "menu_find_by_name orc nm s = Some (new, s')" "menu_list (as @ [new]) s'"
    "mn_name (menu_heap s' new) = nm" "\<forall>a \<in> set as. mn_name (menu_heap s' a) = mn_name (menu_heap s a)"
    using menu_find_new [of as s nm new orc] ml None new_def f by auto
  have "find (\<lambda>a. streq (mn_name (menu_heap s' a)) nm) (as @ [new]) = Some new"
    unfolding find_Some_iff using None s'(3,4)
    by (intro exI [of _ "length as"]) (auto simp: find_None_iff nth_append streq_cstr)
  from menu_find_existing [OF s'(2) this] show ?thesis using s'(1) f by blast
qed


lemma two_menus_list: "menu_list [0x100, 0x200] two_menus"
  using two_menus_ring by (simp add: menu_list_def menus_ring_def node_at_def)

theorem menu_find_twice_witness:
  "\<exists>m s'. menu_find_by_name (\<lambda>es. 0x400) ''Focus'' two_menus = Some (m, s') \<and> m \<noteq> 0
    \<and> menu_find_by_name (\<lambda>es. 0x800) ''Focus'' s'
       = Some (m, emits [Sem (Take_semaphore Menu_sem 0), Sem (Give_semaphore Menu_sem)] s')"
  by (rule menu_find_twice [OF two_menus_list]) simp

text \<open>\<open>menu_add\<close> to a menu that exists appends the new entries to its list and keeps the entry
  that was selected; in a menu without entries the first new one is selected.\<close>

theorem menu_add_appends:
  assumes ml: "menu_list ms s" and f: "find (\<lambda>a. streq (mn_name (menu_heap s a)) nm) ms = Some m"
    and old: "if as = [] then mn_children (menu_heap s m) = 0 else entries_ring m as i s"
    and fresh: "\<forall>j < n. entry_addr new j \<noteq> 0" "distinct (as @ map (entry_addr new) [0..<n])" and n: "0 < n"
  shows "\<exists>s'. menu_add orc nm new n s = Some s'
    \<and> entries_ring m (as @ map (entry_addr new) [0..<n]) (if as = [] then 0 else i) s'"
proof (cases "as = []")
  case True
  then show ?thesis using menu_add_empty [OF ml f _ fresh(1) _ n] old fresh(2) by simp
next
  case False
  then show ?thesis using menu_add_nonempty [OF ml f _ fresh] old by simp
qed

theorem menu_add_appends_witness:
  "\<exists>s'. menu_add (\<lambda>es. 0) ''Audio'' 0x600 2 two_menus = Some s'
    \<and> entries_ring 0x100 [0x300, 0x318, 0x600, 0x618] 0 s'"
proof -
  have m: "map (entry_addr 0x600) [0..<2] = [0x600, 0x618]"
    by (simp add: upt_rec entry_addr_def sizeof_menu_entry_def)
  have z: "\<forall>j < 2. entry_addr 0x600 j \<noteq> 0"
    by (auto simp: entry_addr_def sizeof_menu_entry_def dest!: less_2_cases)
  have f: "find (\<lambda>a. streq (mn_name (menu_heap two_menus a)) ''Audio'') [0x100, 0x200] = Some 0x100"
    by (simp add: two_menus_def streq_cstr)
  have old: "if [0x300, 0x318] = ([] :: addr list) then mn_children (menu_heap two_menus 0x100) = 0
      else entries_ring 0x100 [0x300, 0x318] 0 two_menus"
    using two_entries_ring by simp
  show ?thesis
    using menu_add_appends [OF two_menus_list f old z, of "\<lambda>es. 0"] by (simp only: m) simp
qed



end
