(* ===== verification/Property.thy ===== *)
theory Property
  imports Bmp
begin

text \<open>
  \<open>property.h\<close> and \<open>property.c\<close>: the property numbers the sources act on, the registration
  of the handlers, and the contract every handler has with the camera: it acknowledges the
  property it was given, exactly once and as its last act.
\<close>

definition PROP_LENS_NAME :: u32 where "PROP_LENS_NAME = 0x80030021"
definition PROP_HDMI_CHANGE :: u32 where "PROP_HDMI_CHANGE = 0x8003002c"
definition PROP_HDMI_CHANGE_CODE :: u32 where "PROP_HDMI_CHANGE_CODE = 0x8003002e"
definition PROP_MVR_REC_START :: u32 where "PROP_MVR_REC_START = 0x80030033"
definition PROP_GUI_STATE :: u32 where "PROP_GUI_STATE = 0x80020000"
definition PROP_LV_ACTION :: u32 where "PROP_LV_ACTION = 0x80050022"
definition PROP_LV_LENS :: u32 where "PROP_LV_LENS = 0x80050000"
definition PROP_LV_FOCUS :: u32 where "PROP_LV_FOCUS = 0x80050001"
definition PROP_LV_FOCUS_DONE :: u32 where "PROP_LV_FOCUS_DONE = 0x80050002"
definition PROP_LVCAF_STATE :: u32 where "PROP_LVCAF_STATE = 0x8005001B"
definition PROP_SHUTTER :: u32 where "PROP_SHUTTER = 0x80000005"
definition PROP_APERTURE :: u32 where "PROP_APERTURE = 0x80000006"
definition PROP_ISO :: u32 where "PROP_ISO = 0x80000007"
definition PROP_AE :: u32 where "PROP_AE = 0x80000008"
definition PROP_MIC_INSERTED :: u32 where "PROP_MIC_INSERTED = 0x8003002b"
definition PROP_LAST_JOB_STATE :: u32 where "PROP_LAST_JOB_STATE = 0x80030012"

lemmas prop_defs = PROP_LENS_NAME_def PROP_HDMI_CHANGE_def PROP_HDMI_CHANGE_CODE_def
  PROP_MVR_REC_START_def PROP_GUI_STATE_def PROP_LV_ACTION_def PROP_LV_LENS_def PROP_LV_FOCUS_def
  PROP_LV_FOCUS_DONE_def PROP_LVCAF_STATE_def PROP_SHUTTER_def PROP_APERTURE_def PROP_ISO_def
  PROP_AE_def PROP_MIC_INSERTED_def PROP_LAST_JOB_STATE_def

subsection \<open>Registration\<close>

record prop_handler =
  ph_handler :: addr
  ph_property :: u32
  ph_token :: u32
  ph_token_handler :: "u8 list"

definition prop_handler_init :: "u8 list \<Rightarrow> prop_handler \<Rightarrow> 'a world_scheme \<Rightarrow> prop_handler \<times> 'a world_scheme" where
  "prop_handler_init generic h w =
     (h\<lparr>ph_token_handler := take (length (ph_token_handler h)) generic\<rparr>,
      emit (Prop (Prop_register_slave [ph_property h] (ph_handler h))) w)"

fun prop_init :: "u8 list \<Rightarrow> prop_handler list \<Rightarrow> 'a world_scheme \<Rightarrow> prop_handler list \<times> 'a world_scheme" where
  "prop_init generic [] w = ([], w)"
| "prop_init generic (h # hs) w =
     (let (h, w) = prop_handler_init generic h w;
          (hs, w) = prop_init generic hs w
      in (h # hs, w))"

text \<open>\<open>prop_request_change\<close> with the bytes of an unsigned integer.\<close>

definition prop_request_u32 :: "u32 \<Rightarrow> u32 \<Rightarrow> 'a world_scheme \<Rightarrow> 'a world_scheme" where
  "prop_request_u32 property v w = emit (Prop (Prop_request_change property (bytes_of v))) w"

subsection \<open>Property buffers\<close>

definition buf8 :: "u8 list \<Rightarrow> nat \<Rightarrow> u8" where
  "buf8 buf k = (if k < length buf then buf ! k else 0)"

definition buf16 :: "u8 list \<Rightarrow> nat \<Rightarrow> u16" where
  "buf16 buf k = le16 (buf8 buf) k"

definition buf32 :: "u8 list \<Rightarrow> u32" where
  "buf32 buf = le32_at (buf8 buf) 0"

lemma buf32_bytes_of: "buf32 (bytes_of v) = v"
proof -
  have "buf32 (bytes_of v) = ucast (byte_of v 0) OR push_bit 8 (ucast (byte_of v 1))
      OR push_bit 16 (ucast (byte_of v 2)) OR push_bit 24 (ucast (byte_of v 3))"
    by (simp add: buf32_def le32_at_def buf8_def bytes_of_def)
  also have "\<dots> = v"
    unfolding byte_of_def
  proof (rule bit_word_eqI)
    fix n assume "n < LENGTH(32)"
    then show "bit (ucast (ucast (drop_bit (8 * 0) v) :: u8) OR push_bit 8 (ucast (ucast (drop_bit (8 * 1) v) :: u8))
        OR push_bit 16 (ucast (ucast (drop_bit (8 * 2) v) :: u8))
        OR push_bit 24 (ucast (ucast (drop_bit (8 * 3) v) :: u8)) :: u32) n = bit v n"
      by (cases "24 \<le> n"; cases "16 \<le> n"; auto simp: bit_simps)
  qed
  finally show ?thesis .
qed

subsection \<open>The contract of property handlers\<close>

fun cleanups :: "fw_event list \<Rightarrow> (u32 \<times> u32) list" where
  "cleanups [] = []"
| "cleanups (Prop (Prop_cleanup t p) # es) = (t, p) # cleanups es"
| "cleanups (e # es) = cleanups es"

lemma cleanups_append [simp]: "cleanups (xs @ ys) = cleanups xs @ cleanups ys"
  by (induction xs rule: cleanups.induct) auto

text \<open>A step that makes calls to the firmware, but acknowledges no property.\<close>

definition quiet :: "'a world_scheme \<Rightarrow> 'a world_scheme \<Rightarrow> bool" where
  "quiet w w' \<longleftrightarrow> (\<exists>es. trace w' = trace w @ es \<and> cleanups es = [])"

lemma quiet_refl [simp]: "quiet w w"
  by (simp add: quiet_def)

lemma quiet_trans: "quiet u v \<Longrightarrow> quiet v w \<Longrightarrow> quiet u w"
  by (auto simp: quiet_def)

lemma quiet_emit: "cleanups [e] = [] \<Longrightarrow> quiet w (emit e w)"
  by (auto simp: quiet_def)

lemma quiet_trace: "trace w' = trace w \<Longrightarrow> quiet w w'"
  by (simp add: quiet_def)

text \<open>A delivery is a token, a property and its buffer; \<open>None\<close> is a fault of the handler.\<close>

type_synonym delivery = "u32 \<times> u32 \<times> u8 list"

fun deliveries :: "(u32 \<Rightarrow> u32 \<Rightarrow> u8 list \<Rightarrow> 's \<Rightarrow> 's option) \<Rightarrow> delivery list \<Rightarrow> 's \<Rightarrow> 's option" where
  "deliveries handle [] s = Some s"
| "deliveries handle ((t, p, b) # ds) s = Option.bind (handle t p b s) (deliveries handle ds)"

locale prop_handlers =
  fixes handle :: "u32 \<Rightarrow> u32 \<Rightarrow> u8 list \<Rightarrow> 'a world_scheme \<Rightarrow> 'a world_scheme option"
    and owned :: "u32 \<Rightarrow> bool"
  assumes acknowledges: "owned p \<Longrightarrow> handle t p b w = Some w' \<Longrightarrow>
      \<exists>es. trace w' = trace w @ es @ [Prop (Prop_cleanup t p)] \<and> cleanups es = []"
begin

lemma acknowledged_once:
  "owned p \<Longrightarrow> handle t p b w = Some w' \<Longrightarrow> cleanups (trace w') = cleanups (trace w) @ [(t, p)]"
  using acknowledges by fastforce

lemma all_acknowledged:
  "deliveries handle ds w = Some w' \<Longrightarrow> \<forall>(t, p, b) \<in> set ds. owned p \<Longrightarrow>
   cleanups (trace w') = cleanups (trace w) @ map (\<lambda>(t, p, b). (t, p)) ds"
proof (induction ds arbitrary: w)
  case Nil
  then show ?case by simp
next
  case (Cons d ds)
  obtain t p b where d: "d = (t, p, b)" by (cases d)
  then obtain w1 where w1: "handle t p b w = Some w1" "deliveries handle ds w1 = Some w'"
    using Cons.prems(1) by (auto simp: bind_eq_Some_conv)
  then show ?case using Cons acknowledged_once [of p t b w w1] d by simp
qed

end

end
