(* ===== verification/Lens.thy ===== *)
theory Lens
  imports Property
begin

text \<open>
  \<open>lens.h\<close> and \<open>lens.c\<close>: the decoded lens state, the depth of field, its display, the focus and
  shutter commands, the movie log and the handlers of the lens properties.  A division by zero
  is the result \<open>None\<close>; so is a formatted text that does not fit the buffer of \<open>fprintf\<close>.
\<close>

record lens_info =
  lens_name :: string
  focal_len :: u32
  focus_dist :: u32
  aperture :: u32
  shutter :: u32
  iso :: u32
  hyperfocal :: u32
  dof_near :: u32
  dof_far :: u32
  job_state :: u32
  raw_aperture :: u8
  raw_shutter :: u8
  raw_iso :: u8

record lens_state = world +
  lens_info :: lens_info
  mvr_logfile :: u32
  last_iso :: u32
  last_shutter :: u32
  last_aperture :: u32
  last_focal_len :: u32
  last_focus_dist :: u32

subsection \<open>Exposure values\<close>

definition aperture_codes :: "nat list" where
  "aperture_codes = [13, 16, 19, 21, 24, 27, 29, 32, 35, 37, 40, 43, 45, 48, 51, 53, 56, 59, 61, 64,
     67, 69, 72, 75, 77, 80, 83, 85, 88, 91, 93, 96]"

definition shutter_codes :: "nat list" where
  "shutter_codes = [96, 99, 101, 104, 107, 109, 112, 115, 117, 120, 123, 125, 128, 131, 133, 136,
     139, 141, 144, 147, 149, 152]"

definition iso_codes :: "nat list" where
  "iso_codes = [72, 75, 77, 80, 83, 85, 88, 91, 93, 96, 99, 101, 104, 107, 109, 112, 115, 117, 120, 128]"

text \<open>The tables give each code, divided by two, its value; the other elements are 0.\<close>

definition aperture_values :: "(nat \<times> u32) list" where
  "aperture_values = zip (map (\<lambda>c. c div 2) aperture_codes)
     [12, 14, 16, 18, 20, 22, 25, 28, 32, 35, 40, 45, 50, 56, 63, 71, 80, 90, 100, 110, 130, 140, 160,
      180, 200, 220, 250, 290, 320, 360, 400, 450]"

definition shutter_values :: "(nat \<times> u32) list" where
  "shutter_values = zip (map (\<lambda>c. c div 2) shutter_codes)
     [30, 40, 50, 60, 80, 100, 125, 160, 200, 250, 320, 400, 500, 640, 800, 1000, 1250, 1600, 2000,
      2500, 3200, 4000]"

definition iso_values :: "(nat \<times> u32) list" where
  "iso_values = zip (map (\<lambda>c. c div 2) iso_codes)
     [100, 125, 160, 200, 250, 320, 400, 500, 640, 800, 1000, 1250, 1600, 2000, 2500, 3200, 4000,
      5000, 6400, 12500]"

definition value_of_raw :: "(nat \<times> u32) list \<Rightarrow> u32 \<Rightarrow> u32" where
  "value_of_raw tab raw = (case map_of tab (unat raw div 2) of None \<Rightarrow> 0 | Some v \<Rightarrow> v)"

subsection \<open>Camera control\<close>

definition lens_set_aperture :: "u32 \<Rightarrow> 'a world_scheme \<Rightarrow> 'a world_scheme" where
  "lens_set_aperture v w = prop_request_u32 PROP_APERTURE v w"

definition lens_set_iso :: "u32 \<Rightarrow> 'a world_scheme \<Rightarrow> 'a world_scheme" where
  "lens_set_iso v w = prop_request_u32 PROP_ISO v w"

definition lens_set_shutter :: "u32 \<Rightarrow> 'a world_scheme \<Rightarrow> 'a world_scheme" where
  "lens_set_shutter v w = prop_request_u32 PROP_SHUTTER v w"

definition lens_set_ae :: "int \<Rightarrow> 'a world_scheme \<Rightarrow> 'a world_scheme" where
  "lens_set_ae cmd w = prop_request_u32 PROP_AE (word_of_int cmd) w"

definition lens_get_ae :: int where
  "lens_get_ae = 0"

subsection \<open>Depth of field\<close>

text \<open>All products and quotients are 32-bit words, and wrap around.\<close>

definition calc_dof :: "lens_info \<Rightarrow> lens_info option" where
  "calc_dof info =
     (let coc = 29;
          fd = focus_dist info * 10;
          fl = focal_len info
      in if fl = 0 \<or> aperture info = 0
         then Some (info\<lparr>dof_near := 0, dof_far := 0, hyperfocal := 0\<rparr>)
         else
           let fl2 = fl * fl
           in if aperture info * coc = 0 then None
              else
                let H = ((1000 * fl2) div (aperture info * coc)) * 10;
                    info = info\<lparr>hyperfocal := H\<rparr>
                in if fd = 0 then Some (info\<lparr>dof_near := 0, dof_far := 0\<rparr>)
                   else if H + fd = 0 then None
                   else
                     let info = info\<lparr>dof_near := ((H * (fd div 10)) div (H + fd)) * 10\<rparr>
                     in if fd > H then Some (info\<lparr>dof_far := 1000 * 1000\<rparr>)
                        else if H - fd = 0 then None
                        else Some (info\<lparr>dof_far := ((H * (fd div 10)) div (H - fd)) * 10\<rparr>))"

subsection \<open>Display\<close>

definition lens_format_dist :: "u32 \<Rightarrow> string" where
  "lens_format_dist mm =
     snprintf 32
      (if mm > 100000 then fmt_d 3 (sint (mm div 1000)) @ ''.'' @ fmt_d 1 (sint ((mm mod 1000) div 100)) @ '' m''
       else if mm > 10000 then fmt_d 2 (sint (mm div 1000)) @ ''.'' @ fmt_0d 2 (sint ((mm mod 1000) div 10)) @ '' m''
       else if mm > 1000 then fmt_d 1 (sint (mm div 1000)) @ ''.'' @ fmt_0d 3 (sint (mm mod 1000)) @ '' m''
       else fmt_d 4 (sint (mm div 10)) @ '' cm'')"

definition focus_text :: "u32 \<Rightarrow> string" where
  "focus_text dist = (if dist = 0xFFFF then '' Infnty'' else lens_format_dist (dist * 10))"

definition update_lens_display :: "fonts \<Rightarrow> lens_info \<Rightarrow> 'a world_scheme \<Rightarrow> 'a world_scheme" where
  "update_lens_display fs info w =
     (let font = FONT_MED;
          font_err = FONT FONT_MED COLOR_RED COLOR_BG;
          h = fontspec_height fs font
      in emits
        [Draw (Bmp_printf font 620 0 (fmt_d 5 (sint (focal_len info)) @ '' mm'')),
         Draw (Bmp_printf font (620 + 12) h (focus_text (focus_dist info))),
         (if aperture info \<noteq> 0
          then Draw (Bmp_printf font 0 400
                 (''f/'' @ fmt_d 2 (sint (aperture info div 10)) @ ''.'' @ fmt_d 0 (sint (aperture info mod 10))))
          else Draw (Bmp_printf font_err 0 400 (''f 0x'' @ fmt_0x 2 (ucast (raw_aperture info))))),
         (if shutter info \<noteq> 0
          then Draw (Bmp_printf font 100 400 (''1/'' @ fmt_d 4 (sint (shutter info))))
          else Draw (Bmp_printf font_err 100 400 (''f 0x'' @ fmt_0x 2 (ucast (raw_aperture info))))),
         (if iso info \<noteq> 0
          then Draw (Bmp_printf font 200 400 (''ISO '' @ fmt_d 4 (sint (iso info))))
          else Draw (Bmp_printf font_err 200 400 (''ISO 0x'' @ fmt_0x 2 (ucast (raw_iso info)))))] w)"

subsection \<open>Focus and shutter commands\<close>

definition lens_focus_wait :: "'a world_scheme \<Rightarrow> 'a world_scheme" where
  "lens_focus_wait w = emits [Sem (Take_semaphore Focus_done_sem 0), Sem (Give_semaphore Focus_done_sem)] w"

text \<open>The bytes of \<open>struct prop_focus\<close>.\<close>

definition prop_focus :: "u32 \<Rightarrow> int \<Rightarrow> u8 list" where
  "prop_focus mode step =
     [1, ucast (drop_bit 8 (word_of_int step :: u32) AND 0xFF), ucast ((word_of_int step :: u32) AND 0xFF), ucast mode]"

definition lens_focus :: "answers \<Rightarrow> u32 \<Rightarrow> int \<Rightarrow> 'a world_scheme \<Rightarrow> 'a world_scheme" where
  "lens_focus orc mode step w =
     (let (rc, w) = ask orc (Sem (Take_semaphore Focus_done_sem 100)) w
      in if rc \<noteq> 0 then w
         else emit (Prop (Prop_request_change PROP_LV_FOCUS (prop_focus mode step))) w)"

text \<open>The job state at the time of the return is \<open>later\<close>: the property task may change it while
  the call waits.\<close>

definition lens_take_picture :: "answers \<Rightarrow> u32 \<Rightarrow> u32 \<Rightarrow> int \<Rightarrow> 'a world_scheme \<Rightarrow> int \<times> 'a world_scheme" where
  "lens_take_picture orc now later wait w =
     (let (rc, w) = ask orc (Sem (Take_semaphore Job_sem 1000)) w
      in if rc \<noteq> 0 \<and> now > 0xA then (- 1, w)
         else
           let w = emit (Sys (Call_function ''Release'')) w
           in if wait = 0 then (0, w)
              else
                let (rc, w) = ask orc (Sem (Take_semaphore Job_sem wait)) w
                in if rc \<noteq> 0 then (- 1, w)
                   else (sint later, emit (Sem (Give_semaphore Job_sem)) w))"

subsection \<open>The movie log\<close>

definition mvr_text :: "tm \<Rightarrow> lens_info \<Rightarrow> string" where
  "mvr_text now info =
     fmt_0d 2 (tm_hour now) @ '':'' @ fmt_0d 2 (tm_min now) @ '':'' @ fmt_0d 2 (tm_sec now)
     @ '','' @ fmt_d 0 (sint (iso info)) @ '','' @ fmt_d 0 (sint (shutter info))
     @ '','' @ fmt_d 0 (sint (aperture info div 10)) @ ''.'' @ fmt_d 0 (sint (aperture info mod 10))
     @ '','' @ fmt_d 0 (sint (focal_len info)) @ '','' @ fmt_d 0 (sint (focus_dist info)) @ [LF]"

definition mvr_update_logfile :: "tm \<Rightarrow> bool \<Rightarrow> 'a lens_state_scheme \<Rightarrow> 'a lens_state_scheme option" where
  "mvr_update_logfile now force s =
     (let info = lens_info s
      in if mvr_logfile s = INVALID_PTR then Some s
         else if \<not> force \<and> last_iso s = iso info \<and> last_shutter s = shutter info
              \<and> last_aperture s = aperture info \<and> last_focal_len s = focal_len info
              \<and> last_focus_dist s = focus_dist info
         then Some s
         else
           let s = s\<lparr>last_iso := iso info, last_shutter := shutter info, last_aperture := aperture info,
                     last_focal_len := focal_len info, last_focus_dist := focus_dist info\<rparr>;
               s = emit (Fio LoadCalendarFromRTC) s
           in fprintf (mvr_logfile s) (mvr_text now info) s)"

text \<open>The name array has no terminator when a name fills it: reading it as a string goes on into
  the fields that follow it.\<close>

definition name_string :: "lens_info \<Rightarrow> string" where
  "name_string info =
     cstr (lens_name info @ map (\<lambda>b. char_of (unat b)) (bytes_of (focal_len info) @ bytes_of (focus_dist info)
        @ bytes_of (aperture info)))"

definition start_text :: "tm \<Rightarrow> string" where
  "start_text now =
     ''Start: '' @ fmt_d 4 (tm_year now + 1900) @ ''/'' @ fmt_0d 2 (tm_mon now + 1) @ ''/'' @ fmt_0d 2 (tm_mday now)
     @ '' '' @ fmt_0d 2 (tm_hour now) @ '':'' @ fmt_0d 2 (tm_min now) @ '':'' @ fmt_0d 2 (tm_sec now) @ [LF]"

definition mvr_create_logfile ::
  "answers \<Rightarrow> tm \<Rightarrow> u32 \<Rightarrow> 'a lens_state_scheme \<Rightarrow> 'a lens_state_scheme option" where
  "mvr_create_logfile orc now event s =
     (if event = 0 then
        Some ((if mvr_logfile s \<noteq> INVALID_PTR then emit (Fio (FIO_CloseFile (mvr_logfile s))) s else s)
              \<lparr>mvr_logfile := INVALID_PTR\<rparr>)
      else if event \<noteq> 2 then Some s
      else
        let (f, s) = ask orc (Fio (FIO_CreateFile ''A:/movie.log'')) s;
            s = s\<lparr>mvr_logfile := f\<rparr>
        in if f = INVALID_PTR
           then Some (emit (Draw (Bmp_printf FONT_LARGE 0 40
                  (''Unable to create movie log! fd='' @ fmt_0x 0 f))) s)
           else
             Option.bind (fprintf f (start_text now) (emit (Fio LoadCalendarFromRTC) s)) (\<lambda>s.
             Option.bind (fprintf f (''Lens: '' @ name_string (lens_info s) @ [LF]) s) (\<lambda>s.
             Option.bind (fprintf f (''Frame,ISO,Shutter,Aperture,Focal_Len,Focus_Dist'' @ [LF]) s) (\<lambda>s.
             mvr_update_logfile now True s))))"

subsection \<open>Property handlers\<close>

definition bswap16 :: "u16 \<Rightarrow> u16" where
  "bswap16 val = (push_bit 8 val AND 0xFF00) OR (drop_bit 8 val AND 0x00FF)"

definition focus_step :: "u8 list \<Rightarrow> int" where
  "focus_step buf = i16 (sint (push_bit 8 (ucast (buf8 buf 1)) OR ucast (buf8 buf 2) :: u32))"

definition set_lens_name :: "string \<Rightarrow> u8 list \<Rightarrow> string" where
  "set_lens_name old buf =
     (let n = min (length buf) 32
      in map (\<lambda>b. char_of (unat b)) (take n buf) @ drop n old)"

text \<open>All the handlers of the file; \<open>addr\<close> is where the buffer lies, for the hex dump.\<close>

definition lens_prop ::
  "answers \<Rightarrow> tm \<Rightarrow> addr \<Rightarrow> u32 \<Rightarrow> u32 \<Rightarrow> u8 list \<Rightarrow> 'a lens_state_scheme \<Rightarrow> 'a lens_state_scheme option" where
  "lens_prop orc now addr token property buf s =
     map_option (emit (Prop (Prop_cleanup token property)))
      (let info = lens_info s
       in if property = PROP_MVR_REC_START then mvr_create_logfile orc now (buf32 buf) s
          else if property = PROP_LENS_NAME then
            Some (s\<lparr>lens_info := info\<lparr>lens_name := set_lens_name (lens_name info) buf\<rparr>\<rparr>)
          else if property = PROP_APERTURE then
            Some (s\<lparr>lens_info := info\<lparr>raw_aperture := ucast (buf32 buf),
                     aperture := value_of_raw aperture_values (buf32 buf)\<rparr>\<rparr>)
          else if property = PROP_SHUTTER then
            Some (s\<lparr>lens_info := info\<lparr>raw_shutter := ucast (buf32 buf),
                     shutter := value_of_raw shutter_values (buf32 buf)\<rparr>\<rparr>)
          else if property = PROP_ISO then
            Some (s\<lparr>lens_info := info\<lparr>raw_iso := ucast (buf32 buf),
                     iso := value_of_raw iso_values (buf32 buf)\<rparr>\<rparr>)
          else if property = PROP_LV_LENS then
            Some (emit (Sem (Give_semaphore Lens_sem))
              (s\<lparr>lens_info := info\<lparr>focal_len := ucast (bswap16 (buf16 buf 0x2c)),
                  focus_dist := ucast (bswap16 (buf16 buf 0x2e))\<rparr>\<rparr>))
          else if property = PROP_LVCAF_STATE then
            Some (emit (Draw (Bmp_hexdump FONT_SMALL 200 50 addr (length buf))) s)
          else if property = PROP_LV_FOCUS then
            Some (emit (Draw (Bmp_printf FONT_SMALL 200 30
              (''FOCUS: '' @ fmt_0x 8 (buf32 buf) @ '' active='' @ fmt_0x 2 (ucast (buf8 buf 0))
               @ '' dir='' @ fmt_plus_d 5 (focus_step buf)
               @ '' ('' @ fmt_0x 4 (word_of_int (focus_step buf) AND 0xFFFF) @ '') mode='' @ fmt_0x 2 (ucast (buf8 buf 3))))) s)
          else if property = PROP_LV_FOCUS_DONE then Some (emit (Sem (Give_semaphore Focus_done_sem)) s)
          else
            let s = s\<lparr>lens_info := info\<lparr>job_state := buf32 buf\<rparr>\<rparr>
            in Some (if buf32 buf = 0xA then emit (Sem (Give_semaphore Job_sem)) s else s))"

definition lens_props :: "u32 list" where
  "lens_props = [PROP_MVR_REC_START, PROP_LENS_NAME, PROP_APERTURE, PROP_SHUTTER, PROP_ISO, PROP_LV_LENS,
     PROP_LVCAF_STATE, PROP_LV_FOCUS, PROP_LV_FOCUS_DONE, PROP_LAST_JOB_STATE]"

text \<open>One turn of the task that redraws the lens information.\<close>

definition lens_task_step :: "answers \<Rightarrow> fonts \<Rightarrow> tm \<Rightarrow> 'a lens_state_scheme \<Rightarrow> 'a lens_state_scheme option" where
  "lens_task_step orc fs now s =
     (let (rc, s) = ask orc (Sem (Take_semaphore Lens_sem 1000)) s
      in if rc \<noteq> 0 then Some s
         else Option.bind (calc_dof (lens_info s)) (\<lambda>info.
           mvr_update_logfile now False (update_lens_display fs info (s\<lparr>lens_info := info\<rparr>))))"

definition lens_init :: "'a world_scheme \<Rightarrow> 'a world_scheme" where
  "lens_init w = emits [Sem (Create_named_semaphore Lens_sem ''lens_info'' 1),
     Sem (Create_named_semaphore Focus_done_sem ''focus_sem'' 1),
     Sem (Create_named_semaphore Job_sem ''job'' 1)] w"

subsection \<open>Facts\<close>

lemma snprintf_fits: "length s < n \<Longrightarrow> snprintf n s = s"
  by (simp add: snprintf_def)

lemma length_fmt_d:
  assumes "0 \<le> x" "nat x < 10 ^ Suc k"
  shows "length (fmt_d w x) \<le> max w (Suc k)"
  using assms length_digits_le [of 10 "nat x" k]
  by (auto simp: fmt_d_def pad_left_def sign_of_def)

lemma length_fmt_0d:
  assumes "0 \<le> x" "nat x < 10 ^ Suc k"
  shows "length (fmt_0d w x) \<le> max w (Suc k)"
  using assms length_digits_le [of 10 "nat x" k]
  by (auto simp: fmt_0d_def pad_left_def sign_of_def)

lemma sint_small: "unat (v :: u32) < 2 ^ 31 \<Longrightarrow> sint v = int (unat v)"
proof -
  assume a: "unat v < 2 ^ 31"
  have u: "uint v = int (unat v)" by simp
  have "signed_take_bit 31 (int (unat v)) = int (unat v)"
    using a by (intro signed_take_bit_int_eq_self) (simp_all add: of_nat_less_iff [symmetric] del: of_nat_less_iff of_nat_unat)
  then show ?thesis by (simp add: sint_uint u del: of_nat_unat)
qed

lemma bswap16_bswap16: "bswap16 (bswap16 v) = v"
proof -
  have m: "(0xFF00 :: u16) = push_bit 8 (mask 8)" "(0x00FF :: u16) = mask 8"
    by (simp_all add: mask_eq_exp_minus_1 push_bit_eq_mult)
  show ?thesis
    unfolding bswap16_def m by (rule bit_word_eqI) (auto simp: bit_simps)
qed

text \<open>Everything the movie log does leaves the acknowledgements alone.\<close>

lemma quiet_fprintf: "fprintf f s w = Some w' \<Longrightarrow> quiet w w'"
  by (auto simp: fprintf_def quiet_def split: if_splits)

lemma quiet_update: "mvr_update_logfile now force s = Some s' \<Longrightarrow> quiet s s'"
  by (auto simp: mvr_update_logfile_def Let_def quiet_def fprintf_def split: if_splits)

lemma quiet_create:
  assumes "mvr_create_logfile orc now event s = Some s'"
  shows "quiet s s'"
proof -
  consider "event = 0" | "event \<noteq> 0" "event \<noteq> 2" | "event = 2" by blast
  then show ?thesis
  proof cases
    case 3
    let ?f = "orc (trace s @ [Fio (FIO_CreateFile ''A:/movie.log'')])"
    let ?s = "(emit (Fio (FIO_CreateFile ''A:/movie.log'')) s)\<lparr>mvr_logfile := ?f\<rparr>"
    have "quiet s ?s" by (simp add: quiet_def)
    show ?thesis
    proof (cases "?f = INVALID_PTR")
      case True
      then show ?thesis using assms 3 by (auto simp: mvr_create_logfile_def ask_def quiet_def)
    next
      case False
      then obtain a b c where "fprintf ?f (start_text now) (emit (Fio LoadCalendarFromRTC) ?s) = Some a"
        "fprintf ?f (''Lens: '' @ name_string (lens_info a) @ [LF]) a = Some b"
        "fprintf ?f (''Frame,ISO,Shutter,Aperture,Focal_Len,Focus_Dist'' @ [LF]) b = Some c"
        "mvr_update_logfile now True c = Some s'"
        using assms 3 by (auto simp: mvr_create_logfile_def ask_def Let_def bind_eq_Some_conv)
      then have "quiet (emit (Fio LoadCalendarFromRTC) ?s) s'"
        by (blast intro: quiet_trans quiet_fprintf quiet_update)
      then show ?thesis by (auto simp: quiet_def)
    qed
  qed (use assms in \<open>auto simp: mvr_create_logfile_def quiet_def\<close>)
qed

lemma lens_prop_acknowledges:
  assumes "lens_prop orc now addr t p b s = Some s'"
  shows "\<exists>es. trace s' = trace s @ es @ [Prop (Prop_cleanup t p)] \<and> cleanups es = []"
proof -
  have "\<exists>s1. s' = emit (Prop (Prop_cleanup t p)) s1 \<and> quiet s s1"
  proof (cases "p = PROP_MVR_REC_START")
    case True
    then show ?thesis using assms by (auto simp: lens_prop_def intro: quiet_create)
  next
    case False
    then show ?thesis using assms by (auto simp: lens_prop_def Let_def quiet_def split: if_splits)
  qed
  then show ?thesis by (auto simp: quiet_def)
qed

interpretation lens_handlers: prop_handlers "lens_prop orc now addr" "\<lambda>p. p \<in> set lens_props" for orc now addr
  by unfold_locales (rule lens_prop_acknowledges)

lemma focus_step_read:
  assumes "- (2 ^ 15) \<le> step" and "step < 2 ^ 15"
  shows "focus_step (prop_focus mode step) = step"
proof -
  let ?w = "word_of_int step :: u32"
  have m: "(0xFF :: u32) = mask 8" by (simp add: mask_eq_exp_minus_1)
  have "push_bit 8 (ucast (ucast (drop_bit 8 ?w AND 0xFF) :: u8)) OR ucast (ucast (?w AND 0xFF) :: u8)
      = (take_bit 16 ?w :: u32)"
    unfolding m by (rule bit_word_eqI) (auto simp: bit_simps)
  then have "focus_step (prop_focus mode step) = i16 (sint (take_bit 16 ?w))"
    by (simp add: focus_step_def prop_focus_def buf8_def)
  also have "sint (take_bit 16 ?w) = take_bit 16 step"
  proof -
    have "take_bit 16 ?w = word_of_int (take_bit 16 step)" 
      by (rule bit_word_eqI) (auto simp: bit_simps)
    moreover have "take_bit 16 step < 2 ^ 16" "0 \<le> take_bit 16 step" using take_bit_int_less_exp [of 16 step] by simp_all
    moreover have "i32 (take_bit 16 step) = take_bit 16 step"
    proof (rule i32_id)
      show "- (2 ^ 31) \<le> take_bit 16 step" by (rule order_trans [of _ 0]) simp_all
      show "take_bit 16 step < 2 ^ 31"
        by (rule less_trans [OF take_bit_int_less_exp]) simp
    qed
    ultimately show ?thesis by (simp add: sint_word_of_int_u32)
  qed
  also have "i16 (take_bit 16 step) = step"
    using assms by (simp add: i16_def signed_take_bit_take_bit signed_take_bit_int_eq_self)
  finally show ?thesis .
qed

subsection \<open>The properties\<close>

definition dof_H :: "nat \<Rightarrow> nat \<Rightarrow> nat" where
  "dof_H fl ap = 1000 * fl ^ 2 div (ap * 29) * 10"

text \<open>The hyperfocal distance, computed without overflow.\<close>

lemma dof_H_word:
  fixes F N :: u32
  assumes F: "1000 * unat F ^ 2 < 2 ^ 32" and N: "0 < unat N" "unat N * 29 < 2 ^ 32"
  shows "unat ((1000 * (F * F)) div (N * 29) * 10) = dof_H (unat F) (unat N)"
proof -
  have f2: "unat (F * F) = unat F ^ 2"
    using F unat_mult_small [of F F] by (simp add: power2_eq_square)
  have f3: "unat (1000 * (F * F)) = 1000 * unat F ^ 2"
    using F f2 unat_mult_small [of 1000 "F * F"] by simp
  have n: "unat (N * 29) = unat N * 29"
    using N(2) unat_mult_small [of N 29] by simp
  have "1000 * unat F ^ 2 div (unat N * 29) \<le> 1000 * unat F ^ 2 div 29"
    using N(1) by (intro div_le_mono2) auto
  also have "\<dots> \<le> 2 ^ 32 div 29" using F by (intro div_le_mono) simp
  finally have "1000 * unat F ^ 2 div (unat N * 29) * 10 < 2 ^ 32" by simp
  then show ?thesis
    unfolding dof_H_def by (subst unat_mult_small) (simp_all add: unat_div f3 n)
qed

lemma calc_dof_nat:
  assumes F: "0 < unat (focal_len info)" "1000 * unat (focal_len info) ^ 2 < 2 ^ 32"
    and N: "0 < unat (aperture info)" "unat (aperture info) * 29 < 2 ^ 32"
    and D: "0 < unat (focus_dist info)" "H * unat (focus_dist info) < 2 ^ 32" "H + 10 * unat (focus_dist info) < 2 ^ 32"
    and H: "H = dof_H (unat (focal_len info)) (unat (aperture info))"
  shows "calc_dof info =
    (if 10 * unat (focus_dist info) = H then None
     else Some (info\<lparr>hyperfocal := of_nat H,
       dof_near := of_nat (H * unat (focus_dist info) div (H + 10 * unat (focus_dist info)) * 10),
       dof_far := (if H < 10 * unat (focus_dist info) then 1000000
                   else of_nat (H * unat (focus_dist info) div (H - 10 * unat (focus_dist info)) * 10))\<rparr>))"
proof -
  let ?F = "focal_len info" and ?N = "aperture info" and ?D = "focus_dist info"
  have d: "unat (?D * 10) = 10 * unat ?D"
    using D(3) unat_mult_small [of ?D 10] by simp
  have dd: "?D * 10 div 10 = ?D"
    by (simp add: word_eq_iff_unsigned [where ?'a = nat] unat_div d)
  define h :: u32 where "h = (1000 * (?F * ?F)) div (?N * 29) * 10"
  have h: "unat h = H" unfolding h_def H by (rule dof_H_word [OF F(2) N])
  have n: "unat (?N * 29) = unat ?N * 29" using N(2) unat_mult_small [of ?N 29] by simp
  have hd: "unat (h * ?D) = H * unat ?D" using D(2) h unat_mult_small [of h ?D] by simp
  have hs: "unat (h + ?D * 10) = H + 10 * unat ?D" using D(3) h d unat_add_small [of h "?D * 10"] by simp
  have lt: "(h < ?D * 10) = (H < 10 * unat ?D)" by (simp add: word_less_nat_alt h d)
  have sub: "unat (h - ?D * 10) = H - 10 * unat ?D" if "\<not> H < 10 * unat ?D"
    using that h d unat_sub_if_size [of h "?D * 10"] by (simp add: word_le_nat_alt)
  have nz: "?F \<noteq> 0" "?N \<noteq> 0" "?D * 10 \<noteq> 0" "?N * 29 \<noteq> 0" "h + ?D * 10 \<noteq> 0"
    using F N D d n hs by auto
  have eq0: "(h - ?D * 10 = 0) = (10 * unat ?D = H)" if "\<not> H < 10 * unat ?D"
    using sub [OF that] that by (metis diff_is_0_eq le_antisym not_less unat_eq_zero)
  have near: "h * ?D div (h + ?D * 10) * 10 = of_nat (H * unat ?D div (H + 10 * unat ?D) * 10)"
  proof -
    have "h * ?D div (h + ?D * 10) = of_nat (unat (h * ?D div (h + ?D * 10)))" by simp
    then show ?thesis by (simp add: unat_div hd hs)
  qed
  have far: "h * ?D div (h - ?D * 10) * 10 = of_nat (H * unat ?D div (H - 10 * unat ?D) * 10)"
    if "\<not> H < 10 * unat ?D"
  proof -
    have "h * ?D div (h - ?D * 10) = of_nat (unat (h * ?D div (h - ?D * 10)))" by simp
    then show ?thesis by (simp add: unat_div hd sub [OF that])
  qed
  have hH: "of_nat H = h" using h by (metis of_nat_unat ucast_id)
  show ?thesis
  proof (cases "H < 10 * unat ?D")
    case True
    then show ?thesis using nz lt near
      by (simp add: calc_dof_def Let_def dd hH flip: h_def)
  next
    case False
    then show ?thesis using nz lt near far [OF False] eq0 [OF False]
      by (simp add: calc_dof_def Let_def dd hH flip: h_def)
  qed
qed



definition sample_lens :: lens_info where
  "sample_lens = \<lparr>lens_name = ''EF50mm f/1.8 II'', focal_len = 50, focus_dist = 125, aperture = 80,
     shutter = 50, iso = 800, hyperfocal = 0, dof_near = 0, dof_far = 0, job_state = 0,
     raw_aperture = 56, raw_shutter = 101, raw_iso = 96\<rparr>"


text \<open>Every distance formats in at most 11 characters, far inside the 32 of the static buffer.\<close>

theorem lens_format_dist_fits: "length (lens_format_dist mm) \<le> 11"
proof -
  have lt: "unat mm < 2 ^ 32" using unsigned_less [of mm, where 'a = nat] by simp
  then have "unat mm div 1000 < 2 ^ 31" "unat mm div 10 < 2 ^ 31" by auto
  then have d: "sint (mm div 1000) = int (unat mm div 1000)" "sint (mm div 10) = int (unat mm div 10)"
    by (subst sint_small; simp add: unat_div)+
  have r: "sint ((mm mod 1000) div 100) = int (unat mm mod 1000 div 100)"
    "sint ((mm mod 1000) div 10) = int (unat mm mod 1000 div 10)" "sint (mm mod 1000) = int (unat mm mod 1000)"
    using mod_less_divisor [of 1000 "unat mm"]
    by (subst sint_small; simp add: unat_div unat_mod)+
  have b: "unat mm div 1000 < 10 ^ Suc 6" "unat mm mod 1000 div 100 < 10 ^ Suc 0"
    "unat mm mod 1000 div 10 < 10 ^ Suc 1" "unat mm mod 1000 < 10 ^ Suc 2"
    using lt mod_less_divisor [of 1000 "unat mm"] by auto
  let ?a = "length (fmt_d 3 (sint (mm div 1000)))" and ?b = "length (fmt_d 1 (sint ((mm mod 1000) div 100)))"
  let ?c = "length (fmt_d 2 (sint (mm div 1000)))" and ?d = "length (fmt_0d 2 (sint ((mm mod 1000) div 10)))"
  let ?e = "length (fmt_d 1 (sint (mm div 1000)))" and ?f = "length (fmt_0d 3 (sint (mm mod 1000)))"
  let ?g = "length (fmt_d 4 (sint (mm div 10)))"
  have "?a \<le> 7" "?b \<le> 1" "?d \<le> 2" "?f \<le> 3" unfolding d r
    using length_fmt_d [of "int (unat mm div 1000)" 6 3] length_fmt_d [of "int (unat mm mod 1000 div 100)" 0 1]
      length_fmt_0d [of "int (unat mm mod 1000 div 10)" 1 2] length_fmt_0d [of "int (unat mm mod 1000)" 2 3] b
    by simp_all
  moreover have "?c \<le> 3" if "\<not> mm > 100000"
    using that length_fmt_d [of "int (unat mm div 1000)" 2 2] unfolding d by (simp add: word_less_nat_alt)
  moreover have "?e \<le> 2" if "\<not> mm > 10000"
  proof -
    have "unat mm \<le> 10000" using that by (simp add: word_less_nat_alt)
    then have "unat mm div 1000 < 10 ^ Suc 1" using div_le_mono [of "unat mm" 10000 1000] by simp
    then show ?thesis using length_fmt_d [of "int (unat mm div 1000)" 1 1] unfolding d by simp
  qed
  moreover have "?g \<le> 4" if "\<not> mm > 1000"
    using that length_fmt_d [of "int (unat mm div 10)" 3 4] unfolding d by (simp add: word_less_nat_alt)
  ultimately show ?thesis
    by (auto simp: lens_format_dist_def snprintf_def)
qed

text \<open>The step that \<open>lens_focus\<close> sends in the two bytes of the focus property is the step the
  handler of that property reads back, for every 16-bit step.\<close>

theorem focus_step_roundtrip:
  assumes "- (2 ^ 15) \<le> step" and "step < 2 ^ 15"
  shows "focus_step (prop_focus mode step) = step"
  using assms by (rule focus_step_read)

theorem focus_step_roundtrip_witness: "focus_step (prop_focus 7 (- 300)) = - 300"
  by (rule focus_step_roundtrip) simp_all


definition sample_lens_state :: lens_state where
  "sample_lens_state = \<lparr>trace = [], lens_info = sample_lens, mvr_logfile = INVALID_PTR, last_iso = 0,
     last_shutter = 0, last_aperture = 0, last_focal_len = 0, last_focus_dist = 0\<rparr>"


text \<open>The movie log repeats nothing: after a successful update, further updates write nothing
  until one of the five logged values changes.\<close>

theorem mvr_update_idempotent:
  assumes "mvr_update_logfile now force s = Some s'"
  shows "mvr_update_logfile now' False s' = Some s'"
  using assms by (auto simp: mvr_update_logfile_def Let_def fprintf_def emit_def split: if_splits)

theorem mvr_update_idempotent_witness:
  "\<exists>s'. mvr_update_logfile sample_tm True (sample_lens_state\<lparr>mvr_logfile := 5\<rparr>) = Some s'
     \<and> mvr_update_logfile sample_tm False s' = Some s'"
proof -
  obtain s' where r: "mvr_update_logfile sample_tm True (sample_lens_state\<lparr>mvr_logfile := 5\<rparr>) = Some s'"
    by (simp add: mvr_update_logfile_def sample_lens_state_def sample_lens_def INVALID_PTR_def fprintf_def
        mvr_text_def sample_tm_def fmt_0d_def fmt_d_def pad_left_def sign_of_def digits.simps Let_def)
  then show ?thesis using mvr_update_idempotent [OF r] by blast
qed

text \<open>When the shutter code is unknown, the display shows the raw aperture in its place: the raw
  shutter value never influences the screen.\<close>

theorem shutter_error_ignores_shutter:
  "update_lens_display fs (info\<lparr>raw_shutter := r\<rparr>) w = update_lens_display fs info w"
  by (simp add: update_lens_display_def Let_def)

text \<open>Each aperture, shutter and ISO code of the header decodes to a larger value than all the
  codes below it, and none decodes to the 0 of an unknown code.\<close>

theorem exposure_tables_increase:
  "sorted_wrt (<) (0 # map (value_of_raw aperture_values \<circ> of_nat) aperture_codes)
   \<and> sorted_wrt (<) (0 # map (value_of_raw shutter_values \<circ> of_nat) shutter_codes)
   \<and> sorted_wrt (<) (0 # map (value_of_raw iso_values \<circ> of_nat) iso_codes)"
  by (simp add: value_of_raw_def aperture_values_def shutter_values_def iso_values_def
      aperture_codes_def shutter_codes_def iso_codes_def)

end
