(* ===== verification/Memory.thy ===== *)
theory Memory
  imports Bmp
begin

text \<open>
  Words stored in the byte memory of \<open>Bmp\<close>: what a load finds after a store to the same, to
  another aligned or to a distant address.  The components that patch memory (relocation,
  boot, PTP) share these facts.
\<close>

subsection \<open>Words in memory\<close>

lemma load_store_same: "load_word (store_word a v m) a = v"
  unfolding load_word_def store_word_def byte_of_def
proof (rule bit_word_eqI)
  fix n assume "n < LENGTH(32)"
  then show "bit (ucast ((m(a := ucast (drop_bit (8 * 0) v), a + 1 := ucast (drop_bit (8 * 1) v),
      a + 2 := ucast (drop_bit (8 * 2) v), a + 3 := ucast (drop_bit (8 * 3) v))) a)
    OR push_bit 8 (ucast ((m(a := ucast (drop_bit (8 * 0) v), a + 1 := ucast (drop_bit (8 * 1) v),
      a + 2 := ucast (drop_bit (8 * 2) v), a + 3 := ucast (drop_bit (8 * 3) v))) (a + 1)))
    OR push_bit 16 (ucast ((m(a := ucast (drop_bit (8 * 0) v), a + 1 := ucast (drop_bit (8 * 1) v),
      a + 2 := ucast (drop_bit (8 * 2) v), a + 3 := ucast (drop_bit (8 * 3) v))) (a + 2)))
    OR push_bit 24 (ucast ((m(a := ucast (drop_bit (8 * 0) v), a + 1 := ucast (drop_bit (8 * 1) v),
      a + 2 := ucast (drop_bit (8 * 2) v), a + 3 := ucast (drop_bit (8 * 3) v))) (a + 3))) :: u32) n = bit v n"
    by (cases "24 \<le> n"; cases "16 \<le> n"; cases "8 \<le> n"; auto simp: bit_simps)
qed

lemma load_word_cong: "(\<And>i. i < 4 \<Longrightarrow> m (a + of_nat i) = m' (a + of_nat i)) \<Longrightarrow> load_word m a = load_word m' a"
proof -
  assume e: "\<And>i. i < 4 \<Longrightarrow> m (a + of_nat i) = m' (a + of_nat i)"
  show ?thesis using e [of 0] e [of 1] e [of 2] e [of 3] by (simp add: load_word_def)
qed

lemma store_word_frame: "(\<And>i. i < 4 \<Longrightarrow> b \<noteq> a + of_nat i) \<Longrightarrow> store_word a v m b = m b"
proof -
  assume e: "\<And>i. i < 4 \<Longrightarrow> b \<noteq> a + of_nat i"
  show ?thesis using e [of 0] e [of 1] e [of 2] e [of 3] by (simp add: store_word_def)
qed

text \<open>A word that lies outside the \<open>l\<close> bytes from \<open>d\<close> on.\<close>

definition apart :: "addr \<Rightarrow> nat \<Rightarrow> addr \<Rightarrow> bool" where
  "apart d l a \<longleftrightarrow> l \<le> unat (a - d) \<and> unat (a - d) + 4 \<le> 2 ^ 32"

lemma load_store_apart:
  assumes "apart d l a" and "x + 4 \<le> l"
  shows "load_word (store_word (d + of_nat x) v m) a = load_word m a"
proof (intro load_word_cong store_word_frame notI)
  fix i j :: nat
  assume ij: "i < 4" "j < 4" and e: "a + of_nat i = d + of_nat x + of_nat j"
  have l: "l \<le> unat (a - d)" "unat (a - d) + 4 \<le> 2 ^ 32" using assms(1) by (simp_all add: apart_def)
  then have "x + j < 2 ^ 32" using assms(2) ij by simp
  then have n: "unat (of_nat (x + j) :: u32) = x + j" by (rule unat_of_nat_u32)
  have "a - d = of_nat (x + j) - of_nat i" using e by (simp add: algebra_simps)
  then have "unat (a - d) = (if i \<le> x + j then x + j - i else x + j + 2 ^ 32 - i)"
    using unat_diff_of_nat [of i "of_nat (x + j)"] ij n by simp
  then show False using l assms(2) ij by (auto split: if_splits)
qed

lemma load_store_at:
  assumes "4 dvd x" and "4 dvd y" and "x + 4 \<le> 2 ^ 32" and "y + 4 \<le> 2 ^ 32"
  shows "load_word (store_word (d + of_nat x) v m) (d + of_nat y) = (if x = y then v else load_word m (d + of_nat y))"
proof (cases "x = y")
  case True
  then show ?thesis by (simp add: load_store_same)
next
  case False
  have "load_word (store_word (d + of_nat x) v m) (d + of_nat y) = load_word m (d + of_nat y)"
  proof (intro load_word_cong store_word_frame notI)
    fix i j :: nat
    assume ij: "i < 4" "j < 4" and e: "d + of_nat y + of_nat i = d + of_nat x + of_nat j"
    have "(of_nat (y + i) :: u32) = of_nat (x + j)" using e by (simp add: add.assoc)
    then have "y + i = x + j"
      using unat_of_nat_u32 [of "y + i"] unat_of_nat_u32 [of "x + j"] assms(3,4) ij by simp
    then have "(y + i) div 4 = (x + j) div 4" by simp
    then show False using assms(1,2) ij False by (auto elim!: dvdE)
  qed
  then show ?thesis using False by simp
qed

lemma byte_of_load_word: "k < 4 \<Longrightarrow> byte_of (load_word m a) k = m (a + of_nat k)"
proof -
  assume "k < 4"
  then have "k = 0 \<or> k = 1 \<or> k = 2 \<or> k = 3" by auto
  then show ?thesis unfolding byte_of_def load_word_def
    by (elim disjE) (rule bit_word_eqI, auto simp: bit_simps dest: bit_imp_le_length)+
qed

lemma store_load_word: "store_word a (load_word m a) m = m"
  using byte_of_load_word [of 0 m a] byte_of_load_word [of 1 m a] byte_of_load_word [of 2 m a] byte_of_load_word [of 3 m a]
  by (simp add: store_word_def fun_upd_idem_iff)

lemma store_word_twice: "store_word a v (store_word a u m) = store_word a v m"
  by (auto simp: store_word_def fun_eq_iff)

end
