(* ===== verification/Ptp.thy ===== *)
theory Ptp
  imports Property Menu Memory
begin

text \<open>
  \<open>ptp.h\<close> and \<open>ptp.c\<close>: the operations Magic Lantern adds to the camera's PTP service, and the
  contract of every such operation: one reply, to the session and transaction of the request.
  A reply is the event of sending the nine words of a \<open>struct ptp_msg\<close>.
\<close>

definition PTP_RC_OK :: u32 where "PTP_RC_OK = 0x2001"

record ptp_msg =
  msg_id :: u32
  msg_session :: u32
  msg_transaction :: u32
  msg_param_count :: u32
  msg_param :: "u32 list"

text \<open>The initialiser of the replies; the parameters it does not name are zero.\<close>

definition ok_msg :: "u32 \<Rightarrow> u32 \<Rightarrow> u32 list \<Rightarrow> ptp_msg" where
  "ok_msg session transaction params =
     \<lparr>msg_id = PTP_RC_OK, msg_session = session, msg_transaction = transaction,
      msg_param_count = of_nat (length params), msg_param = params @ replicate (5 - length params) 0\<rparr>"

definition msg_words :: "ptp_msg \<Rightarrow> u32 list" where
  "msg_words msg = [msg_id msg, msg_session msg, msg_transaction msg, msg_param_count msg] @ msg_param msg"

definition ptp_send :: "ptp_msg \<Rightarrow> 'a world_scheme \<Rightarrow> 'a world_scheme" where
  "ptp_send msg w = emit (Sys (Ptp_send (msg_words msg))) w"

record ptp_state = display +
  usb_state :: u32
  usb_prop :: u32

definition gui_unlock :: "'a world_scheme \<Rightarrow> 'a world_scheme" where
  "gui_unlock w = emit (Gui (Gui_lock 0 1 2)) w"

subsection \<open>Operations\<close>

text \<open>\<open>0x9999\<close>: a test message; \<open>context\<close> and \<open>handle\<close> are addresses that are only printed.\<close>

definition ptp_test ::
  "addr \<Rightarrow> addr \<Rightarrow> u32 \<Rightarrow> u32 \<Rightarrow> u32 \<Rightarrow> u32 \<Rightarrow> u32 \<Rightarrow> u32 \<Rightarrow> u32 \<Rightarrow> 'a world_scheme \<Rightarrow> 'a world_scheme" where
  "ptp_test context handle session transaction param1 param2 param3 param4 param5 w =
     gui_unlock (ptp_send (ok_msg session transaction [1, 2, 0xdeadbeef, 3])
       (emits [Draw (Bmp_printf FONT_MED 0 30 (''usb '' @ fmt_0x 8 context @ '' '' @ fmt_0x 8 handle)),
               Draw (Bmp_printf FONT_MED 0 50
                 (fmt_0x 8 param1 @ '' '' @ fmt_0x 8 param2 @ '' '' @ fmt_0x 8 param3 @ '' ''
                  @ fmt_0x 8 param4 @ '' '' @ fmt_0x 8 param5))] w))"

text \<open>\<open>0x9997\<close>: start recording.\<close>

definition ptp_movie_start :: "u32 \<Rightarrow> u32 \<Rightarrow> u32 \<Rightarrow> 'a world_scheme \<Rightarrow> 'a world_scheme" where
  "ptp_movie_start session transaction param1 w =
     ptp_send (ok_msg session transaction [param1]) (emit (Sys (Call_function ''MovieStart'')) w)"

text \<open>\<open>0x9996\<close>: read five words of memory, and \<open>0x9995\<close>: write a word, returning the old one.\<close>

definition ptp_dump :: "u32 \<Rightarrow> u32 \<Rightarrow> u32 \<Rightarrow> 'a display_scheme \<Rightarrow> 'a display_scheme" where
  "ptp_dump session transaction param1 s =
     ptp_send (ok_msg session transaction (map (\<lambda>k. load_word (mem s) (param1 + 4 * of_nat k)) [0..<5])) s"

definition ptp_write :: "u32 \<Rightarrow> u32 \<Rightarrow> u32 \<Rightarrow> u32 \<Rightarrow> 'a display_scheme \<Rightarrow> 'a display_scheme" where
  "ptp_write session transaction param1 param2 s =
     (let old = load_word (mem s) param1;
          s = s\<lparr>mem := store_word param1 param2 (mem s)\<rparr>
      in ptp_send (ok_msg session transaction [param1, old]) s)"

subsection \<open>Menu and registration\<close>

definition ptp_state_display :: "u32 \<Rightarrow> u32 \<Rightarrow> int \<Rightarrow> 'a ptp_state_scheme \<Rightarrow> 'a ptp_state_scheme" where
  "ptp_state_display x y selected s =
     emit (Draw (Bmp_printf (menu_font selected) x y
       (''PTP State:  '' @ fmt_0x 0 (usb_state s) @ '' '' @ fmt_0x 8 (load_word (mem s) (0xC0220000 + 0x34))))) s"

definition ptp_state_toggle :: "'a ptp_state_scheme \<Rightarrow> 'a ptp_state_scheme" where
  "ptp_state_toggle s =
     (let s = s\<lparr>usb_state := c_not (usb_state s)\<rparr>
      in emit (Prop (Prop_deliver (usb_prop s) 4)) s)"

record ptp_handler =
  pt_id :: u32
  pt_handler :: addr
  pt_priv :: u32

text \<open>\<open>handlers\<close> is the section the linker collects, \<open>menu\<close> the address of the menu entry.\<close>

definition ptp_init :: "answers \<Rightarrow> ptp_handler list \<Rightarrow> addr \<Rightarrow> 'a menu_state_scheme \<Rightarrow> 'a menu_state_scheme option" where
  "ptp_init orc handlers menu s =
     menu_add orc ''PTP'' menu 1
       (emits (map (\<lambda>h. Sys (Ptp_register_handler (pt_id h) (pt_handler h) (pt_priv h))) handlers) s)"

subsection \<open>The contract of an operation\<close>

fun replies :: "fw_event list \<Rightarrow> u32 list list" where
  "replies [] = []"
| "replies (Sys (Ptp_send ws) # es) = ws # replies es"
| "replies (e # es) = replies es"

lemma replies_append [simp]: "replies (xs @ ys) = replies xs @ replies ys"
  by (induction xs rule: replies.induct) auto

fun requests :: "(u32 \<Rightarrow> u32 \<Rightarrow> 'p \<Rightarrow> 's \<Rightarrow> 's) \<Rightarrow> (u32 \<times> u32 \<times> 'p) list \<Rightarrow> 's \<Rightarrow> 's" where
  "requests operation [] s = s"
| "requests operation ((session, transaction, p) # rs) s =
     requests operation rs (operation session transaction p s)"

locale ptp_operation =
  fixes operation :: "u32 \<Rightarrow> u32 \<Rightarrow> 'p \<Rightarrow> 'a world_scheme \<Rightarrow> 'a world_scheme"
  assumes one_reply: "\<exists>params. length params \<le> 5
    \<and> replies (trace (operation session transaction p w)) =
        replies (trace w) @ [msg_words (ok_msg session transaction params)]"
begin

lemma all_answered:
  "\<exists>ws. replies (trace (requests operation rs w)) = replies (trace w) @ ws
     \<and> map (take 3) ws = map (\<lambda>(session, transaction, p). [PTP_RC_OK, session, transaction]) rs
     \<and> (\<forall>w \<in> set ws. length w = 9)"
proof (induction rs arbitrary: w)
  case Nil
  then show ?case by simp
next
  case (Cons r rs)
  obtain session transaction p where r: "r = (session, transaction, p)" by (cases r)
  obtain params where p: "length params \<le> 5" "replies (trace (operation session transaction p w)) =
      replies (trace w) @ [msg_words (ok_msg session transaction params)]"
    using one_reply by blast
  obtain ws where "replies (trace (requests operation rs (operation session transaction p w))) =
      replies (trace (operation session transaction p w)) @ ws"
    "map (take 3) ws = map (\<lambda>(session, transaction, p). [PTP_RC_OK, session, transaction]) rs" "\<forall>w \<in> set ws. length w = 9"
    using Cons.IH by blast
  then show ?case using p
    by (intro exI [of _ "msg_words (ok_msg session transaction params) # ws"])
      (simp add: r msg_words_def ok_msg_def)
qed

end

lemmas ptp_defs = ptp_test_def ptp_movie_start_def ptp_dump_def ptp_write_def gui_unlock_def ptp_send_def Let_def

lemma ptp_sends_one:
  "length ps \<le> 5 \<Longrightarrow> replies (trace w') = replies (trace w) \<Longrightarrow>
   \<exists>params. length params \<le> 5 \<and> replies (trace (ptp_send (ok_msg session transaction ps) w')) =
     replies (trace w) @ [msg_words (ok_msg session transaction params)]"
  by (intro exI [of _ ps]) (simp add: ptp_send_def)

text \<open>The requests that reach the operations of \<open>ptp.c\<close>, by the code they are registered for.\<close>

datatype ptp_request =
  Op_9999 addr addr u32 u32 u32 u32 u32
| Op_9997 u32
| Op_9996 u32
| Op_9995 u32 u32

fun ptp_perform :: "u32 \<Rightarrow> u32 \<Rightarrow> ptp_request \<Rightarrow> 'a display_scheme \<Rightarrow> 'a display_scheme" where
  "ptp_perform session transaction (Op_9999 context handle p1 p2 p3 p4 p5) s =
     ptp_test context handle session transaction p1 p2 p3 p4 p5 s"
| "ptp_perform session transaction (Op_9997 p1) s = ptp_movie_start session transaction p1 s"
| "ptp_perform session transaction (Op_9996 p1) s = ptp_dump session transaction p1 s"
| "ptp_perform session transaction (Op_9995 p1 p2) s = ptp_write session transaction p1 p2 s"

interpretation ptp_ops: ptp_operation ptp_perform
proof
  fix session transaction and p :: ptp_request and s :: "'a display_scheme"
  have unlock: "replies (trace (gui_unlock w)) = replies (trace w)" for w :: "'b world_scheme"
    by (simp add: gui_unlock_def)
  show "\<exists>params. length params \<le> 5 \<and> replies (trace (ptp_perform session transaction p s)) =
      replies (trace s) @ [msg_words (ok_msg session transaction params)]"
    by (cases p)
      (simp_all only: ptp_perform.simps ptp_test_def ptp_movie_start_def ptp_dump_def ptp_write_def Let_def unlock,
       (rule ptp_sends_one, simp, simp add: emit_def)+)
qed

text \<open>C19: Whatever requests the host sends, each is answered by exactly one message of nine words
  that carries the code for success and the session and transaction of the request, in order.\<close>

theorem ptp_requests_answered:
  "\<exists>ws. replies (trace (requests ptp_perform rs s)) = replies (trace s) @ ws
     \<and> map (take 3) ws = map (\<lambda>(session, transaction, p). [PTP_RC_OK, session, transaction]) rs
     \<and> list_all (\<lambda>w. length w = 9) ws"
  using ptp_ops.all_answered [of rs s] by (simp add: list_all_iff)

subsection \<open>Memory access\<close>

text \<open>Writing a word of memory over PTP can be undone: the reply holds the old word, writing it
  back restores the whole memory, and in between a read of the address finds the new word.\<close>

theorem ptp_write_undone:
  "\<exists>old. replies (trace (ptp_write session transaction a v s)) = replies (trace s) @ [[PTP_RC_OK, session, transaction, 2, a, old, 0, 0, 0]]
     \<and> (\<exists>rest. replies (trace (ptp_dump session' transaction' a (ptp_write session transaction a v s)))
           = replies (trace (ptp_write session transaction a v s)) @ [[PTP_RC_OK, session', transaction', 5, v] @ rest])
     \<and> mem (ptp_write session' transaction' a old (ptp_write session transaction a v s)) = mem s"
proof (intro exI [of _ "load_word (mem s) a"] conjI)
  show "mem (ptp_write session' transaction' a (load_word (mem s) a) (ptp_write session transaction a v s)) = mem s"
    by (simp add: ptp_defs emit_def store_word_twice store_load_word)
qed (auto simp: ptp_defs emit_def msg_words_def ok_msg_def load_store_same eval_nat_numeral)

end
