(* ===== verification/Focus.thy ===== *)
theory Focus
  imports Lens Menu Ptp
begin

text \<open>
  \<open>focus.c\<close>: focus stacking, rack focus, the focus task and the PTP operation that moves the
  lens.  What the camera is told is read back from the trace by \<open>focus_steps\<close>.
\<close>

record focus_state = menu_state +
  focus_stack_step :: int
  focus_stack_count :: u32
  focus_dir :: u32
  focus_position :: int
  focus_task_dir :: int
  focus_task_delta :: int
  focus_rack_delta :: int
  focus_rack_speed :: int

definition FOCUS_MAX :: int where "FOCUS_MAX = 1700"

subsection \<open>Menu entries\<close>

definition focus_stack_unlock :: "'a focus_state_scheme \<Rightarrow> 'a focus_state_scheme" where
  "focus_stack_unlock s = emit (Sem (Give_semaphore Focus_stack_sem)) (gui_stop_menu s)"

definition display_lens_hyperfocal :: "fonts \<Rightarrow> lens_info \<Rightarrow> u32 \<Rightarrow> u32 \<Rightarrow> 'a world_scheme \<Rightarrow> 'a world_scheme" where
  "display_lens_hyperfocal fs info x y w =
     (let h = fontspec_height fs FONT_MED
      in emits
        [Draw (Bmp_printf FONT_MED x y (''Focal dist: '' @ focus_text (focus_dist info))),
         Draw (Bmp_printf FONT_MED x (y + h) (''Hyperfocal: '' @ lens_format_dist (hyperfocal info))),
         Draw (Bmp_printf FONT_MED x (y + h + h) (''DOF Near:   '' @ lens_format_dist (dof_near info))),
         Draw (Bmp_printf FONT_MED x (y + h + h + h)
           (''DOF Far:    '' @ (if dof_far info \<ge> 1000 * 1000 then '' Infnty'' else lens_format_dist (dof_far info))))] w)"

definition focus_dir_display :: "u32 \<Rightarrow> u32 \<Rightarrow> int \<Rightarrow> 'a focus_state_scheme \<Rightarrow> 'a focus_state_scheme" where
  "focus_dir_display x y selected s =
     emit (Draw (Bmp_printf (menu_font selected) x y
       (''Focus dir:  '' @ (if focus_dir s \<noteq> 0 then ''FAR '' else ''NEAR'')))) s"

definition focus_show_a :: "u32 \<Rightarrow> u32 \<Rightarrow> int \<Rightarrow> 'a focus_state_scheme \<Rightarrow> 'a focus_state_scheme" where
  "focus_show_a x y selected s =
     emit (Draw (Bmp_printf (menu_font selected) x y (''Focus A:    '' @ fmt_plus_d 5 (focus_task_delta s)))) s"

definition focus_reset_a :: "'a focus_state_scheme \<Rightarrow> 'a focus_state_scheme" where
  "focus_reset_a s = s\<lparr>focus_task_delta := 0\<rparr>"

definition focus_toggle :: "'a focus_state_scheme \<Rightarrow> 'a focus_state_scheme" where
  "focus_toggle s =
     (let s = s\<lparr>focus_task_delta := i32 (- focus_task_delta s)\<rparr>;
          s = s\<lparr>focus_rack_delta := focus_task_delta s\<rparr>
      in emit (Sem (Give_semaphore Focus_task_sem)) s)"

definition focus_rack_speed_display :: "u32 \<Rightarrow> u32 \<Rightarrow> int \<Rightarrow> 'a focus_state_scheme \<Rightarrow> 'a focus_state_scheme" where
  "focus_rack_speed_display x y selected s =
     emit (Draw (Bmp_printf (menu_font selected) x y (''Rack speed: '' @ fmt_d 2 (focus_rack_speed s)))) s"

definition next_rack_speed :: "int \<Rightarrow> int" where
  "next_rack_speed v = (let v = i32 ((v + 1) * 5) sdiv 4 in if v > 40 then 1 else v)"

definition focus_rack_speed_increment :: "'a focus_state_scheme \<Rightarrow> 'a focus_state_scheme" where
  "focus_rack_speed_increment s = s\<lparr>focus_rack_speed := next_rack_speed (focus_rack_speed s)\<rparr>"

definition lens_focus_start :: "int \<Rightarrow> 'a focus_state_scheme \<Rightarrow> 'a focus_state_scheme" where
  "lens_focus_start dir s =
     emit (Sem (Give_semaphore Focus_task_sem))
       (s\<lparr>focus_task_dir := (if dir = 0 then (if focus_dir s \<noteq> 0 then 1 else - 1) else dir)\<rparr>)"

definition lens_focus_stop :: "'a focus_state_scheme \<Rightarrow> 'a focus_state_scheme" where
  "lens_focus_stop s = s\<lparr>focus_task_dir := 0\<rparr>"

subsection \<open>Focus stacking\<close>

text \<open>\<open>jobs\<close> is the job state at each point of the history; the results of the pictures are not
  used.  The loop runs \<open>i\<close> from \<open>n - k\<close> to \<open>n\<close>.\<close>

fun focus_stack_loop ::
  "answers \<Rightarrow> (fw_event list \<Rightarrow> u32) \<Rightarrow> nat \<Rightarrow> int \<Rightarrow> 'a world_scheme \<Rightarrow> 'a world_scheme" where
  "focus_stack_loop orc jobs 0 step w = w"
| "focus_stack_loop orc jobs (Suc k) step w =
     (let w = snd (lens_take_picture orc (jobs (trace w)) (jobs (trace w)) 2000 w)
      in if k = 0 then w
         else focus_stack_loop orc jobs k step
                (emit (Sys (Msleep 50)) (lens_focus_wait (lens_focus orc 0xD step w))))"

declare focus_stack_loop.simps(2) [simp del]

text \<open>The step back is computed in unsigned arithmetic.\<close>

definition focus_stack ::
  "answers \<Rightarrow> (fw_event list \<Rightarrow> u32) \<Rightarrow> u32 \<Rightarrow> int \<Rightarrow> 'a world_scheme \<Rightarrow> 'a world_scheme" where
  "focus_stack orc jobs n step w =
     (let n = (if n > 15 then 15 else n);
          w = focus_stack_loop orc jobs (unat n) step w
      in lens_focus orc 0 (sint (word_of_int (- step) * (n - 1) :: u32)) w)"

definition focus_stack_task_step ::
  "answers \<Rightarrow> (fw_event list \<Rightarrow> u32) \<Rightarrow> 'a focus_state_scheme \<Rightarrow> 'a focus_state_scheme" where
  "focus_stack_task_step orc jobs s =
     (let (rc, s) = ask orc (Sem (Take_semaphore Focus_stack_sem 1000)) s
      in if rc \<noteq> 0 then s
         else focus_stack orc jobs (focus_stack_count s) (focus_stack_step s)
                (emits [Draw (Bmp_printf FONT_SMALL 400 30 ''Focus stack''), Sys (Msleep 100)] s))"

subsection \<open>Rack focus and the focus task\<close>

text \<open>The speed is at least 1 when the loop starts, and stays so while \<open>delta\<close> is not 0.\<close>

function rack_loop :: "answers \<Rightarrow> int \<Rightarrow> int \<Rightarrow> int \<Rightarrow> 'a world_scheme \<Rightarrow> 'a world_scheme" where
  "rack_loop orc speed delta speed_cmd w =
     (if delta = 0 \<or> speed \<le> 0 then w
      else
        let speed = (if speed > delta then delta else speed)
        in rack_loop orc speed (delta - speed) speed_cmd (lens_focus orc 0x7 speed_cmd w))"
  by pat_completeness auto
termination by (relation "measure (\<lambda>(orc, speed, delta, cmd, w). nat \<bar>delta\<bar>)") auto

declare rack_loop.simps [simp del]

definition rack_focus :: "answers \<Rightarrow> int \<Rightarrow> int \<Rightarrow> 'a world_scheme \<Rightarrow> 'a world_scheme" where
  "rack_focus orc speed delta w =
     (let speed = (if speed \<le> 0 then 1 else speed);
          speed_cmd = (if delta < 0 then - speed else speed);
          delta = (if delta < 0 then i32 (- delta) else delta)
      in rack_loop orc speed delta speed_cmd w)"

definition next_step :: "int \<Rightarrow> int" where
  "next_step step =
     (if step > 0 \<and> step < 1000 then ((step + 1) * 100) sdiv 99
      else if step < 0 \<and> step > - 1000 then ((step - 1) * 100) sdiv 99
      else step)"

text \<open>The inner loop runs until another task clears the direction: \<open>k\<close> turns.\<close>

fun focus_run :: "answers \<Rightarrow> nat \<Rightarrow> int \<Rightarrow> 'a focus_state_scheme \<Rightarrow> 'a focus_state_scheme" where
  "focus_run orc 0 step s = s"
| "focus_run orc (Suc k) step s =
     (let s = lens_focus orc 1 step s;
          s = s\<lparr>focus_task_delta := i32 (focus_task_delta s + step)\<rparr>
      in focus_run orc k (next_step step) (emit (Sys (Msleep 50)) s))"

definition focus_task_step :: "answers \<Rightarrow> nat \<Rightarrow> 'a focus_state_scheme \<Rightarrow> 'a focus_state_scheme" where
  "focus_task_step orc k s =
     (let (rc, s) = ask orc (Sem (Take_semaphore Focus_task_sem 1000)) s
      in if rc \<noteq> 0 then s
         else if focus_rack_delta s \<noteq> 0
         then (rack_focus orc (focus_rack_speed s) (focus_rack_delta s) (gui_hide_menu 10 s))\<lparr>focus_rack_delta := 0\<rparr>
         else if focus_task_dir s = 0 then s
         else focus_run orc k (focus_task_dir s) s)"

definition focus_init :: "answers \<Rightarrow> addr \<Rightarrow> 'a menu_state_scheme \<Rightarrow> 'a menu_state_scheme option" where
  "focus_init orc focus_menu s =
     menu_add orc ''Focus'' focus_menu 6
       (emits [Sem (Create_named_semaphore Focus_stack_sem ''focus_stack_sem'' 0),
               Sem (Create_named_semaphore Focus_task_sem ''focus_task_sem'' 1)] s)"

subsection \<open>The PTP operation\<close>

definition ptp_focus :: "answers \<Rightarrow> u32 \<Rightarrow> u32 \<Rightarrow> u32 \<Rightarrow> 'a focus_state_scheme \<Rightarrow> 'a focus_state_scheme" where
  "ptp_focus orc session transaction param1 s =
     (let pos = i32 (focus_position s + sint param1);
          pos = (if pos < 0 then 0 else if pos > FOCUS_MAX then FOCUS_MAX else pos);
          s = lens_focus orc 0x7 (sint param1) (s\<lparr>focus_position := pos\<rparr>)
      in ptp_send (ok_msg session transaction [param1, word_of_int pos])
           (emit (Draw (Bmp_printf FONT_MED 650 35 (fmt_0d 4 pos))) s))"

subsection \<open>What the lens was told\<close>

fun focus_steps :: "fw_event list \<Rightarrow> int list" where
  "focus_steps [] = []"
| "focus_steps (Prop (Prop_request_change p b) # es) =
     (if p = PROP_LV_FOCUS then [focus_step b] else []) @ focus_steps es"
| "focus_steps (e # es) = focus_steps es"

fun releases :: "fw_event list \<Rightarrow> nat" where
  "releases [] = 0"
| "releases (Sys (Call_function f) # es) = (if f = ''Release'' then 1 else 0) + releases es"
| "releases (e # es) = releases es"

lemma focus_steps_append [simp]: "focus_steps (xs @ ys) = focus_steps xs @ focus_steps ys"
  by (induction xs rule: focus_steps.induct) auto

lemma releases_append [simp]: "releases (xs @ ys) = releases xs + releases ys"
  by (induction xs rule: releases.induct) auto

text \<open>Every semaphore is granted.\<close>

definition no_timeouts :: "answers \<Rightarrow> bool" where
  "no_timeouts orc \<longleftrightarrow> (\<forall>es sem t. orc (es @ [Sem (Take_semaphore sem t)]) = 0)"

definition short :: "int \<Rightarrow> bool" where
  "short step \<longleftrightarrow> - (2 ^ 15) \<le> step \<and> step < 2 ^ 15"

lemma i32_abs: "\<bar>x\<bar> < 2147483648 \<Longrightarrow> i32 x = x"
  by (rule i32_id) simp_all

lemma focus_step_short: "short step \<Longrightarrow> focus_step (prop_focus mode step) = step"
  unfolding short_def by (rule focus_step_read) auto

lemma steps_lens_focus:
  "no_timeouts orc \<Longrightarrow> short step \<Longrightarrow>
   focus_steps (trace (lens_focus orc mode step w)) = focus_steps (trace w) @ [step]"
  by (simp add: lens_focus_def ask_def no_timeouts_def focus_step_short)

lemma releases_lens_focus: "releases (trace (lens_focus orc mode step w)) = releases (trace w)"
  by (simp add: lens_focus_def ask_def Let_def)

lemma steps_picture:
  "no_timeouts orc \<Longrightarrow> focus_steps (trace (snd (lens_take_picture orc a b t w))) = focus_steps (trace w)"
  by (simp add: lens_take_picture_def ask_def no_timeouts_def Let_def)

lemma releases_picture:
  "no_timeouts orc \<Longrightarrow> releases (trace (snd (lens_take_picture orc a b t w))) = releases (trace w) + 1"
  by (simp add: lens_take_picture_def ask_def no_timeouts_def Let_def)

lemma stack_loop_steps:
  "no_timeouts orc \<Longrightarrow> short step \<Longrightarrow>
   focus_steps (trace (focus_stack_loop orc jobs k step w)) = focus_steps (trace w) @ replicate (k - 1) step
   \<and> releases (trace (focus_stack_loop orc jobs k step w)) = releases (trace w) + k"
proof (induction k arbitrary: w)
  case 0
  then show ?case by simp
next
  case (Suc k)
  let ?w = "snd (lens_take_picture orc (jobs (trace w)) (jobs (trace w)) 2000 w)"
  let ?w' = "emit (Sys (Msleep 50)) (lens_focus_wait (lens_focus orc 0xD step ?w))"
  have "focus_steps (trace ?w') = focus_steps (trace w) @ [step]" "releases (trace ?w') = releases (trace w) + 1"
    using Suc.prems by (simp_all add: lens_focus_wait_def steps_lens_focus releases_lens_focus steps_picture releases_picture)
  then show ?case
    using Suc.IH [of ?w'] Suc.prems
    by (cases k) (simp_all add: Let_def focus_stack_loop.simps(2) steps_picture releases_picture del: emits.simps)
qed

lemma rack_loop_done: "rack_loop orc speed 0 cmd w = w"
  by (simp add: rack_loop.simps)

lemma rack_loop_steps:
  assumes "no_timeouts orc" and "short cmd" and "0 < speed" and "0 \<le> delta"
  shows "focus_steps (trace (rack_loop orc speed delta cmd w))
    = focus_steps (trace w) @ replicate (nat ((delta + speed - 1) div speed)) cmd"
  using assms(4)
proof (induction "nat delta" arbitrary: delta w rule: less_induct)
  case less
  consider "delta = 0" | "0 < delta" "delta \<le> speed" | "speed < delta" using less.prems assms(3) by linarith
  then show ?case
  proof cases
    case 1
    then show ?thesis using assms(3) by (simp add: rack_loop_done)
  next
    case 2
    have "rack_loop orc speed delta cmd w = lens_focus orc 7 cmd w"
      using 2 by (subst rack_loop.simps) (auto simp: rack_loop_done Let_def)
    moreover have "(delta + speed - 1) div speed = 1"
      using 2 assms(3) by (intro int_div_pos_eq [of _ _ 1 "delta - 1"]) auto
    ultimately show ?thesis using steps_lens_focus [OF assms(1,2)] by simp
  next
    case 3
    let ?d = "delta - speed"
    have "rack_loop orc speed delta cmd w = rack_loop orc speed ?d cmd (lens_focus orc 7 cmd w)"
      using 3 assms(3) by (subst rack_loop.simps) (simp add: Let_def)
    moreover have "(delta + speed - 1) div speed = (?d + speed - 1) div speed + 1"
      using div_add_self2 [of speed "?d + speed - 1"] assms(3) by (simp add: algebra_simps)
    moreover have "0 \<le> (?d + speed - 1) div speed" using 3 assms(3) by (intro pos_imp_zdiv_nonneg_iff [THEN iffD2]) auto
    ultimately show ?thesis
      using less.hyps [of ?d] 3 assms(3) steps_lens_focus [OF assms(1,2)]
      by (simp add: nat_add_distrib)
  qed
qed

subsection \<open>Rack speed\<close>

definition rack_speeds :: "int set" where
  "rack_speeds = {1, 2, 3, 5, 7, 10, 13, 17, 22, 28, 36}"

lemma next_rack_speed_eq:
  "0 \<le> v \<Longrightarrow> v < 1000 \<Longrightarrow> next_rack_speed v = (if (v + 1) * 5 div 4 > 40 then 1 else (v + 1) * 5 div 4)"
  by (simp add: next_rack_speed_def i32_id signed_divide_int_def sgn_if Let_def)

interpretation rack_key: cyclic_setting next_rack_speed "\<lambda>v. v \<in> rack_speeds" 11
  by unfold_locales (auto simp: rack_speeds_def next_rack_speed_eq eval_nat_numeral)


text \<open>The last step of a stack, computed on 32 bits: it undoes the steps before it, and a stack of no
  pictures makes one step more.\<close>

lemma stack_home:
  fixes n :: u32
  assumes "short step" and "short (15 * step)" and "n \<le> 15"
  shows "sint (word_of_int (- step) * (n - 1) :: u32) = (if n = 0 then step else - step * int (unat n - 1))"
    and "short (sint (word_of_int (- step) * (n - 1) :: u32))"
proof -
  have k: "unat n \<le> 15" using assms(3) word_le_nat_alt [of n 15] by simp
  have s: "\<bar>step\<bar> \<le> 32768" "15 * \<bar>step\<bar> \<le> 32768" using assms(1,2) by (auto simp: short_def)
  have le: "\<bar>- step * int (unat n - 1)\<bar> \<le> \<bar>step\<bar> * 14"
    using k by (auto simp: abs_mult intro: mult_left_mono)
  show home: "sint (word_of_int (- step) * (n - 1) :: u32) = (if n = 0 then step else - step * int (unat n - 1))"
  proof (cases "n = 0")
    case True
    have "word_of_int (- step) * (0 - 1 :: u32) = word_of_int step" by simp
    then show ?thesis using True assms(1) by (simp only: sint_word_of_int_u32 i32_id short_def if_True) (simp add: i32_id)
  next
    case False
    then have "unat (n - 1) = unat n - 1" by (simp add: unat_minus_one)
    then have "n - 1 = word_of_int (int (unat n - 1))" by (metis of_int_of_nat_eq of_nat_unat ucast_id)
    then have "word_of_int (- step) * (n - 1) = word_of_int (- step * int (unat n - 1))" by (simp only: of_int_mult)
    moreover have "\<bar>- step * int (unat n - 1)\<bar> < 2147483648" using le s by linarith
    ultimately show ?thesis using False by (simp only: sint_word_of_int_u32 i32_abs if_False)
  qed
  have "\<bar>- step * int (unat n - 1)\<bar> < 32768" using le s by linarith
  then show "short (sint (word_of_int (- step) * (n - 1) :: u32))"
    unfolding home using assms(1) by (auto simp: short_def)
qed

subsection \<open>The properties\<close>





text \<open>The PTP focus operation keeps the tracked position inside its range, whatever step the host
  sends and whatever the position was.\<close>

theorem ptp_focus_range:
  "0 \<le> focus_position (ptp_focus orc session transaction step s)
    \<and> focus_position (ptp_focus orc session transaction step s) \<le> FOCUS_MAX"
proof -
  have "focus_position (ptp_send msg (emit e (lens_focus orc m v t))) = focus_position t"
    for msg e m v and t :: "'a focus_state_scheme"
    by (simp add: ptp_send_def lens_focus_def ask_def emit_def)
  then show ?thesis by (simp add: ptp_focus_def Let_def FOCUS_MAX_def)
qed

text \<open>The rack speed setting, once on its cycle of eleven speeds, stays on it; eleven presses
  come back to the same speed.\<close>

theorem rack_speed_cycle:
  assumes "focus_rack_speed s \<in> rack_speeds"
  shows "focus_rack_speed ((focus_rack_speed_increment ^^ n) s) \<in> rack_speeds
    \<and> focus_rack_speed ((focus_rack_speed_increment ^^ (11 * n)) s) = focus_rack_speed s"
proof -
  have "focus_rack_speed ((focus_rack_speed_increment ^^ k) s) = (next_rack_speed ^^ k) (focus_rack_speed s)" for k
    by (induction k) (simp_all add: focus_rack_speed_increment_def)
  then show ?thesis
    using rack_key.presses_valid [OF assms, of n] rack_key.presses_cycle [OF assms, of n] by (simp add: mult.commute)
qed

definition sample_focus :: focus_state where
  "sample_focus = \<lparr>trace = [], menus = 0, menu_heap = menu_heap two_menus, entry_heap = entry_heap two_menus,
     menu_damage = 0, menu_hidden = 0, menu_timeout = 0, gui_menu_task = 0, draw_event = 0,
     menu_timeout_time = 15, focus_stack_step = 100, focus_stack_count = 5, focus_dir = 0,
     focus_position = 0, focus_task_dir = 0, focus_task_delta = 0, focus_rack_delta = 0, focus_rack_speed = 7\<rparr>"

theorem rack_speed_cycle_witness:
  "focus_rack_speed ((focus_rack_speed_increment ^^ (11 * 3)) sample_focus) = 7"
  using rack_speed_cycle [of sample_focus 3] by (simp add: sample_focus_def rack_speeds_def)

subsection \<open>The contract of a PTP operation\<close>

lemma replies_lens_focus: "replies (trace (lens_focus orc m v s)) = replies (trace s)"
  by (simp add: lens_focus_def ask_def emit_def Let_def)

interpretation ptp_9998: ptp_operation "ptp_focus orc" for orc
proof
  fix session transaction p and s :: "'a focus_state_scheme"
  show "\<exists>params. length params \<le> 5 \<and> replies (trace (ptp_focus orc session transaction p s)) =
      replies (trace s) @ [msg_words (ok_msg session transaction params)]"
    unfolding ptp_focus_def Let_def
    by (rule ptp_sends_one) (simp_all add: replies_lens_focus)
qed

end
