(* ===== verification/Bracket.thy ===== *)
theory Bracket
  imports Lens Menu
begin

text \<open>
  \<open>bracket.c\<close>: the auto exposure bracket, its two settings and their menu entries.
\<close>

record bracket_state = menu_state +
  ae_count :: int
  ae_step :: int

definition bracket_start :: "'a bracket_state_scheme \<Rightarrow> 'a bracket_state_scheme" where
  "bracket_start s = emit (Sem (Give_semaphore Bracket_sem)) (gui_stop_menu s)"

datatype ae_setting = Ae_count | Ae_step | Ae_other int

definition ae_display :: "ae_setting \<Rightarrow> u32 \<Rightarrow> u32 \<Rightarrow> int \<Rightarrow> 'a bracket_state_scheme \<Rightarrow> 'a bracket_state_scheme" where
  "ae_display priv x y selected s =
     emit (Draw (Bmp_printf (menu_font selected) x y
       (case priv of
          Ae_count \<Rightarrow> ''AE Count:   '' @ fmt_d 2 (ae_count s)
        | Ae_step \<Rightarrow> ''AE Step:    '' @ fmt_d 2 (ae_step s)
        | Ae_other v \<Rightarrow> ''AE ?????:   '' @ fmt_d 2 v))) s"

definition next_ae_count :: "int \<Rightarrow> int" where
  "next_ae_count v = (if v + 2 > 13 then 3 else v + 2)"

definition next_ae_step :: "int \<Rightarrow> int" where
  "next_ae_step v = (if v + 1 > 8 then 1 else v + 1)"

definition ae_adjust_count :: "'a bracket_state_scheme \<Rightarrow> 'a bracket_state_scheme" where
  "ae_adjust_count s = s\<lparr>ae_count := next_ae_count (ae_count s)\<rparr>"

definition ae_adjust_step :: "'a bracket_state_scheme \<Rightarrow> 'a bracket_state_scheme" where
  "ae_adjust_step s = s\<lparr>ae_step := next_ae_step (ae_step s)\<rparr>"

text \<open>The loop over the exposures, from index \<open>i\<close> up to \<open>hi\<close>.\<close>

function bracket_loop ::
  "answers \<Rightarrow> (fw_event list \<Rightarrow> u32) \<Rightarrow> int \<Rightarrow> int \<Rightarrow> int \<Rightarrow> int \<Rightarrow> 'a world_scheme \<Rightarrow> 'a world_scheme" where
  "bracket_loop orc jobs ae step i hi w =
     (if i > hi then w
      else
        let w = lens_set_ae (i32 (ae + step * i)) w
        in bracket_loop orc jobs ae step (i + 1) hi
             (snd (lens_take_picture orc (jobs (trace w)) (jobs (trace w)) 1000 w)))"
  by pat_completeness auto
termination by (relation "measure (\<lambda>(orc, jobs, ae, step, i, hi, w). nat (hi - i + 1))") auto

declare bracket_loop.simps [simp del]

text \<open>One turn of the task.\<close>

definition bracket_task_step ::
  "answers \<Rightarrow> (fw_event list \<Rightarrow> u32) \<Rightarrow> 'a bracket_state_scheme \<Rightarrow> 'a bracket_state_scheme" where
  "bracket_task_step orc jobs s =
     (let s = emits [Sem (Take_semaphore Bracket_sem 0), Draw (Bmp_printf FONT_SMALL 400 30 ''bracket_task: Awake'')] s;
          ae = lens_get_ae;
          s = emit (Sys (Msleep 100)) s;
          s = bracket_loop orc jobs ae (ae_step s) ((- ae_count s) sdiv 2) (ae_count s sdiv 2) s
      in lens_set_ae ae s)"

definition bracket_task_init :: "answers \<Rightarrow> addr \<Rightarrow> 'a menu_state_scheme \<Rightarrow> 'a menu_state_scheme option" where
  "bracket_task_init orc bracket_menu s =
     menu_add orc ''Brack'' bracket_menu 3 (emit (Sem (Create_named_semaphore Bracket_sem ''bracket_sem'' 0)) s)"

subsection \<open>Settings\<close>

definition good_count :: "int \<Rightarrow> bool" where "good_count v \<longleftrightarrow> v \<in> {3, 5, 7, 9, 11, 13}"
definition good_step :: "int \<Rightarrow> bool" where "good_step v \<longleftrightarrow> v \<in> {1, 2, 3, 4, 5, 6, 7, 8}"

interpretation count_key: cyclic_setting next_ae_count good_count 6
  by unfold_locales (auto simp: next_ae_count_def good_count_def eval_nat_numeral)

interpretation step_key: cyclic_setting next_ae_step good_step 8
  by unfold_locales (auto simp: next_ae_step_def good_step_def eval_nat_numeral)

subsection \<open>The exposures\<close>

text \<open>The values written to the auto exposure property, in order.\<close>

fun exposures :: "fw_event list \<Rightarrow> int list" where
  "exposures [] = []"
| "exposures (Prop (Prop_request_change p b) # es) =
     (if p = PROP_AE then [sint (buf32 b)] else []) @ exposures es"
| "exposures (e # es) = exposures es"

lemma exposures_append [simp]: "exposures (xs @ ys) = exposures xs @ exposures ys"
  by (induction xs rule: exposures.induct) auto

lemma exposures_set_ae: "exposures (trace (lens_set_ae v w)) = exposures (trace w) @ [i32 v]"
  by (simp add: lens_set_ae_def prop_request_u32_def buf32_bytes_of sint_word_of_int_u32)

lemma exposures_picture: "exposures (trace (snd (lens_take_picture orc a b t w))) = exposures (trace w)"
  by (simp add: lens_take_picture_def ask_def Let_def)

lemma ae_emit [simp]: "ae_step (emit e s) = ae_step s" "ae_count (emit e s) = ae_count s"
  by (simp_all add: emit_def)

lemma i32_i32: "i32 (i32 x) = i32 x"
  using i32_range [of x] by (intro i32_id) auto

lemma exposures_loop:
  "exposures (trace (bracket_loop orc jobs ae step i hi w))
    = exposures (trace w) @ map (\<lambda>j. i32 (ae + step * j)) [i..hi]"
proof (induction orc jobs ae step i hi w rule: bracket_loop.induct)
  case (1 orc jobs ae step i hi w)
  show ?case
  proof (cases "i > hi")
    case True
    then show ?thesis by (simp add: bracket_loop.simps)
  next
    case False
    then have "[i..hi] = i # [i + 1..hi]" by (simp add: upto_rec1)
    then show ?thesis
      using False "1.IH" [OF False refl]
      by (subst bracket_loop.simps) (simp add: Let_def exposures_set_ae exposures_picture i32_i32)
  qed
qed

subsection \<open>The properties\<close>

text \<open>Pressing the count entry cycles through the odd counts from 3 to 13: it never leaves them,
  and \<open>n\<close> presses do what \<open>n mod 6\<close> presses do.\<close>

theorem ae_count_cycle:
  assumes "good_count (ae_count s)"
  shows "(ae_adjust_count ^^ n) s = s\<lparr>ae_count := (next_ae_count ^^ (n mod 6)) (ae_count s)\<rparr>
    \<and> good_count (ae_count ((ae_adjust_count ^^ n) s))"
proof -
  have "(ae_adjust_count ^^ n) s = s\<lparr>ae_count := (next_ae_count ^^ n) (ae_count s)\<rparr>"
    by (induction n) (simp_all add: ae_adjust_count_def)
  then show ?thesis
    using count_key.presses_mod [OF assms, of n] count_key.presses_valid [OF assms, of n] by simp
qed

definition sample_bracket :: bracket_state where
  "sample_bracket = \<lparr>trace = [], menus = 0, menu_heap = menu_heap two_menus, entry_heap = entry_heap two_menus,
     menu_damage = 0, menu_hidden = 0, menu_timeout = 0, gui_menu_task = 0, draw_event = 0,
     menu_timeout_time = 15, ae_count = 5, ae_step = 3\<rparr>"

theorem ae_count_cycle_witness:
  "ae_count ((ae_adjust_count ^^ 8) sample_bracket) = 9"
  using ae_count_cycle [of sample_bracket 8]
  by (simp add: sample_bracket_def good_count_def next_ae_count_def numeral_2_eq_2)



end
