(* ===== verification/Zebra.thy ===== *)
theory Zebra
  imports Property Menu
begin

text \<open>
  \<open>zebra.c\<close>: zebras, edge detection, crop marks, histogram and waveform over the live view.
  The image is read from the same memory the bitmap is written to.  The settings are a record
  of the configuration variables; the two volatile flags that another task may change while
  the picture is drawn are a function of the pixel.
\<close>

record vram_info =
  vram :: addr
  vram_width :: u32
  vram_pitch :: u32
  vram_height :: u32
  vram_number :: u32

record zebra_config =
  zebra_draw :: u32
  zebra_level :: u32
  crop_draw :: u32
  edge_draw :: u32
  hist_draw :: u32
  hist_x :: u32
  hist_y :: u32
  waveform_draw :: u32
  waveform_x :: u32
  waveform_y :: u32
  waveform_bg :: u32
  timecode_x :: u32
  timecode_y :: u32
  timecode_width :: u32
  timecode_height :: u32
  timecode_warning :: u32

record zebra_state = display +
  cropmarks :: "bmp_picture option"
  lv_drawn :: u32
  sensor_cleaning :: u32
  hist :: "u32 list"
  waveform :: "u32 list list"
  hist_max :: u32

definition vram_start_line :: nat where "vram_start_line = 33"
definition vram_end_line :: nat where "vram_end_line = 380"
definition hist_height :: nat where "hist_height = 64"
definition hist_width :: nat where "hist_width = 128"
definition waveform_height :: nat where "waveform_height = 256"
definition waveform_width :: nat where "waveform_width = 360"

lemmas size_defs = vram_start_line_def vram_end_line_def hist_height_def hist_width_def
  waveform_height_def waveform_width_def

subsection \<open>The overlays\<close>

definition lo16 :: "u32 \<Rightarrow> int" where "lo16 v = uint (v AND 0xFFFF)"
definition hi16 :: "u32 \<Rightarrow> int" where "hi16 v = uint (drop_bit 16 v)"

text \<open>The branch-free absolute value, which shifts by 15 in 32-bit integers.\<close>

definition abs15 :: "int \<Rightarrow> int" where
  "abs15 x = (x XOR drop_bit 15 x) - drop_bit 15 x"

definition edge_detect :: "memory \<Rightarrow> addr \<Rightarrow> u32 \<Rightarrow> u32" where
  "edge_detect m buf pitch =
     (let pixel1 = load_word m buf;
          p00 = lo16 pixel1;
          p01 = hi16 pixel1;
          p02 = lo16 (load_word m (buf + 4));
          pixel3 = load_word m (buf + 4 * pitch);
          p10 = lo16 pixel3;
          p11 = hi16 pixel3;
          p12 = lo16 (load_word m (buf + 4 * (pitch + 1)));
          sx1 = abs15 (p00 - p11);
          sy1 = abs15 (p01 - p10);
          sx2 = abs15 (p01 - p12);
          sy2 = abs15 (p02 - p11)
      in word_of_int ((drop_bit 1 (sx2 + sy2) AND 0xFF00) OR drop_bit 9 (sx1 + sy1)))"

definition store_half :: "addr \<Rightarrow> u16 \<Rightarrow> memory \<Rightarrow> memory" where
  "store_half a v m = m(a := ucast v, a + 1 := ucast (drop_bit 8 v))"

definition load_half :: "memory \<Rightarrow> addr \<Rightarrow> u16" where
  "load_half m a = ucast (m a) OR push_bit 8 (ucast (m (a + 1)))"

text \<open>An overlay gets the pixel, the addresses of its bitmap and image rows and the memory, and
  returns the memory it has drawn to, or \<open>None\<close> when it leaves the pixel alone.\<close>

type_synonym overlay = "u32 \<Rightarrow> u32 \<Rightarrow> addr \<Rightarrow> addr \<Rightarrow> memory \<Rightarrow> memory option"

definition check_edge :: "u32 \<Rightarrow> overlay" where
  "check_edge pitch x y b_row v_row m =
     (let dx = x div 2;
          grad = edge_detect m (v_row + 4 * dx) pitch
      in if grad AND 0xF8F8 = 0 then None
         else Some (store_half (b_row + 2 * dx) (ucast (0x7070 OR drop_bit 3 (grad AND 0xF8F8))) m))"

definition check_zebra :: "u32 \<Rightarrow> overlay" where
  "check_zebra level x y b_row v_row m =
     (let pixel = load_word m (v_row + 4 * (x div 2));
          p0 = drop_bit 16 pixel AND 0xFFFF;
          p1 = pixel AND 0xFFFF
      in if p0 < level \<and> p1 < level then None
         else
           let zag = (drop_bit 3 y XOR drop_bit 3 x) AND 1
           in Some (store_half (b_row + 2 * (x div 2)) (if zag \<noteq> 0 then 0x0303 else 0x5F5F) m))"

definition picture_width :: "bmp_picture \<Rightarrow> u32" where
  "picture_width p = le32_at (\<lambda>k. if k < length (content p) then content p ! k else 0) 18"

definition picture_height :: "bmp_picture \<Rightarrow> u32" where
  "picture_height p = le32_at (\<lambda>k. if k < length (content p) then content p ! k else 0) 22"

definition check_crop :: "bmp_picture option \<Rightarrow> overlay" where
  "check_crop crop x y b_row v_row m =
     (case crop of
        None \<Rightarrow> None
      | Some p \<Rightarrow>
          (let pix = load_half m (image p + x + picture_width p * (picture_height p - y))
           in if pix = 0 then None else Some (store_half (b_row + 2 * (x div 2)) pix m)))"

text \<open>
  What the drawing loop relies on: an overlay changes no byte but the two of its pixel pair.
\<close>

locale overlays =
  fixes check :: overlay
  assumes two_bytes: "check x y b v m = Some m' \<Longrightarrow> a \<noteq> b + 2 * (x div 2) \<Longrightarrow> a \<noteq> b + 2 * (x div 2) + 1 \<Longrightarrow> m' a = m a"
begin

lemma drawn_frame: "a \<notin> {b + 2 * (x div 2), b + 2 * (x div 2) + 1} \<Longrightarrow>
    (case check x y b v m of None \<Rightarrow> m | Some m' \<Rightarrow> m') a = m a"
  using two_bytes by (auto split: option.splits)

end

lemma store_half_frame: "a \<noteq> p \<Longrightarrow> a \<noteq> p + 1 \<Longrightarrow> store_half p v m a = m a"
  by (simp add: store_half_def)

interpretation edge_ov: overlays "check_edge pitch" for pitch
  by unfold_locales (auto simp: check_edge_def Let_def store_half_frame split: if_splits)

interpretation zebra_ov: overlays "check_zebra level" for level
  by unfold_locales (auto simp: check_zebra_def Let_def store_half_frame split: if_splits)

interpretation crop_ov: overlays "check_crop picture" for picture
  by unfold_locales (auto simp: check_crop_def Let_def store_half_frame split: if_splits option.splits)

subsection \<open>Histogram and waveform\<close>

definition bump_list :: "nat \<Rightarrow> u32 list \<Rightarrow> u32 list" where
  "bump_list i xs = xs[i := xs ! i + 1]"

text \<open>One pair of pixels.\<close>

definition hist_pixel :: "u32 \<Rightarrow> u32 \<Rightarrow> u32 \<Rightarrow> 'a zebra_state_scheme \<Rightarrow> 'a zebra_state_scheme" where
  "hist_pixel width x pixel s =
     (let p1 = drop_bit 16 pixel AND 0xFFFF;
          p2 = pixel AND 0xFFFF;
          p = (p1 + p2) div 2;
          level = unat ((p * of_nat hist_width) div 65536);
          s = s\<lparr>hist := bump_list level (hist s)\<rparr>;
          c = hist s ! level;
          s = (if level \<noteq> 0 \<and> c > hist_max s then s\<lparr>hist_max := c\<rparr> else s);
          column = unat ((x * of_nat waveform_width) div width);
          line = unat ((p * of_nat waveform_height) div 65536)
      in s\<lparr>waveform := (waveform s)[column := bump_list line (waveform s ! column)]\<rparr>)"

definition hist_row :: "vram_info \<Rightarrow> addr \<Rightarrow> 'a zebra_state_scheme \<Rightarrow> 'a zebra_state_scheme" where
  "hist_row v row s =
     fold (\<lambda>k s. hist_pixel (vram_width v) (2 * of_nat k) (load_word (mem s) (row + 4 * of_nat k)) s)
       [0..<(unat (vram_width v) + 1) div 2] s"

definition hist_clear :: "'a zebra_state_scheme \<Rightarrow> 'a zebra_state_scheme" where
  "hist_clear s = s\<lparr>hist_max := 0, hist := replicate hist_width 0,
     waveform := replicate waveform_width (replicate waveform_height 0)\<rparr>"

definition hist_build :: "vram_info \<Rightarrow> 'a zebra_state_scheme \<Rightarrow> 'a zebra_state_scheme" where
  "hist_build v s =
     fold (\<lambda>i. hist_row v (vram v + 4 * (of_nat i * (vram_pitch v div 2))))
       [0..<vram_end_line - vram_start_line] (hist_clear s)"

definition hist_draw_image :: "u32 \<Rightarrow> u32 \<Rightarrow> 'a zebra_state_scheme \<Rightarrow> 'a zebra_state_scheme" where
  "hist_draw_image x_origin y_origin s =
     (let x_origin = x_origin AND NOT 3;
          row = bmp_vram s + x_origin + y_origin * bmp_pitch;
          top = (if hist_max s = 0 then 1 else hist_max s);
          s = s\<lparr>mem := fold (\<lambda>i m.
                (let bar = (hist s ! i * of_nat hist_height) div top
                 in fold (\<lambda>j m. m(row + of_nat i + of_nat j * bmp_pitch :=
                        (if of_nat (hist_height - j) > bar then ucast COLOR_BG else ucast COLOR_WHITE)))
                      [0..<hist_height] m))
                [0..<hist_width] (mem s)\<rparr>;
          s = bmp_fill (ucast COLOR_BG) (x_origin + of_nat hist_width) y_origin 4 (of_nat hist_height) s
      in s\<lparr>hist_max := 0\<rparr>)"

definition wave_color :: "u32 \<Rightarrow> nat \<Rightarrow> u32 \<Rightarrow> u32" where
  "wave_color bg y n =
     (let c = (n * 42) div 128
      in if c > 42 then 0x0F
         else if c > 0 then c + 0x26
         else if y = waveform_height * 1 div 4 then COLOR_BLUE
         else if y = waveform_height * 2 div 4 then 0xE
         else if y = waveform_height * 3 div 4 then COLOR_BLUE
         else bg)"

text \<open>Four pixels are shifted into a word, the first one ending up in its top byte.\<close>

definition wave_word :: "u32 \<Rightarrow> u32 list list \<Rightarrow> nat \<Rightarrow> nat \<Rightarrow> u32" where
  "wave_word bg wave y g =
     fold (\<lambda>k pixel. push_bit 8 pixel OR wave_color bg y (wave ! (4 * g + k) ! y)) [0..<4] 0"

definition waveform_draw_image :: "u32 \<Rightarrow> u32 \<Rightarrow> u32 \<Rightarrow> 'a zebra_state_scheme \<Rightarrow> 'a zebra_state_scheme" where
  "waveform_draw_image bg x_origin y_origin s =
     (let row = bmp_vram s + (x_origin AND NOT 3) + y_origin * bmp_pitch;
          s = (if hist_max s = 0 then s\<lparr>hist_max := 1\<rparr> else s)
      in s\<lparr>mem := fold (\<lambda>r m.
             (let y = waveform_height - 1 - r
              in fold (\<lambda>g m. store_word (row + of_nat r * bmp_pitch + 4 * of_nat g)
                     (wave_word bg (waveform s) y g) m)
                   [0..<waveform_width div 4] m))
             [0..<waveform_height - 1] (mem s)\<rparr>)"

subsection \<open>The overlay loop\<close>

definition in_region :: "u32 \<Rightarrow> u32 \<Rightarrow> u32 \<Rightarrow> u32 \<Rightarrow> u32 \<Rightarrow> u32 \<Rightarrow> bool" where
  "in_region x y rx ry w h = (y \<ge> ry \<and> y < ry + h \<and> x \<ge> rx \<and> x < rx + w)"

text \<open>The regions that the histogram, the waveform and the timecode draw to.\<close>

definition reserved :: "zebra_config \<Rightarrow> u32 \<Rightarrow> u32 \<Rightarrow> bool" where
  "reserved c x y =
     ((hist_draw c \<noteq> 0 \<and> in_region x y (hist_x c) (hist_y c) (of_nat hist_width + 4) (of_nat hist_height))
      \<or> (waveform_draw c \<noteq> 0 \<and> in_region x y (waveform_x c) (waveform_y c) (of_nat waveform_width) (of_nat waveform_height))
      \<or> in_region x y (timecode_x c) (timecode_y c) (timecode_width c) (timecode_height c))"

definition draw_pixel ::
  "zebra_config \<Rightarrow> vram_info \<Rightarrow> bmp_picture option \<Rightarrow> addr \<Rightarrow> u32 \<times> u32 \<Rightarrow> memory \<Rightarrow> memory" where
  "draw_pixel c v crop bvram xy m =
     (let (x, y) = xy;
          v_row = vram v + 2 * (y * vram_pitch v);
          b_row = bvram + y * bmp_pitch
      in if reserved c x y then m
         else
           case (if crop_draw c \<noteq> 0 then check_crop crop x y b_row v_row m else None) of
             Some m \<Rightarrow> m
           | None \<Rightarrow>
             (case (if edge_draw c \<noteq> 0 then check_edge (vram_pitch v) x y b_row v_row m else None) of
                Some m \<Rightarrow> m
              | None \<Rightarrow>
                (case (if zebra_draw c \<noteq> 0 then check_zebra (zebra_level c) x y b_row v_row m else None) of
                   Some m \<Rightarrow> m
                 | None \<Rightarrow> store_half (b_row + 2 * (x div 2)) 0 m)))"

definition pixel_pairs :: "vram_info \<Rightarrow> (u32 \<times> u32) list" where
  "pixel_pairs v =
     concat (map (\<lambda>y. map (\<lambda>k. (2 * of_nat k, of_nat y)) [1..<(unat (vram_width v - 2) + 1) div 2])
       [33..<390])"

text \<open>\<open>stop p\<close>: the menu has appeared, or live view has ended, when pixel \<open>p\<close> is reached.\<close>

definition draw_zebra ::
  "zebra_config \<Rightarrow> vram_info \<Rightarrow> (u32 \<times> u32 \<Rightarrow> bool) \<Rightarrow> 'a zebra_state_scheme \<Rightarrow> 'a zebra_state_scheme" where
  "draw_zebra c v stop s =
     (let bvram = bmp_vram s
      in if bvram = 0 then s
         else if edge_draw c = 0 \<and> zebra_draw c = 0 \<and> hist_draw c = 0 \<and> waveform_draw c = 0
              \<and> (crop_draw c = 0 \<or> cropmarks s = None) then s
         else
           let s = hist_build v s;
               ps = takeWhile (\<lambda>p. \<not> stop p) (pixel_pairs v);
               s = s\<lparr>mem := fold (draw_pixel c v (cropmarks s) bvram) ps (mem s)\<rparr>
           in if ps \<noteq> pixel_pairs v then s
              else
                let s = (if hist_draw c \<noteq> 0 then hist_draw_image (hist_x c) (hist_y c) s else s)
                in if waveform_draw c \<noteq> 0
                   then waveform_draw_image (waveform_bg c) (waveform_x c) (waveform_y c) s else s)"

subsection \<open>Menu, handlers and task\<close>

definition zebra_toggle :: "u32 \<Rightarrow> u32" where
  "zebra_toggle v = (v + 0x4000) AND 0xF000"

definition on_off :: "u32 \<Rightarrow> string" where
  "on_off v = (if v \<noteq> 0 then ''ON '' else ''OFF'')"

definition zebra_display :: "u32 \<Rightarrow> u32 \<Rightarrow> u32 \<Rightarrow> int \<Rightarrow> 'a world_scheme \<Rightarrow> 'a world_scheme" where
  "zebra_display priv x y selected w =
     emit (Draw (Bmp_printf (menu_font selected) x y (''Zebra thrs: 0x'' @ fmt_0x 4 priv))) w"

text \<open>The on/off entries differ in their label only.\<close>

definition flag_display :: "string \<Rightarrow> u32 \<Rightarrow> u32 \<Rightarrow> u32 \<Rightarrow> int \<Rightarrow> 'a world_scheme \<Rightarrow> 'a world_scheme" where
  "flag_display label priv x y selected w =
     emit (Draw (Bmp_printf (menu_font selected) x y (label @ on_off priv))) w"

definition zebra_draw_display :: "u32 \<Rightarrow> u32 \<Rightarrow> u32 \<Rightarrow> int \<Rightarrow> 'a world_scheme \<Rightarrow> 'a world_scheme" where
  "zebra_draw_display = flag_display ''Zebras:     ''"

definition edge_display :: "u32 \<Rightarrow> u32 \<Rightarrow> u32 \<Rightarrow> int \<Rightarrow> 'a world_scheme \<Rightarrow> 'a world_scheme" where
  "edge_display = flag_display ''Edgedetect: ''"

definition hist_display :: "u32 \<Rightarrow> u32 \<Rightarrow> u32 \<Rightarrow> int \<Rightarrow> 'a world_scheme \<Rightarrow> 'a world_scheme" where
  "hist_display = flag_display ''Histogram:  ''"

definition waveform_display :: "u32 \<Rightarrow> u32 \<Rightarrow> u32 \<Rightarrow> int \<Rightarrow> 'a world_scheme \<Rightarrow> 'a world_scheme" where
  "waveform_display = flag_display ''Waveform:   ''"

definition liveview_display :: "u32 \<Rightarrow> u32 \<Rightarrow> u32 \<Rightarrow> int \<Rightarrow> 'a world_scheme \<Rightarrow> 'a world_scheme" where
  "liveview_display = flag_display ''LiveView:   ''"

definition crop_display :: "bmp_picture option \<Rightarrow> int \<Rightarrow> u32 \<Rightarrow> u32 \<Rightarrow> u32 \<Rightarrow> int \<Rightarrow> 'a world_scheme \<Rightarrow> 'a world_scheme" where
  "crop_display crop retry_count priv x y selected w =
     emit (Draw (Bmp_printf (menu_font selected) x y
       (''Cropmarks:  '' @ (if crop \<noteq> None then on_off priv else ''NO FILE'') @ '' '' @ fmt_d 0 retry_count))) w"

definition PROP_ACTIVE_SWEEP_STATUS :: u32 where "PROP_ACTIVE_SWEEP_STATUS = 0x8002000C"
definition PROP_REC_TIME :: u32 where "PROP_REC_TIME = 0x80030005"

definition timecode_font :: u32 where "timecode_font = FONT FONT_MED COLOR_RED COLOR_BG"

definition zebra_prop ::
  "zebra_config \<Rightarrow> fonts \<Rightarrow> u32 \<Rightarrow> u32 \<Rightarrow> u8 list \<Rightarrow> 'a zebra_state_scheme \<Rightarrow> 'a zebra_state_scheme option" where
  "zebra_prop c fs token property buf s =
     (let v = buf32 buf;
          s = (if property = PROP_LV_ACTION then s\<lparr>lv_drawn := c_not v\<rparr>
               else if property = PROP_GUI_STATE then s\<lparr>lv_drawn := c_not v\<rparr>
               else if property = PROP_ACTIVE_SWEEP_STATUS then s\<lparr>sensor_cleaning := v\<rparr>
               else if property = PROP_MVR_REC_START then
                 (if v = 2 then emit (Draw (Bmp_printf timecode_font (timecode_x c) (timecode_y c) ''REC: '')) s else s)
               else
                 let t = v div 200;
                     (cw, s) = fontspec_width fs timecode_font s
                 in emit (Draw (Bmp_printf (if t < timecode_warning c then timecode_font else FONT_MED)
                      (timecode_x c + 5 * cw) (timecode_y c)
                      (fmt_d 4 (sint (t div 60)) @ '':'' @ fmt_0d 2 (sint (t mod 60))))) s)
      in Some (emit (Prop (Prop_cleanup token property)) s))"

definition zebra_props :: "u32 list" where
  "zebra_props = [PROP_LV_ACTION, PROP_GUI_STATE, PROP_ACTIVE_SWEEP_STATUS, PROP_MVR_REC_START, PROP_REC_TIME]"

text \<open>The start of the task, its menu of seven entries, which is in the state of \<open>Menu\<close>, and one turn
  of its loop.\<close>

definition zebra_menus_add :: "answers \<Rightarrow> addr \<Rightarrow> 'a menu_state_scheme \<Rightarrow> 'a menu_state_scheme option" where
  "zebra_menus_add orc zebra_menus s = menu_add orc ''Video'' zebra_menus 7 s"

definition zebra_task_start ::
  "answers \<Rightarrow> (nat \<Rightarrow> u8) \<Rightarrow> string \<Rightarrow> u8 list \<Rightarrow> u32 \<Rightarrow> 'a zebra_state_scheme \<Rightarrow> 'a zebra_state_scheme" where
  "zebra_task_start orc stale crop_file crop_bytes enable_liveview s =
     (let (p, s) = bmp_load orc stale crop_file crop_bytes (s\<lparr>lv_drawn := 0\<rparr>);
          s = s\<lparr>cropmarks := p\<rparr>
      in if enable_liveview \<noteq> 0
         then bmp_fill 0 0 0 720 480 (emit (Sys (Call_function ''FA_StartLiveView'')) s)
         else s)"

definition zebra_task_step ::
  "zebra_config \<Rightarrow> vram_info \<Rightarrow> (u32 \<times> u32 \<Rightarrow> bool) \<Rightarrow> addr \<Rightarrow> 'a zebra_state_scheme \<Rightarrow> 'a zebra_state_scheme" where
  "zebra_task_step c v stop menu_shown s =
     (if menu_shown = 0 \<and> lv_drawn s \<noteq> 0 then emit (Sys (Msleep 100)) (draw_zebra c v stop s)
      else emit (Sys (Msleep 500)) s)"

subsection \<open>Facts\<close>

lemma buf_prop_acknowledges:
  "zebra_prop c fs t p b s = Some s' \<Longrightarrow>
   \<exists>es. trace s' = trace s @ es @ [Prop (Prop_cleanup t p)] \<and> cleanups es = []"
  by (auto simp: zebra_prop_def Let_def fontspec_width_def canon_char_lookup_def split: if_splits prod.splits)

interpretation zebra_handlers: prop_handlers "zebra_prop c fs" "\<lambda>p. p \<in> set zebra_props" for c fs
  by unfold_locales (rule buf_prop_acknowledges)

definition zebra_levels :: "u32 set" where
  "zebra_levels = {0, 0x1000, 0x2000, 0x3000, 0x4000, 0x5000, 0x6000, 0x7000, 0x8000, 0x9000, 0xA000,
     0xB000, 0xC000, 0xD000, 0xE000, 0xF000}"

interpretation zebra_key: cyclic_setting zebra_toggle "\<lambda>v. v \<in> zebra_levels" 4
  by unfold_locales (auto simp: zebra_levels_def zebra_toggle_def eval_nat_numeral)

text \<open>What one pixel of the loop may touch.\<close>

lemma draw_pixel_frame:
  assumes "a \<noteq> bvram + y * bmp_pitch + 2 * (x div 2)" and "a \<noteq> bvram + y * bmp_pitch + 2 * (x div 2) + 1"
  shows "draw_pixel c v crop bvram (x, y) m a = m a"
  using assms
  by (auto simp: draw_pixel_def Let_def store_half_frame dest: edge_ov.two_bytes zebra_ov.two_bytes
      crop_ov.two_bytes split: option.splits if_splits)

lemma pixel_pairs_range:
  assumes "(x, y) \<in> set (pixel_pairs v)" and "2 \<le> unat (vram_width v)" "unat (vram_width v) \<le> 960"
  shows "\<exists>k j. x = 2 * of_nat k \<and> y = of_nat j \<and> 2 * k < 958 \<and> 33 \<le> j \<and> j < 390"
proof -
  have "unat (vram_width v - 2) = unat (vram_width v) - 2"
    using assms(2) unat_sub_if_size [of "vram_width v" 2] by simp
  then obtain k j where "x = 2 * of_nat k" "y = of_nat j" "33 \<le> j" "j < 390"
    "k < (unat (vram_width v) - 2 + 1) div 2"
    using assms(1) unfolding pixel_pairs_def set_concat set_map set_upt by auto
  moreover from this(5) assms(3) have "2 * k < 958" by linarith
  ultimately show ?thesis by blast
qed

lemma pixel_address:
  assumes "2 * k < 958" and "j < 390" and "b < 2"
  shows "unat (bvram + of_nat j * bmp_pitch + 2 * ((2 * of_nat k) div 2) + of_nat b - bvram) = j * 960 + 2 * k + b"
proof -
  have k: "unat (2 * of_nat k :: u32) = 2 * k"
    using assms(1) unat_of_nat_u32 [of "2 * k"] by simp
  have "(2 * of_nat k :: u32) div 2 = of_nat k"
    using k unat_of_nat_u32 [of k] assms(1) by (simp add: word_eq_iff_unsigned [where ?'a = nat] unat_div)
  then have "bvram + of_nat j * bmp_pitch + 2 * ((2 * of_nat k) div 2) + of_nat b - bvram
      = of_nat (j * 960 + 2 * k + b)"
    by (simp add: bmp_pitch_def)
  then show ?thesis using assms by (simp only:) (rule unat_of_nat_u32, simp)
qed

lemma overlay_loop_frame_aux:
  assumes "\<forall>p \<in> set ps. p \<in> set (pixel_pairs v)" and w: "2 \<le> unat (vram_width v)" "unat (vram_width v) \<le> 960"
    and a: "unat (a - bvram) < 33 * 960 \<or> 390 * 960 \<le> unat (a - bvram)"
  shows "fold (draw_pixel c v crop bvram) ps m a = m a"
  using assms(1)
proof (induction ps arbitrary: m)
  case Nil
  then show ?case by simp
next
  case (Cons p ps)
  obtain x y where p: "p = (x, y)" by (cases p)
  obtain k j where kj: "x = 2 * of_nat k" "y = of_nat j" "2 * k < 958" "33 \<le> j" "j < 390"
    using pixel_pairs_range [of x y v] Cons.prems p w by auto
  have r: "33 * 960 \<le> j * 960 + 2 * k + b \<and> j * 960 + 2 * k + b < 390 * 960" if "b < 2" for b
    using kj that by linarith
  have "a \<noteq> bvram + y * bmp_pitch + 2 * (x div 2) + of_nat b" if "b < 2" for b
  proof
    assume "a = bvram + y * bmp_pitch + 2 * (x div 2) + of_nat b"
    then have "unat (a - bvram) = j * 960 + 2 * k + b"
      using pixel_address [OF kj(3,5) that, of bvram] kj by simp
    then show False using a r [OF that] by linarith
  qed
  from this [of 0] this [of 1] have "draw_pixel c v crop bvram p m a = m a"
    unfolding p by (intro draw_pixel_frame) simp_all
  then show ?case using Cons by simp
qed

subsection \<open>The histogram\<close>

definition hist_ok :: "'a zebra_state_scheme \<Rightarrow> nat \<Rightarrow> bool" where
  "hist_ok s n \<longleftrightarrow> length (hist s) = hist_width \<and> sum_list (map unat (hist s)) = n"

lemma bump_list_sum:
  assumes "i < length xs" and "sum_list (map unat xs) < 2 ^ 32 - 1"
  shows "sum_list (map unat (bump_list i xs)) = sum_list (map unat xs) + 1"
proof -
  have "unat (xs ! i) \<le> sum_list (map unat xs)"
    using assms(1) by (intro member_le_sum_list) auto
  then have "unat (xs ! i + 1) = unat (xs ! i) + 1"
    using assms(2) by (intro trans [OF unat_add_small]) simp_all
  moreover have "map unat (bump_list i xs) = (map unat xs)[i := unat (xs ! i + 1)]"
    by (simp add: bump_list_def map_update)
  ultimately show ?thesis
    using assms(1) \<open>unat (xs ! i) \<le> sum_list (map unat xs)\<close>
    by (simp add: sum_list_update)
qed

subsection \<open>Counting\<close>

lemma unat_and_FFFF: "unat ((p :: u32) AND 0xFFFF) < 65536"
proof -
  have m: "(0xFFFF :: u32) = mask 16" by (simp add: mask_eq_exp_minus_1)
  have "unat (take_bit 16 p) = take_bit 16 (unat p)" by (simp add: unsigned_take_bit_eq)
  also have "\<dots> < 2 ^ 16" by (rule take_bit_nat_less_exp)
  finally show ?thesis by (simp add: m take_bit_eq_mask)
qed

lemma average_level:
  fixes p1 p2 :: u32
  assumes "unat p1 < 65536" and "unat p2 < 65536"
  shows "unat ((((p1 + p2) div 2) * of_nat hist_width) div 65536) < hist_width"
proof -
  have s: "unat (p1 + p2) = unat p1 + unat p2" using assms by (intro unat_add_small) simp
  have a: "unat ((p1 + p2) div 2) < 65536" using assms by (simp add: unat_div s)
  have "unat (((p1 + p2) div 2) * 128) = unat ((p1 + p2) div 2) * 128"
    using a unat_mult_small [of "(p1 + p2) div 2" 128] by simp
  then show ?thesis using a by (simp add: hist_width_def unat_div)
qed

lemma hist_pixel_ok:
  assumes "hist_ok s n" and "n < 2 ^ 32 - 1"
  shows "hist_ok (hist_pixel w x pixel s) (Suc n)"
proof -
  let ?p = "((drop_bit 16 pixel AND 0xFFFF) + (pixel AND 0xFFFF)) div 2"
  let ?l = "unat ((?p * of_nat hist_width) div 65536)"
  have "hist (hist_pixel w x pixel s) = bump_list ?l (hist s)"
    by (simp add: hist_pixel_def Let_def)
  moreover have "?l < hist_width"
    by (rule average_level) (rule unat_and_FFFF)+
  ultimately show ?thesis
    using assms bump_list_sum [of ?l "hist s"] by (simp add: hist_ok_def) (simp add: bump_list_def)
qed

lemma fold_counts:
  assumes "\<And>k s n. P s n \<Longrightarrow> n < N \<Longrightarrow> P (f k s) (Suc n)"
  shows "P s n \<Longrightarrow> n + length xs \<le> N \<Longrightarrow> P (fold f xs s) (n + length xs)"
  by (induction xs arbitrary: s n) (use assms in fastforce)+

lemma hist_row_ok:
  assumes "hist_ok s n" and "n + (unat (vram_width v) + 1) div 2 \<le> 2 ^ 32 - 1"
  shows "hist_ok (hist_row v row s) (n + (unat (vram_width v) + 1) div 2)"
proof -
  let ?f = "\<lambda>k s. hist_pixel (vram_width v) (2 * of_nat k) (load_word (mem s) (row + 4 * of_nat k)) s"
  have "hist_ok (fold ?f [0..<(unat (vram_width v) + 1) div 2] s)
      (n + length [0..<(unat (vram_width v) + 1) div 2])"
    by (rule fold_counts [where N = "2 ^ 32 - 1"]) (use assms hist_pixel_ok in auto)
  then show ?thesis by (simp add: hist_row_def)
qed

lemma hist_rows_ok:
  assumes "hist_ok s n" and "n + length xs * ((unat (vram_width v) + 1) div 2) \<le> 2 ^ 32 - 1"
  shows "hist_ok (fold (\<lambda>i. hist_row v (f i)) xs s) (n + length xs * ((unat (vram_width v) + 1) div 2))"
  using assms
proof (induction xs arbitrary: s n)
  case Nil
  then show ?case by simp
next
  case (Cons x xs)
  let ?c = "(unat (vram_width v) + 1) div 2"
  have "hist_ok (hist_row v (f x) s) (n + ?c)" using Cons.prems by (intro hist_row_ok) auto
  from Cons.IH [OF this] show ?case using Cons.prems(2) by (simp add: ac_simps)
qed

lemma pack_bytes:
  fixes c0 c1 c2 c3 :: u32
  assumes "\<And>n. bit c0 n \<Longrightarrow> n < 8" "\<And>n. bit c1 n \<Longrightarrow> n < 8" "\<And>n. bit c2 n \<Longrightarrow> n < 8" "\<And>n. bit c3 n \<Longrightarrow> n < 8"
  defines "v \<equiv> push_bit 8 (push_bit 8 (push_bit 8 c0 OR c1) OR c2) OR c3"
  shows "ucast (byte_of v 0) = c3" "ucast (byte_of v 1) = c2" "ucast (byte_of v 2) = c1" "ucast (byte_of v 3) = c0"
  unfolding byte_of_def v_def
  by (rule bit_word_eqI; auto simp: bit_simps dest: assms(1-4))+

subsection \<open>The properties\<close>

text \<open>C27: the histogram loses no pixel: after it is built, its 128 bins add up to the number of pixel
  pairs in the 347 lines scanned.\<close>

theorem hist_build_counts:
  assumes "unat (vram_width v) \<le> 4000"
  shows "length (hist (hist_build v s)) = 128
    \<and> sum_list (map unat (hist (hist_build v s))) = 347 * ((unat (vram_width v) + 1) div 2)"
proof -
  have "hist_ok (hist_clear s) 0"
    by (simp add: hist_ok_def hist_clear_def sum_list_replicate)
  then have "hist_ok (hist_build v s) (0 + length [0..<vram_end_line - vram_start_line]
      * ((unat (vram_width v) + 1) div 2))"
    unfolding hist_build_def using assms
    by (intro hist_rows_ok) (auto simp: vram_end_line_def vram_start_line_def)
  then show ?thesis by (simp add: hist_ok_def hist_width_def vram_end_line_def vram_start_line_def)
qed

definition sample_vram :: vram_info where
  "sample_vram = \<lparr>vram = 0x40000000, vram_width = 720, vram_pitch = 960, vram_height = 480, vram_number = 0\<rparr>"

definition sample_zebra :: zebra_state where
  "sample_zebra = \<lparr>trace = [], mem = (\<lambda>a. 0), bmp_vram = 0x1000, cropmarks = None, lv_drawn = 1,
     sensor_cleaning = 0, hist = [], waveform = [], hist_max = 0\<rparr>"

theorem hist_build_counts_witness:
  "sum_list (map unat (hist (hist_build sample_vram sample_zebra))) = 124920"
  using hist_build_counts [of sample_vram sample_zebra] by (simp add: sample_vram_def)


definition sample_config :: zebra_config where
  "sample_config = \<lparr>zebra_draw = 1, zebra_level = 0xF000, crop_draw = 1, edge_draw = 1, hist_draw = 1,
     hist_x = 588, hist_y = 100, waveform_draw = 0, waveform_x = 360, waveform_y = 174, waveform_bg = 0x26,
     timecode_x = 560, timecode_y = 32, timecode_width = 160, timecode_height = 20, timecode_warning = 120\<rparr>"


text \<open>When a pixel pair shows an edge and is overexposed too, the edge wins: the zebra stripes lie
  below the edge marks, and the crop marks above both.\<close>

theorem overlay_order:
  assumes "\<not> reserved c x y" and "edge_draw c \<noteq> 0"
    and "check_edge (vram_pitch v) x y (bvram + y * bmp_pitch) (vram v + 2 * (y * vram_pitch v)) m = Some m'"
  shows "draw_pixel c v crop bvram (x, y) m
    = (case (if crop_draw c \<noteq> 0
             then check_crop crop x y (bvram + y * bmp_pitch) (vram v + 2 * (y * vram_pitch v)) m else None) of
         Some n \<Rightarrow> n | None \<Rightarrow> m')"
  using assms by (simp add: draw_pixel_def Let_def split: option.split)

definition bright_spot :: memory where
  "bright_spot = (\<lambda>a. if a = 0x4001C2C8 \<or> a = 0x4001C2C9 then 0xFF else 0)"

theorem overlay_order_witness:
  "draw_pixel sample_config sample_vram None 0x1000 (100, 60) bright_spot
    = store_half (0x1000 + 60 * bmp_pitch + 100) 0x707F bright_spot"
proof -
  have w: "load_word bright_spot 0x4001C2C8 = 0xFFFF" "load_word bright_spot 0x4001C2CC = 0"
    "load_word bright_spot 0x4001D1C8 = 0" "load_word bright_spot 0x4001D1CC = 0"
    by (simp_all add: load_word_def bright_spot_def)
  have e: "check_edge (vram_pitch sample_vram) 100 60 (0x1000 + 60 * bmp_pitch)
      (vram sample_vram + 2 * (60 * vram_pitch sample_vram)) bright_spot
    = Some (store_half (0x1000 + 60 * bmp_pitch + 100) 0x707F bright_spot)"
    by (simp add: check_edge_def edge_detect_def sample_vram_def w lo16_def hi16_def abs15_def)
  show ?thesis
    by (subst overlay_order [OF _ _ e])
      (simp_all add: sample_config_def reserved_def in_region_def check_crop_def)
qed

text \<open>The waveform stores each group of four columns in reverse: the lowest address, the leftmost
  pixel on the screen, gets the last column of the group.\<close>

theorem waveform_word_reversed:
  assumes "k < 4" and "\<forall>j < 4. wave_color bg y (wave ! (4 * g + j) ! y) < 256"
  shows "ucast (byte_of (wave_word bg wave y g) k) = wave_color bg y (wave ! (4 * g + (3 - k)) ! y)"
proof -
  let ?c = "\<lambda>j. wave_color bg y (wave ! (4 * g + j) ! y)"
  have w: "wave_word bg wave y g
      = push_bit 8 (push_bit 8 (push_bit 8 (?c 0) OR ?c 1) OR ?c 2) OR ?c 3"
  proof -
    have "[0..<4] = [0, 1, 2, 3 :: nat]" by (simp add: upt_rec)
    then show ?thesis unfolding wave_word_def by simp
  qed
  have hi: "n < 8" if "bit (?c j) n" "j < 4" for j n
  proof -
    have "unat (?c j) < 2 ^ 8" using assms(2) that by (simp add: word_less_nat_alt)
    then have "take_bit 8 (?c j) = ?c j"
      by (simp add: word_eq_iff_unsigned [where ?'a = nat] unsigned_take_bit_eq take_bit_nat_eq_self)
    then show ?thesis using that(1) by (metis bit_take_bit_iff)
  qed
  have h: "bit (?c 0) n \<Longrightarrow> n < 8" "bit (?c 1) n \<Longrightarrow> n < 8" "bit (?c 2) n \<Longrightarrow> n < 8" "bit (?c 3) n \<Longrightarrow> n < 8" for n
    using hi [of 0 n] hi [of 1 n] hi [of 2 n] hi [of 3 n] by simp_all
  note b = pack_bytes [of "?c 0" "?c 1" "?c 2" "?c 3", OF h, folded w]
  consider "k = 0" | "k = 1" | "k = 2" | "k = 3" using assms(1) by linarith
  then show ?thesis by cases (use b in simp_all)
qed

theorem waveform_word_reversed_witness:
  "ucast (byte_of (wave_word 0x26 ((replicate 360 ((replicate 256 0)[7 := 64]))[3 := replicate 256 0]) 7 0) 0) = (0x26 :: u32)"
proof -
  let ?w = "(replicate 360 ((replicate 256 0)[7 := 64]))[3 := replicate 256 0] :: u32 list list"
  have c: "wave_color 0x26 7 (?w ! j ! 7) < 256" if "j < 4" for j
    using that by (auto simp: wave_color_def waveform_height_def nth_list_update)
  have "ucast (byte_of (wave_word 0x26 ?w 7 0) 0) = wave_color 0x26 7 (?w ! 3 ! 7)"
    using waveform_word_reversed [of 0 "0x26" 7 ?w 0] c by simp
  also have "\<dots> = 0x26" by (simp add: wave_color_def waveform_height_def)
  finally show ?thesis .
qed

end
