(* ===== verification/Audio.thy ===== *)
theory Audio
  imports Property Menu
begin

text \<open>
  \<open>audio.c\<close> and \<open>audio.h\<close>: the level meters, the set-up of the audio codec and its menu.
  Reading and writing a codec register are events, and so is reading the level of a
  channel; the calibration table \<open>audio_thresholds\<close> lies in the camera's ROM and is an
  argument.  The register log (\<open>CONFIG_AUDIO_REG_LOG\<close>), the oscilloscope and the code under
  \<open>#if 0\<close> are not compiled and not modelled.
\<close>

definition AUDIO_IC_PM1 :: u32 where "AUDIO_IC_PM1 = 0x2000"
definition AUDIO_IC_SIG1 :: u32 where "AUDIO_IC_SIG1 = 0x2200"
definition AUDIO_IC_SIG2 :: u32 where "AUDIO_IC_SIG2 = 0x2300"
definition AUDIO_IC_ALC1 :: u32 where "AUDIO_IC_ALC1 = 0x2700"
definition AUDIO_IC_IVL :: u32 where "AUDIO_IC_IVL = 0x2900"
definition AUDIO_IC_IVR :: u32 where "AUDIO_IC_IVR = 0x2C00"
definition AUDIO_IC_MODE3 :: u32 where "AUDIO_IC_MODE3 = 0x2E00"
definition AUDIO_IC_MODE4 :: u32 where "AUDIO_IC_MODE4 = 0x2F00"
definition AUDIO_IC_PM3 :: u32 where "AUDIO_IC_PM3 = 0x3000"
definition AUDIO_IC_FIL1 :: u32 where "AUDIO_IC_FIL1 = 0x3100"
definition AUDIO_IC_LPF0 :: u32 where "AUDIO_IC_LPF0 = 0x6C00"
definition AUDIO_IC_LPF1 :: u32 where "AUDIO_IC_LPF1 = 0x6D00"
definition AUDIO_IC_LPF2 :: u32 where "AUDIO_IC_LPF2 = 0x6E00"
definition AUDIO_IC_LPF3 :: u32 where "AUDIO_IC_LPF3 = 0x6F00"

lemmas audio_ic_defs = AUDIO_IC_PM1_def AUDIO_IC_SIG1_def AUDIO_IC_SIG2_def AUDIO_IC_ALC1_def
  AUDIO_IC_IVL_def AUDIO_IC_IVR_def AUDIO_IC_MODE3_def AUDIO_IC_MODE4_def AUDIO_IC_PM3_def
  AUDIO_IC_FIL1_def AUDIO_IC_LPF0_def AUDIO_IC_LPF1_def AUDIO_IC_LPF2_def AUDIO_IC_LPF3_def

record audio_level =
  al_last :: int
  al_avg :: int
  al_peak :: int

text \<open>The last written values that \<open>audio_configure\<close> compares with: the C struct \<open>gain\<close>.\<close>

record gain_struct =
  alc1 :: u32
  sig1 :: u32
  sig2 :: u32

record audio_state = display +
  gain :: gain_struct
  mgain :: u32
  dgain_l :: u32
  dgain_r :: u32
  mic_power :: u32
  lovl :: u32
  o2gain :: u32
  alc_enable :: u32
  mic_in :: u32
  loopback :: u32
  do_draw_meters :: u32
  audio_levels :: "audio_level list"

subsection \<open>Level meters\<close>

text \<open>The search runs down from index 40.\<close>

fun level_search :: "(nat \<Rightarrow> int) \<Rightarrow> int \<Rightarrow> nat \<Rightarrow> int" where
  "level_search thresholds raw 0 = 0"
| "level_search thresholds raw (Suc d) =
     (if thresholds (Suc d) > raw then - int (Suc d) else level_search thresholds raw d)"

definition audio_level_to_db :: "(nat \<Rightarrow> int) \<Rightarrow> int \<Rightarrow> int" where
  "audio_level_to_db thresholds raw_level = level_search thresholds raw_level 40"

definition db_to_color :: "int \<Rightarrow> u8" where
  "db_to_color db = (if db < -35 then 0x2F else if db < -20 then 0x06 else if db < -15 then 0x0F else 0x0c)"

definition db_peak_to_color :: "int \<Rightarrow> u8" where
  "db_peak_to_color db = (if db < -35 then 0x7f else if db < -20 then 0x7f else if db < -15 then 0xAE else 0x08)"

definition meter_width :: u32 where "meter_width = 600"
definition meter_height :: nat where "meter_height = 12"

text \<open>The position of a level, in words of four pixels, and the colour of the word at \<open>x\<close>.\<close>

definition meter_x :: "int \<Rightarrow> u32" where
  "meter_x db = (meter_width + word_of_int (db * 15)) div 4"

definition meter_color :: "int \<Rightarrow> int \<Rightarrow> u32 \<Rightarrow> u8" where
  "meter_color db_avg db_peak x =
     (if x < meter_x db_avg then db_to_color db_avg
      else if x < meter_x db_peak then ucast COLOR_BG
      else if x < meter_x db_peak + 4 then db_peak_to_color db_peak
      else ucast COLOR_BG)"

definition draw_meter :: "(nat \<Rightarrow> int) \<Rightarrow> u32 \<Rightarrow> audio_level \<Rightarrow> 'a display_scheme \<Rightarrow> 'a display_scheme" where
  "draw_meter thresholds y_origin level s =
     (let row = bmp_vram s
      in if row = 0 then s
         else
           let row = row + 4 * ((bmp_pitch div 4) * y_origin + 8);
               db_avg = audio_level_to_db thresholds (al_avg level);
               db_peak = audio_level_to_db thresholds (al_peak level);
               s = s\<lparr>mem := fold (\<lambda>y m.
                     fold (\<lambda>x m. store_word (row + of_nat y * bmp_pitch + 4 * of_nat x)
                            (color_word (meter_color db_avg db_peak (of_nat x))) m)
                       [0..<unat (meter_width div 4)] m)
                     [0..<meter_height] (mem s)\<rparr>
           in emit (Draw (Bmp_printf FONT_SMALL 0 y_origin (fmt_d 3 db_avg))) s)"

definition draw_ticks :: "u32 \<Rightarrow> nat \<Rightarrow> 'a display_scheme \<Rightarrow> 'a display_scheme" where
  "draw_ticks y tick_height s =
     (let row = bmp_vram s
      in if row = 0 then s
         else
           let row = row + 4 * ((bmp_pitch div 4) * y)
           in s\<lparr>mem := fold (\<lambda>k m.
                fold (\<lambda>i m. store_word (row + of_nat k * bmp_pitch
                         + 4 * ((600 + 8 + word_of_int ((- 40 + 5 * int i) * 15)) div 4))
                       (color_word (ucast COLOR_WHITE)) m)
                  [0..<9] m)
                [0..<tick_height] (mem s)\<rparr>)"

definition draw_meters :: "(nat \<Rightarrow> int) \<Rightarrow> 'a audio_state_scheme \<Rightarrow> 'a audio_state_scheme" where
  "draw_meters thresholds s =
     draw_meter thresholds 16 (audio_levels s ! 1)
       (draw_ticks 12 4 (draw_meter thresholds 0 (audio_levels s ! 0) s))"

text \<open>C division truncates towards zero.\<close>

definition next_level :: "int \<Rightarrow> audio_level \<Rightarrow> audio_level" where
  "next_level raw level =
     (let raw = (if raw < 0 then - raw else raw);
          avg = i32 (al_avg level * 15 + raw) sdiv 16;
          peak = (if raw > al_peak level then raw else al_peak level)
      in level\<lparr>al_last := raw, al_avg := avg, al_peak := i32 (peak * 31 + avg) sdiv 32\<rparr>)"

definition audio_read_level :: "answers \<Rightarrow> u32 \<Rightarrow> 'a world_scheme \<Rightarrow> int \<times> 'a world_scheme" where
  "audio_read_level orc channel w =
     (let (v, w) = ask orc (Audio (Audio_read_level channel)) w in (sint (ucast v :: u16), w))"

definition compute_audio_levels :: "answers \<Rightarrow> nat \<Rightarrow> 'a audio_state_scheme \<Rightarrow> 'a audio_state_scheme" where
  "compute_audio_levels orc ch s =
     (let (raw, s) = audio_read_level orc (of_nat ch) s
      in s\<lparr>audio_levels := (audio_levels s)[ch := next_level raw (audio_levels s ! ch)]\<rparr>)"

text \<open>One turn of the task that displays the meters, and of the one that samples the levels.\<close>

definition meter_task_step :: "(nat \<Rightarrow> int) \<Rightarrow> 'a audio_state_scheme \<Rightarrow> 'a audio_state_scheme" where
  "meter_task_step thresholds s =
     (let s = emit (Sys (Msleep 50)) s
      in if do_draw_meters s \<noteq> 0 then draw_meters thresholds s else emit (Sys (Msleep 500)) s)"

definition audio_level_task_start :: "'a audio_state_scheme \<Rightarrow> 'a audio_state_scheme" where
  "audio_level_task_start s =
     (emit (Sys (Msleep 4000)) s)\<lparr>audio_levels := map (\<lambda>l. l\<lparr>al_peak := 0, al_avg := 0\<rparr>) (audio_levels s)\<rparr>"

definition audio_level_task_step :: "answers \<Rightarrow> 'a audio_state_scheme \<Rightarrow> 'a audio_state_scheme" where
  "audio_level_task_step orc s =
     compute_audio_levels orc 1 (compute_audio_levels orc 0 (emit (Sys (Msleep 16)) s))"

subsection \<open>The codec\<close>

text \<open>The value of a register is a byte.\<close>

definition audio_ic_read :: "answers \<Rightarrow> u32 \<Rightarrow> 'a world_scheme \<Rightarrow> u32 \<times> 'a world_scheme" where
  "audio_ic_read orc cmd w =
     (let (v, w) = ask orc (Audio (Audio_ic_read cmd)) w in (ucast (ucast v :: u8), w))"

definition audio_ic_write :: "u32 \<Rightarrow> 'a world_scheme \<Rightarrow> 'a world_scheme" where
  "audio_ic_write cmd w = emit (Audio (Audio_ic_write cmd)) w"

text \<open>The three bits of the microphone gain are spread over two registers.\<close>

definition mgain_sig1 :: "u32 \<Rightarrow> u32 \<Rightarrow> u32" where
  "mgain_sig1 bits v = (v AND NOT 0x3) OR (bits AND 1) OR drop_bit 1 (bits AND 4)"

definition mgain_sig2 :: "u32 \<Rightarrow> u32 \<Rightarrow> u32" where
  "mgain_sig2 bits v = (v AND NOT (push_bit 5 1)) OR push_bit 4 (bits AND 2)"

definition audio_ic_set_mgain :: "answers \<Rightarrow> u32 \<Rightarrow> 'a audio_state_scheme \<Rightarrow> 'a audio_state_scheme" where
  "audio_ic_set_mgain orc bits s =
     (let bits = bits AND 0x7;
          (v, s) = audio_ic_read orc AUDIO_IC_SIG1 s;
          v1 = mgain_sig1 bits v;
          s = audio_ic_write (AUDIO_IC_SIG1 OR v1) s;
          s = s\<lparr>gain := (gain s)\<lparr>sig1 := v1\<rparr>\<rparr>;
          (v, s) = audio_ic_read orc AUDIO_IC_SIG2 s;
          v2 = mgain_sig2 bits v;
          s = audio_ic_write (AUDIO_IC_SIG2 OR v2) s
      in s\<lparr>gain := (gain s)\<lparr>sig2 := v2\<rparr>\<rparr>)"

definition audio_gain_to_cmd :: "int \<Rightarrow> u8" where
  "audio_gain_to_cmd g = word_of_int (i32 (g * 1000) sdiv 375 + 145)"

text \<open>The command that sets the volume of an input channel.\<close>

definition audio_ic_set_input_volume :: "int \<Rightarrow> int \<Rightarrow> u32" where
  "audio_ic_set_input_volume channel g =
     ucast (audio_gain_to_cmd g) OR (if channel \<noteq> 0 then AUDIO_IC_IVL else AUDIO_IC_IVR)"

text \<open>
  Without \<open>force\<close> the registers are compared with what was written last, and nothing is
  written while they agree; the comparison reads a register only if the ones before it agree.
\<close>

definition settings_kept :: "answers \<Rightarrow> 'a audio_state_scheme \<Rightarrow> bool \<times> 'a audio_state_scheme" where
  "settings_kept orc s =
     (let (v, s) = audio_ic_read orc AUDIO_IC_ALC1 s
      in if v \<noteq> alc1 (gain s) then (False, s)
         else
           let (v, s) = audio_ic_read orc AUDIO_IC_SIG1 s
           in if v \<noteq> sig1 (gain s) then (False, s)
              else let (v, s) = audio_ic_read orc AUDIO_IC_SIG2 s in (v = sig2 (gain s), s))"

text \<open>The commands that \<open>audio_configure\<close> writes first, in its order.\<close>

definition input_commands :: "'a audio_state_scheme \<Rightarrow> u32 list" where
  "input_commands s =
     [AUDIO_IC_PM1 OR 0x6D,
      AUDIO_IC_SIG1 OR 0x10 OR (if mic_power s \<noteq> 0 then 0x4 else 0x0),
      AUDIO_IC_SIG2 OR 0x04 OR (lovl s AND 0x3),
      AUDIO_IC_PM3 OR (if mic_in s \<noteq> 0 then 0x00 else 0x07),
      AUDIO_IC_ALC1 OR (if alc_enable s \<noteq> 0 then push_bit 5 1 else 0),
      AUDIO_IC_MODE4 OR 0x00,
      audio_ic_set_input_volume 0 (sint (dgain_r s)),
      audio_ic_set_input_volume 1 (sint (dgain_l s))]"

definition audio_ic_writes :: "u32 list \<Rightarrow> 'a world_scheme \<Rightarrow> 'a world_scheme" where
  "audio_ic_writes cmds w = emits (map (\<lambda>c. Audio (Audio_ic_write c)) cmds) w"

definition configure_inputs :: "'a audio_state_scheme \<Rightarrow> 'a audio_state_scheme" where
  "configure_inputs s =
     audio_ic_writes (input_commands s)
       (s\<lparr>gain := (gain s)\<lparr>alc1 := (if alc_enable s \<noteq> 0 then push_bit 5 1 else 0)\<rparr>\<rparr>)"

definition configure_outputs :: "answers \<Rightarrow> 'a audio_state_scheme \<Rightarrow> 'a audio_state_scheme" where
  "configure_outputs orc s =
     (let s = audio_ic_writes [AUDIO_IC_LPF0 OR 0xD4, AUDIO_IC_LPF1 OR 0x0E, AUDIO_IC_LPF2 OR 0xA9,
                AUDIO_IC_LPF3 OR 0x3D] s;
          (fil1, s) = audio_ic_read orc AUDIO_IC_FIL1 s;
          s = audio_ic_write (AUDIO_IC_FIL1 OR fil1 OR push_bit 5 1) s;
          (mode3, s) = audio_ic_read orc AUDIO_IC_MODE3 s;
          mode3 = mode3 AND NOT 0x5C
      in audio_ic_write (AUDIO_IC_MODE3 OR mode3 OR push_bit 6 (loopback s) OR push_bit 2 (o2gain s AND 0x3)) s)"

definition audio_configure :: "answers \<Rightarrow> bool \<Rightarrow> 'a audio_state_scheme \<Rightarrow> 'a audio_state_scheme" where
  "audio_configure orc force s =
     (let (kept, s) = (if force then (False, s) else settings_kept orc s)
      in if kept then s
         else
           let s = configure_outputs orc (audio_ic_set_mgain orc (mgain s) (configure_inputs s))
           in emit (Draw (Bmp_printf FONT_SMALL 500 400
                (''Gain '' @ fmt_d 0 (sint (dgain_l s)) @ ''/'' @ fmt_d 0 (sint (dgain_r s))
                 @ '' Mgain '' @ fmt_d 0 (sint (mgain s))))) s)"

subsection \<open>Menu\<close>

datatype audio_setting = Lovl | Mgain | Dgain_l | Dgain_r | Alc_enable | Mic_in | Loopback

fun setting :: "audio_setting \<Rightarrow> 'a audio_state_scheme \<Rightarrow> u32" where
  "setting Lovl s = lovl s"
| "setting Mgain s = mgain s"
| "setting Dgain_l s = dgain_l s"
| "setting Dgain_r s = dgain_r s"
| "setting Alc_enable s = alc_enable s"
| "setting Mic_in s = mic_in s"
| "setting Loopback s = loopback s"

fun set_setting :: "audio_setting \<Rightarrow> u32 \<Rightarrow> 'a audio_state_scheme \<Rightarrow> 'a audio_state_scheme" where
  "set_setting Lovl v s = s\<lparr>lovl := v\<rparr>"
| "set_setting Mgain v s = s\<lparr>mgain := v\<rparr>"
| "set_setting Dgain_l v s = s\<lparr>dgain_l := v\<rparr>"
| "set_setting Dgain_r v s = s\<lparr>dgain_r := v\<rparr>"
| "set_setting Alc_enable v s = s\<lparr>alc_enable := v\<rparr>"
| "set_setting Mic_in v s = s\<lparr>mic_in := v\<rparr>"
| "set_setting Loopback v s = s\<lparr>loopback := v\<rparr>"

definition next_3bit :: "u32 \<Rightarrow> u32" where "next_3bit v = (v + 0x1) AND 0x3"
definition next_mgain :: "u32 \<Rightarrow> u32" where "next_mgain v = (v + 0x1) AND 0x7"
definition next_dgain :: "u32 \<Rightarrow> u32" where "next_dgain v = (if v + 6 > 40 then 0 else v + 6)"

definition audio_binary_toggle :: "answers \<Rightarrow> audio_setting \<Rightarrow> 'a audio_state_scheme \<Rightarrow> 'a audio_state_scheme" where
  "audio_binary_toggle orc priv s = audio_configure orc True (set_setting priv (c_not (setting priv s)) s)"

definition audio_3bit_toggle :: "answers \<Rightarrow> audio_setting \<Rightarrow> 'a audio_state_scheme \<Rightarrow> 'a audio_state_scheme" where
  "audio_3bit_toggle orc priv s = audio_configure orc True (set_setting priv (next_3bit (setting priv s)) s)"

definition audio_mgain_toggle :: "answers \<Rightarrow> audio_setting \<Rightarrow> 'a audio_state_scheme \<Rightarrow> 'a audio_state_scheme" where
  "audio_mgain_toggle orc priv s = audio_configure orc True (set_setting priv (next_mgain (setting priv s)) s)"

definition audio_dgain_toggle :: "answers \<Rightarrow> audio_setting \<Rightarrow> 'a audio_state_scheme \<Rightarrow> 'a audio_state_scheme" where
  "audio_dgain_toggle orc priv s = audio_configure orc True (set_setting priv (next_dgain (setting priv s)) s)"

definition mgain_table :: "int list" where
  "mgain_table = [0, 20, 26, 32, 10, 17, 23, 29]"

definition audio_mgain_display :: "audio_setting \<Rightarrow> u32 \<Rightarrow> u32 \<Rightarrow> int \<Rightarrow> 'a audio_state_scheme \<Rightarrow> 'a audio_state_scheme" where
  "audio_mgain_display priv x y selected s =
     emit (Draw (Bmp_printf (menu_font selected) x y
       (''Anlg gain:  '' @ fmt_d 2 (mgain_table ! unat (setting priv s AND 0x7)) @ '' dB''))) s"

definition audio_dgain_display :: "audio_setting \<Rightarrow> u32 \<Rightarrow> u32 \<Rightarrow> int \<Rightarrow> 'a audio_state_scheme \<Rightarrow> 'a audio_state_scheme" where
  "audio_dgain_display priv x y selected s =
     emit (Draw (Bmp_printf (menu_font selected) x y
       ((if priv = Dgain_l then ''L'' else ''R'') @ ''-Gain:     '' @ fmt_d 2 (sint (setting priv s)) @ '' dB''))) s"

definition audio_lovl_display :: "audio_setting \<Rightarrow> u32 \<Rightarrow> u32 \<Rightarrow> int \<Rightarrow> 'a audio_state_scheme \<Rightarrow> 'a audio_state_scheme" where
  "audio_lovl_display priv x y selected s =
     emit (Draw (Bmp_printf (menu_font selected) x y
       (''Output vol: '' @ fmt_d 2 (sint (2 * setting priv s)) @ '' dB''))) s"

definition audio_alc_display :: "u32 \<Rightarrow> u32 \<Rightarrow> int \<Rightarrow> 'a audio_state_scheme \<Rightarrow> 'a audio_state_scheme" where
  "audio_alc_display x y selected s =
     emit (Draw (Bmp_printf (menu_font selected) x y
       (''AGC:        '' @ (if alc_enable s \<noteq> 0 then ''ON '' else ''OFF'')))) s"

definition audio_mic_in_display :: "u32 \<Rightarrow> u32 \<Rightarrow> int \<Rightarrow> 'a audio_state_scheme \<Rightarrow> 'a audio_state_scheme" where
  "audio_mic_in_display x y selected s =
     emit (Draw (Bmp_printf (menu_font selected) x y
       (''Input:      '' @ (if mic_in s \<noteq> 0 then ''INT'' else ''EXT'')))) s"

definition audio_loopback_display :: "u32 \<Rightarrow> u32 \<Rightarrow> int \<Rightarrow> 'a audio_state_scheme \<Rightarrow> 'a audio_state_scheme" where
  "audio_loopback_display x y selected s =
     emit (Draw (Bmp_printf (menu_font selected) x y
       (''Monitor:    '' @ (if loopback s \<noteq> 0 then ''ON '' else ''OFF'')))) s"

text \<open>The \<open>select\<close> handlers of the menu entries, in their order.\<close>

definition audio_menus :: "answers \<Rightarrow> ('a audio_state_scheme \<Rightarrow> 'a audio_state_scheme) list" where
  "audio_menus orc = [audio_3bit_toggle orc Lovl, audio_mgain_toggle orc Mgain, audio_dgain_toggle orc Dgain_l,
     audio_dgain_toggle orc Dgain_r, audio_binary_toggle orc Alc_enable, audio_binary_toggle orc Mic_in,
     audio_binary_toggle orc Loopback]"

subsection \<open>Handlers and the sound device task\<close>

definition enable_recording :: "u32 \<Rightarrow> 'a world_scheme \<Rightarrow> 'a world_scheme" where
  "enable_recording mode w =
     (if mode = 0 \<or> mode = 2 then emit (Sem (Give_semaphore Audio_gain_sem)) w else w)"

definition enable_meters :: "answers \<Rightarrow> u32 \<Rightarrow> 'a audio_state_scheme \<Rightarrow> 'a audio_state_scheme" where
  "enable_meters orc mode s =
     audio_configure orc True (s\<lparr>do_draw_meters := c_not mode, loopback := c_not mode\<rparr>)"

definition audio_prop ::
  "answers \<Rightarrow> u32 \<Rightarrow> u32 \<Rightarrow> u8 list \<Rightarrow> 'a audio_state_scheme \<Rightarrow> 'a audio_state_scheme option" where
  "audio_prop orc token property buf s =
     Some (emit (Prop (Prop_cleanup token property))
       (if property = PROP_LV_ACTION then enable_meters orc (buf32 buf) s
        else enable_recording (buf32 buf) s))"

text \<open>The sound device task up to its loop (but for its menu), and one turn of the loop.\<close>

definition my_sounddev_task_start :: "answers \<Rightarrow> 'a audio_state_scheme \<Rightarrow> 'a audio_state_scheme" where
  "my_sounddev_task_start orc s =
     audio_configure orc True
       (emits [Sem (Create_named_semaphore Audio_gain_sem ''audio_gain'' 1), Sys (Msleep 2000),
               Sem (Create_named_semaphore Sounddev_alc_sem [] 0), Audio (Sounddev_active_in 0 0)] s)"

text \<open>The task also adds its menu, seven entries, which is in the state of \<open>Menu\<close>.\<close>

definition audio_menus_add :: "answers \<Rightarrow> addr \<Rightarrow> 'a menu_state_scheme \<Rightarrow> 'a menu_state_scheme option" where
  "audio_menus_add orc menu s = menu_add orc ''Audio'' menu 7 s"

definition my_sounddev_task_step :: "answers \<Rightarrow> 'a audio_state_scheme \<Rightarrow> 'a audio_state_scheme" where
  "my_sounddev_task_step orc s =
     (let (rc, s) = ask orc (Sem (Take_semaphore Audio_gain_sem 1000)) s
      in audio_configure orc (rc = 0) s)"

subsection \<open>Facts about levels\<close>

lemma level_search_range: "- int n \<le> level_search th raw n \<and> level_search th raw n \<le> 0"
  by (induction n) auto

lemma level_search_mono: "raw \<le> raw' \<Longrightarrow> level_search th raw n \<le> level_search th raw' n"
proof (induction n)
  case 0
  then show ?case by simp
next
  case (Suc n)
  then show ?case using level_search_range [of n th raw'] by auto
qed

lemma audio_level_to_db_range: "- 40 \<le> audio_level_to_db th raw" "audio_level_to_db th raw \<le> 0"
  using level_search_range [of 40 th raw] by (simp_all add: audio_level_to_db_def)

lemma meter_x_eq: "- 40 \<le> db \<Longrightarrow> db \<le> 0 \<Longrightarrow> unat (meter_x db) = nat (600 + db * 15) div 4"
proof -
  assume db: "- 40 \<le> db" "db \<le> 0"
  have "meter_width + word_of_int (db * 15) = word_of_int (600 + db * 15)"
    by (simp add: meter_width_def)
  also have "\<dots> = of_nat (nat (600 + db * 15))"
    using db by (subst of_nat_nat) simp_all
  finally have e: "meter_width + word_of_int (db * 15) = of_nat (nat (600 + db * 15))" .
  have "nat (600 + db * 15) < 2 ^ 32" using db by simp
  then show ?thesis unfolding meter_x_def unat_div e by (simp only: unat_of_nat_u32) simp
qed

text \<open>The invariant of a channel's levels.\<close>

definition level_ok :: "audio_level \<Rightarrow> bool" where
  "level_ok l \<longleftrightarrow> 0 \<le> al_avg l \<and> al_avg l \<le> al_peak l \<and> al_peak l \<le> 32768"

lemma level_ok_update:
  "level_ok (l\<lparr>al_last := r, al_avg := a, al_peak := p\<rparr>) \<longleftrightarrow> 0 \<le> a \<and> a \<le> p \<and> p \<le> 32768"
  by (simp add: level_ok_def)

lemma decay_avg:
  assumes "0 \<le> a" "0 \<le> b" "a \<le> p" "b \<le> (p :: int)"
  shows "0 \<le> (a * 15 + b) div 16 \<and> (a * 15 + b) div 16 \<le> p"
  using zdiv_mono1 [of "a * 15 + b" "p * 16" 16] assms by (simp add: pos_imp_zdiv_nonneg_iff)

lemma decay_peak:
  assumes "0 \<le> a" "a \<le> p" "p \<le> (32768 :: int)"
  shows "a \<le> (p * 31 + a) div 32 \<and> (p * 31 + a) div 32 \<le> 32768"
  using zdiv_mono1 [of "p * 31 + a" "32768 * 32" 32] zdiv_mono1 [of "a * 32" "p * 31 + a" 32] assms by simp

lemma i32_decay: "0 \<le> a \<Longrightarrow> a \<le> p \<Longrightarrow> p \<le> 32768 \<Longrightarrow> i32 (p * 31 + a) = p * 31 + a"
  by (intro i32_id) simp_all

lemma next_level_ok:
  assumes "level_ok l" and "\<bar>raw\<bar> \<le> 32768"
  shows "level_ok (next_level raw l)"
proof -
  let ?raw = "\<bar>raw\<bar>" and ?avg = "(al_avg l * 15 + \<bar>raw\<bar>) div 16" and ?peak = "max \<bar>raw\<bar> (al_peak l)"
  have l: "0 \<le> al_avg l" "al_avg l \<le> al_peak l" "al_peak l \<le> 32768"
    using assms(1) by (simp_all add: level_ok_def)
  have avg: "0 \<le> ?avg" "?avg \<le> ?peak" using l decay_avg [of "al_avg l" "\<bar>raw\<bar>" ?peak] by auto
  have le: "?peak \<le> 32768" using assms(2) l by simp
  have peak: "?avg \<le> (?peak * 31 + ?avg) div 32" "(?peak * 31 + ?avg) div 32 \<le> 32768"
    using decay_peak [OF avg le] by auto
  have 1: "i32 (al_avg l * 15 + ?raw) = al_avg l * 15 + ?raw" using l assms(2) by (intro i32_id) auto
  have 2: "i32 (?peak * 31 + ?avg) = ?peak * 31 + ?avg" by (rule i32_decay [OF avg le])
  have d: "a sdiv 16 = a div 16" "a sdiv 32 = a div 32" if "0 \<le> a" for a :: int
    using that by (auto simp: signed_divide_int_def sgn_if)
  have r: "(if raw < 0 then - raw else raw) = ?raw" by simp
  have p: "(if ?raw > al_peak l then ?raw else al_peak l) = ?peak" by (simp add: max_def)
  have n1: "0 \<le> al_avg l * 15 + ?raw" using l by simp
  have "0 \<le> ?peak" by (rule order_trans [OF abs_ge_zero max.cobounded1])
  then have n2: "0 \<le> ?peak * 31 + ?avg" by (intro add_nonneg_nonneg mult_nonneg_nonneg avg(1)) simp_all
  note q = d(1) [OF n1] d(2) [OF n2]
  have "next_level raw l = l\<lparr>al_last := ?raw, al_avg := ?avg, al_peak := (?peak * 31 + ?avg) div 32\<rparr>"
    unfolding next_level_def Let_def r p 1 q 2 ..
  then show ?thesis by (simp only: level_ok_update avg(1) peak simp_thms)
qed

lemma levels_ok_step:
  fixes s :: "'a audio_state_scheme"
  assumes "\<forall>l \<in> set (audio_levels s). level_ok l"
  shows "\<forall>l \<in> set (audio_levels (audio_level_task_step orc s)). level_ok l"
proof -
  have one: "\<forall>l \<in> set (audio_levels (compute_audio_levels orc ch s)). level_ok l"
    if s: "\<forall>l \<in> set (audio_levels s). level_ok l" for ch and s :: "'a audio_state_scheme"
  proof (cases "ch < length (audio_levels s)")
    case True
    let ?raw = "sint (ucast (orc (trace s @ [Audio (Audio_read_level (of_nat ch))])) :: u16)"
    have "- (2 ^ 15) \<le> ?raw \<and> ?raw < 2 ^ 15"
      using sint_ge [of "ucast (orc (trace s @ [Audio (Audio_read_level (of_nat ch))])) :: u16"]
        sint_lt [of "ucast (orc (trace s @ [Audio (Audio_read_level (of_nat ch))])) :: u16"] by simp
    then have "level_ok (next_level ?raw (audio_levels s ! ch))"
      using s True by (intro next_level_ok) auto
    then show ?thesis
      using s set_update_subset_insert [of "audio_levels s" ch]
      by (fastforce simp: compute_audio_levels_def audio_read_level_def ask_def emit_def)
  next
    case False
    then show ?thesis using s
      by (simp add: compute_audio_levels_def audio_read_level_def ask_def emit_def list_update_beyond)
  qed
  show ?thesis unfolding audio_level_task_step_def
    using assms by (intro one) (simp add: emit_def)
qed

lemma levels_length: "length (audio_levels (audio_level_task_step orc s)) = length (audio_levels s)"
  by (simp add: audio_level_task_step_def compute_audio_levels_def audio_read_level_def ask_def emit_def)

subsection \<open>Properties of the levels\<close>

text \<open>The bar of the average level never covers the peak mark, and both positions lie on the
  meter, 150 words wide, whatever the calibration table holds.\<close>

theorem meter_bar_below_peak:
  assumes "al_avg l \<le> al_peak l"
  shows "unat (meter_x (audio_level_to_db th (al_avg l))) \<le> unat (meter_x (audio_level_to_db th (al_peak l)))"
    and "unat (meter_x (audio_level_to_db th (al_peak l))) \<le> 150"
proof -
  let ?a = "audio_level_to_db th (al_avg l)" and ?p = "audio_level_to_db th (al_peak l)"
  have "?a \<le> ?p" unfolding audio_level_to_db_def by (rule level_search_mono [OF assms])
  then show "unat (meter_x ?a) \<le> unat (meter_x ?p)"
    using audio_level_to_db_range [of th] by (auto simp: meter_x_eq intro!: div_le_mono nat_mono)
  show "unat (meter_x ?p) \<le> 150"
    using audio_level_to_db_range [of th "al_peak l"] by (simp add: meter_x_eq)
qed

theorem meter_bar_below_peak_witness:
  "unat (meter_x (audio_level_to_db (\<lambda>d. 32768 - 800 * int d) 1000))
     \<le> unat (meter_x (audio_level_to_db (\<lambda>d. 32768 - 800 * int d) 20000))"
  using meter_bar_below_peak(1) [of "\<lparr>al_last = 0, al_avg = 1000, al_peak = 20000\<rparr>"] by simp

text \<open>From the start of the sampling task on, whatever samples the microphone delivers, each
  channel's average stays between zero and its peak, and the peak within the sample range, so
  that no intermediate value overflows.\<close>

theorem audio_levels_bounded:
  assumes "l \<in> set (audio_levels ((audio_level_task_step orc ^^ n) (audio_level_task_start s)))"
  shows "0 \<le> al_avg l \<and> al_avg l \<le> al_peak l \<and> al_peak l \<le> 32768"
proof -
  have "\<forall>l \<in> set (audio_levels ((audio_level_task_step orc ^^ n) (audio_level_task_start s))). level_ok l"
  proof (induction n)
    case 0
    show ?case by (auto simp: audio_level_task_start_def emit_def level_ok_def)
  next
    case (Suc n)
    then show ?case unfolding funpow.simps o_apply by (rule levels_ok_step)
  qed
  then show ?thesis using assms by (simp add: level_ok_def)
qed

definition sample_audio :: audio_state where
  "sample_audio = \<lparr>trace = [], mem = (\<lambda>a. 0), bmp_vram = 0x1000, gain = \<lparr>alc1 = 0, sig1 = 0, sig2 = 0\<rparr>,
     mgain = 4, dgain_l = 18, dgain_r = 18, mic_power = 1, lovl = 3, o2gain = 0, alc_enable = 0, mic_in = 0,
     loopback = 1, do_draw_meters = 1, audio_levels = replicate 2 \<lparr>al_last = 0, al_avg = 0, al_peak = 0\<rparr>\<rparr>"

theorem audio_levels_bounded_witness:
  "let l = hd (audio_levels ((audio_level_task_step (\<lambda>es. 0x8000) ^^ 2) (audio_level_task_start sample_audio)))
   in 0 \<le> al_avg l \<and> al_avg l \<le> al_peak l \<and> al_peak l \<le> 32768"
  unfolding Let_def
proof (rule audio_levels_bounded [OF hd_in_set])
  have "length (audio_levels ((audio_level_task_step (\<lambda>es. 0x8000) ^^ 2) (audio_level_task_start sample_audio))) = 2"
    by (simp add: levels_length numeral_eq_Suc audio_level_task_start_def sample_audio_def emit_def)
  then show "audio_levels ((audio_level_task_step (\<lambda>es. 0x8000) ^^ 2) (audio_level_task_start sample_audio)) \<noteq> []"
    by auto
qed

subsection \<open>Facts about the codec\<close>

text \<open>
  The register file as the writes of a trace leave it.  A write command has the register number
  in its upper and the value in its lower byte.
\<close>

definition codec_write :: "u32 \<Rightarrow> (u32 \<Rightarrow> u8) \<Rightarrow> u32 \<Rightarrow> u8" where
  "codec_write cmd regs = regs(drop_bit 8 cmd := ucast cmd)"

fun codec_regs :: "(u32 \<Rightarrow> u8) \<Rightarrow> fw_event list \<Rightarrow> u32 \<Rightarrow> u8" where
  "codec_regs regs [] = regs"
| "codec_regs regs (Audio (Audio_ic_write cmd) # es) = codec_regs (codec_write cmd regs) es"
| "codec_regs regs (e # es) = codec_regs regs es"

lemma codec_regs_append [simp]: "codec_regs regs (xs @ ys) = codec_regs (codec_regs regs xs) ys"
  by (induction regs xs rule: codec_regs.induct) auto

text \<open>What the code relies on: reading a register returns the byte it was last written with.\<close>

definition reads_back :: "(u32 \<Rightarrow> u8) \<Rightarrow> answers \<Rightarrow> bool" where
  "reads_back regs orc \<longleftrightarrow>
     (\<forall>es reg. orc (es @ [Audio (Audio_ic_read reg)]) = ucast (codec_regs regs es (drop_bit 8 reg)))"

definition codec :: "(u32 \<Rightarrow> u8) \<Rightarrow> answers" where
  "codec regs es = (case last es of
     Audio (Audio_ic_read reg) \<Rightarrow> ucast (codec_regs regs (butlast es) (drop_bit 8 reg)) | _ \<Rightarrow> 0)"

lemma reads_back_codec: "reads_back regs (codec regs)"
  by (simp add: reads_back_def codec_def)

lemma ucast_byte [simp]: "(ucast (ucast (b :: u8) :: u32) :: u8) = b"
  by (rule bit_word_eqI) (simp add: bit_simps)

lemma read_reg:
  "reads_back regs orc \<Longrightarrow> audio_ic_read orc cmd w
     = (ucast (codec_regs regs (trace w) (drop_bit 8 cmd)), emit (Audio (Audio_ic_read cmd)) w)"
  by (simp add: audio_ic_read_def ask_def reads_back_def)

lemma drop_byte [simp]: "drop_bit 8 (ucast (b :: u8) :: u32) = 0"
  by (rule bit_word_eqI) (auto simp: bit_simps dest: bit_imp_le_length)

lemma codec_write_or:
  "drop_bit 8 v = 0 \<Longrightarrow> (ucast reg :: u8) = 0 \<Longrightarrow> codec_write (reg OR v) regs = regs(drop_bit 8 reg := ucast v)"
  by (simp add: codec_write_def drop_bit_or unsigned_or_eq)

subsection \<open>Facts about configuring\<close>

lemma unat_and_mask: "unat ((x :: 'a::len word) AND mask n) < 2 ^ n"
proof -
  have "unat (take_bit n x) = take_bit n (unat x)" by (simp add: unsigned_take_bit_eq)
  also have "\<dots> < 2 ^ n" by (rule take_bit_nat_less_exp)
  finally show ?thesis by (simp add: take_bit_eq_mask)
qed

lemma and_3_cases: "(x :: u32) AND 3 = 0 \<or> x AND 3 = 1 \<or> x AND 3 = 2 \<or> x AND 3 = 3"
proof -
  have "unat (x AND 3) < 4" using unat_and_mask [of x 2] by (simp add: mask_eq_exp_minus_1)
  then have "unat (x AND 3) \<in> {0, 1, 2, 3}" by auto
  then have "of_nat (unat (x AND 3)) \<in> (of_nat :: nat \<Rightarrow> u32) ` {0, 1, 2, 3}" by (rule imageI)
  then show ?thesis by simp
qed

lemma and_7_cases:
  "(x :: u32) AND 7 = 0 \<or> x AND 7 = 1 \<or> x AND 7 = 2 \<or> x AND 7 = 3 \<or>
   x AND 7 = 4 \<or> x AND 7 = 5 \<or> x AND 7 = 6 \<or> x AND 7 = 7"
proof -
  have "unat (x AND 7) < 8" using unat_and_mask [of x 3] by (simp add: mask_eq_exp_minus_1)
  then have "unat (x AND 7) \<in> {0, 1, 2, 3, 4, 5, 6, 7}" by auto
  then have "of_nat (unat (x AND 7)) \<in> (of_nat :: nat \<Rightarrow> u32) ` {0, 1, 2, 3, 4, 5, 6, 7}" by (rule imageI)
  then show ?thesis by simp
qed

lemma mgain_high [simp]:
  "drop_bit 8 bits = 0 \<Longrightarrow> drop_bit 8 (mgain_sig1 bits (ucast (b :: u8))) = 0"
  "drop_bit 8 bits = 0 \<Longrightarrow> drop_bit 8 (mgain_sig2 bits (ucast (b :: u8))) = 0"
  by (simp_all add: mgain_sig1_def mgain_sig2_def push_bit_and)

lemma codec_write_byte:
  "(ucast reg :: u8) = 0 \<Longrightarrow> codec_write (ucast (b :: u8) OR reg) regs = regs(drop_bit 8 reg := b)"
  using codec_write_or [of "ucast b" reg regs] by (simp add: or.commute)

lemmas codec_writes = codec_write_or codec_write_byte audio_ic_write_def audio_ic_defs
  emit_def unsigned_or_eq

text \<open>The registers that the three steps of a configuration leave.\<close>

lemma mgain_registers:
  assumes "reads_back regs orc"
  shows "codec_regs regs (trace (audio_ic_set_mgain orc bits s))
    = (codec_regs regs (trace s))
        (0x22 := ucast (mgain_sig1 (bits AND 7) (ucast (codec_regs regs (trace s) 0x22))),
         0x23 := ucast (mgain_sig2 (bits AND 7) (ucast (codec_regs regs (trace s) 0x23))))"
  by (simp add: audio_ic_set_mgain_def Let_def read_reg [OF assms] codec_writes)

lemma trace_gain: "trace (s\<lparr>gain := g\<rparr>) = trace s"
  by simp

lemma codec_regs_writes [simp]:
  "codec_regs regs (map (\<lambda>c. Audio (Audio_ic_write c)) cmds) = fold codec_write cmds regs"
  by (induction cmds arbitrary: regs) auto

lemma input_registers:
  "codec_regs regs (trace (configure_inputs s)) = (codec_regs regs (trace s))
     (0x20 := 0x6D, 0x22 := (if mic_power s \<noteq> 0 then 0x14 else 0x10), 0x23 := 0x04 OR ucast (lovl s AND 0x3),
      0x30 := (if mic_in s \<noteq> 0 then 0 else 7), 0x27 := (if alc_enable s \<noteq> 0 then 0x20 else 0), 0x2F := 0,
      0x2C := audio_gain_to_cmd (sint (dgain_r s)), 0x29 := audio_gain_to_cmd (sint (dgain_l s)))"
proof -
  have w: "codec_write (AUDIO_IC_PM1 OR 0x6D) r = r(0x20 := 0x6D)"
    "codec_write (AUDIO_IC_SIG1 OR 0x10 OR (if mic_power s \<noteq> 0 then 0x4 else 0x0)) r
       = r(0x22 := (if mic_power s \<noteq> 0 then 0x14 else 0x10))"
    "codec_write (AUDIO_IC_SIG2 OR 0x04 OR (lovl s AND 0x3)) r = r(0x23 := 0x04 OR ucast (lovl s AND 0x3))"
    "codec_write (AUDIO_IC_PM3 OR (if mic_in s \<noteq> 0 then 0x00 else 0x07)) r = r(0x30 := (if mic_in s \<noteq> 0 then 0 else 7))"
    "codec_write (AUDIO_IC_ALC1 OR (if alc_enable s \<noteq> 0 then push_bit 5 1 else 0)) r
       = r(0x27 := (if alc_enable s \<noteq> 0 then 0x20 else 0))"
    "codec_write (AUDIO_IC_MODE4 OR 0x00) r = r(0x2F := 0)" for r
    unfolding or.assoc
    by (subst codec_write_or; simp add: audio_ic_defs unsigned_or_eq)+
  have v: "codec_write (audio_ic_set_input_volume 0 g) r = r(0x2C := audio_gain_to_cmd g)"
    "codec_write (audio_ic_set_input_volume 1 g) r = r(0x29 := audio_gain_to_cmd g)" for r g
    by (simp_all add: codec_write_byte audio_ic_set_input_volume_def audio_ic_defs)
  show ?thesis
    unfolding configure_inputs_def audio_ic_writes_def input_commands_def
    by (simp only: trace_emits codec_regs_append codec_regs_writes fold.simps o_apply id_apply w v trace_gain)
qed

lemma or_contains: "(r :: u32) AND 0x2E \<noteq> 0x2E \<Longrightarrow> r = 0x2E OR y \<Longrightarrow> False"
proof -
  assume r: "r AND 0x2E \<noteq> 0x2E" "r = 0x2E OR y"
  have "(x OR y) AND x = x" for x :: u32 by (rule bit_word_eqI) (auto simp: bit_simps)
  with r show False by simp
qed

lemma output_registers:
  assumes "r AND 0x2E \<noteq> 0x2E" and "r \<notin> {0x31, 0x6C, 0x6D}"
  shows "codec_regs regs (trace (configure_outputs orc s)) r = codec_regs regs (trace s) r"
proof -
  have "r \<noteq> 0x6E" "r \<noteq> 0x6F" using assms(1) by auto
  then show ?thesis
    using assms or_contains [OF assms(1)]
    by (auto simp: configure_outputs_def Let_def audio_ic_read_def ask_def audio_ic_writes_def audio_ic_write_def
        codec_write_def audio_ic_defs drop_bit_or or.assoc)
qed

text \<open>The settings are not changed by a configuration.\<close>

lemma configure_inputs_frame [simp]:
  "mgain (configure_inputs s) = mgain s" "gain (configure_inputs s) = (gain s)\<lparr>alc1 := (if alc_enable s \<noteq> 0 then 0x20 else 0)\<rparr>"
  by (simp_all add: configure_inputs_def audio_ic_writes_def emits_eq)

lemma configure_outputs_frame [simp]: "gain (configure_outputs orc s) = gain s"
  by (simp add: configure_outputs_def Let_def audio_ic_read_def ask_def audio_ic_write_def audio_ic_writes_def emits_eq emit_def)

lemma configure_trace:
  "\<exists>t. audio_configure orc True s
    = emit (Draw (Bmp_printf FONT_SMALL 500 400 t)) (configure_outputs orc (audio_ic_set_mgain orc (mgain s) (configure_inputs s)))"
  by (auto simp: audio_configure_def Let_def)

lemma configured_registers:
  assumes "reads_back regs orc" and "r \<in> {0x22, 0x23, 0x27, 0x29, 0x2C}"
  shows "codec_regs regs (trace (audio_configure orc True s)) r
    = codec_regs regs (trace (audio_ic_set_mgain orc (mgain s) (configure_inputs s))) r"
proof -
  obtain t where t: "audio_configure orc True s
    = emit (Draw (Bmp_printf FONT_SMALL 500 400 t)) (configure_outputs orc (audio_ic_set_mgain orc (mgain s) (configure_inputs s)))"
    using configure_trace by blast
  have r: "r AND 0x2E \<noteq> 0x2E" "r \<notin> {0x31, 0x6C, 0x6D}" using assms(2) by auto
  show ?thesis unfolding t using output_registers [OF r] by simp
qed

text \<open>The gain that the registers hold.\<close>

definition codec_mgain :: "(u32 \<Rightarrow> u8) \<Rightarrow> u8" where
  "codec_mgain r = (r 0x22 AND 1) OR push_bit 1 (r 0x22 AND 2) OR drop_bit 4 (r 0x23 AND 0x20)"

lemma mgain_decodes:
  fixes bits l :: u32 and c :: bool
  defines "a \<equiv> ucast (mgain_sig1 (bits AND 7) (ucast (if c then 0x14 else 0x10 :: u8))) :: u8"
    and "b \<equiv> ucast (mgain_sig2 (bits AND 7) (ucast (0x04 OR ucast (l AND 3) :: u8))) :: u8"
  shows "(a AND 1) OR push_bit 1 (a AND 2) OR drop_bit 4 (b AND 0x20) = ucast (bits AND 7)"
    and "a AND 0xFC = (if c then 0x14 else 0x10)" and "b AND 0xDF = 0x04 OR ucast (l AND 3)"
  using and_7_cases [of bits] and_3_cases [of l] unfolding a_def b_def
  by (elim disjE; cases c; simp add: mgain_sig1_def mgain_sig2_def)+

text \<open>While the codec holds what was written last, a poll only reads.\<close>

definition settled :: "(u32 \<Rightarrow> u8) \<Rightarrow> 'a audio_state_scheme \<Rightarrow> bool" where
  "settled regs s \<longleftrightarrow> (let r = codec_regs regs (trace s) in
     ucast (r 0x27) = alc1 (gain s) \<and> ucast (r 0x22) = sig1 (gain s) \<and> ucast (r 0x23) = sig2 (gain s))"

definition poll_reads :: "fw_event list" where
  "poll_reads = [Audio (Audio_ic_read AUDIO_IC_ALC1), Audio (Audio_ic_read AUDIO_IC_SIG1),
     Audio (Audio_ic_read AUDIO_IC_SIG2)]"

lemma settled_poll:
  assumes "reads_back regs orc" and "settled regs s"
  shows "audio_configure orc False s = emits poll_reads s" and "settled regs (audio_configure orc False s)"
proof -
  show 1: "audio_configure orc False s = emits poll_reads s"
    using assms(2)
    by (simp add: audio_configure_def settings_kept_def read_reg [OF assms(1)] settled_def Let_def
        audio_ic_defs poll_reads_def emit_def)
  show "settled regs (audio_configure orc False s)"
    using assms(2) unfolding 1 by (simp add: settled_def emits_eq poll_reads_def)
qed

lemma byte_of_small: "drop_bit 8 (v :: u32) = 0 \<Longrightarrow> ucast (ucast v :: u8) = v"
proof -
  assume "drop_bit 8 v = 0"
  moreover have "v = push_bit 8 (drop_bit 8 v) OR take_bit 8 v"
    by (rule bit_word_eqI) (auto simp: bit_simps)
  ultimately have "v = take_bit 8 v" by simp
  then show ?thesis by (simp add: unsigned_ucast_eq)
qed

lemma gain_after_mgain:
  assumes "reads_back regs orc"
  shows "gain (audio_ic_set_mgain orc bits s) = (gain s)
    \<lparr>sig1 := mgain_sig1 (bits AND 7) (ucast (codec_regs regs (trace s) 0x22)),
     sig2 := mgain_sig2 (bits AND 7) (ucast (codec_regs regs (trace s) 0x23))\<rparr>"
  by (simp add: audio_ic_set_mgain_def Let_def read_reg [OF assms] codec_writes)

lemma configured_settled:
  assumes "reads_back regs orc"
  shows "settled regs (audio_configure orc True s)"
proof -
  obtain t where t: "audio_configure orc True s
    = emit (Draw (Bmp_printf FONT_SMALL 500 400 t)) (configure_outputs orc (audio_ic_set_mgain orc (mgain s) (configure_inputs s)))"
    using configure_trace by blast
  have "gain (audio_configure orc True s) = gain (audio_ic_set_mgain orc (mgain s) (configure_inputs s))"
    unfolding t by (simp add: emit_def)
  then show ?thesis
    unfolding settled_def Let_def
    by (simp add: configured_registers [OF assms] mgain_registers [OF assms] gain_after_mgain [OF assms]
        input_registers byte_of_small)
qed

subsection \<open>Properties of the codec set-up\<close>

text \<open>C10: on a codec whose registers read back what was written, a forced configuration leaves the
  chosen settings in the codec: the microphone gain, spread over two registers, decodes to the
  setting, and the other bits of both registers, the level control and both input volumes are
  the ones the settings ask for.\<close>

theorem audio_configure_registers:
  assumes "reads_back regs orc"
  shows "let r = codec_regs regs (trace (audio_configure orc True s)) in
    codec_mgain r = ucast (mgain s AND 7)
    \<and> r 0x22 AND 0xFC = (if mic_power s \<noteq> 0 then 0x14 else 0x10)
    \<and> r 0x23 AND 0xDF = 0x04 OR ucast (lovl s AND 3)
    \<and> r 0x27 = (if alc_enable s \<noteq> 0 then 0x20 else 0)
    \<and> r 0x29 = audio_gain_to_cmd (sint (dgain_l s)) \<and> r 0x2C = audio_gain_to_cmd (sint (dgain_r s))"
proof -
  let ?r = "codec_regs regs (trace (audio_configure orc True s))"
  note r = configured_registers [OF assms, of _ s] mgain_registers [OF assms] input_registers
  have 22: "?r 0x22 = ucast (mgain_sig1 (mgain s AND 7) (ucast (if mic_power s \<noteq> 0 then 0x14 else 0x10 :: u8)))"
    and 23: "?r 0x23 = ucast (mgain_sig2 (mgain s AND 7) (ucast (0x04 OR ucast (lovl s AND 3) :: u8)))"
    by (simp_all add: r)
  have "?r 0x27 = (if alc_enable s \<noteq> 0 then 0x20 else 0)" "?r 0x29 = audio_gain_to_cmd (sint (dgain_l s))"
    "?r 0x2C = audio_gain_to_cmd (sint (dgain_r s))"
    by (simp_all add: r)
  then show ?thesis unfolding Let_def codec_mgain_def 22 23 mgain_decodes by blast
qed

theorem audio_configure_registers_witness:
  "codec_mgain (codec_regs (\<lambda>r. 0) (trace (audio_configure (codec (\<lambda>r. 0)) True sample_audio))) = 4"
  using audio_configure_registers [OF reads_back_codec, of "\<lambda>r. 0" sample_audio]
  by (simp add: Let_def sample_audio_def)

text \<open>The sound device task settles: once it has configured the codec, polling it any number of
  times only reads the three registers that are compared, and writes nothing.\<close>

theorem audio_configure_settles:
  assumes "reads_back regs orc"
  shows "(audio_configure orc False ^^ n) (audio_configure orc True s)
    = emits (concat (replicate n poll_reads)) (audio_configure orc True s)"
proof -
  have "settled regs ((audio_configure orc False ^^ n) (audio_configure orc True s)) \<and> ?thesis"
  proof (induction n)
    case 0
    show ?case using configured_settled [OF assms] by simp
  next
    case (Suc n)
    have e: "concat (replicate (Suc n) poll_reads) = concat (replicate n poll_reads) @ poll_reads"
      by (metis replicate_append_same concat_append concat.simps append_Nil2 replicate_Suc)
    have IH: "settled regs ((audio_configure orc False ^^ n) (audio_configure orc True s))"
      "emits (concat (replicate n poll_reads)) (audio_configure orc True s)
        = (audio_configure orc False ^^ n) (audio_configure orc True s)"
      using Suc by auto
    show ?case
      using settled_poll [OF assms IH(1)] unfolding funpow.simps o_apply e emits_append IH(2) by simp
  qed
  then show ?thesis ..
qed

theorem audio_configure_settles_witness:
  "(audio_configure (codec (\<lambda>r. 0)) False ^^ 3) (audio_configure (codec (\<lambda>r. 0)) True sample_audio)
   = emits (concat (replicate 3 poll_reads)) (audio_configure (codec (\<lambda>r. 0)) True sample_audio)"
  by (rule audio_configure_settles [OF reads_back_codec])

definition dgains :: "u32 set" where "dgains = {0, 6, 12, 18, 24, 30, 36}"

lemma next_dgain_values:
  "next_dgain 0 = 6" "next_dgain 6 = 12" "next_dgain 12 = 18" "next_dgain 18 = 24" "next_dgain 24 = 30"
  "next_dgain 30 = 36" "next_dgain 36 = 0"
  by (simp_all add: next_dgain_def)

interpretation dgain_key: cyclic_setting next_dgain "\<lambda>v. v \<in> dgains" 7
  by unfold_locales (auto simp: dgains_def next_dgain_values eval_nat_numeral)

interpretation lovl_key: cyclic_setting next_3bit "\<lambda>v. v \<in> {0, 1, 2, 3}" 4
  by unfold_locales (auto simp: next_3bit_def eval_nat_numeral)

interpretation mgain_key: cyclic_setting next_mgain "\<lambda>v. v \<in> {0, 1, 2, 3, 4, 5, 6, 7}" 8
  by unfold_locales (auto simp: next_mgain_def eval_nat_numeral)

lemma quiet_reads [simp]: "quiet w (snd (audio_ic_read orc cmd w))" "quiet w (audio_ic_write cmd w)"
  by (simp_all add: audio_ic_read_def audio_ic_write_def ask_def quiet_def)

lemma cleanups_writes [simp]: "cleanups (map (\<lambda>c. Audio (Audio_ic_write c)) cmds) = []"
  by (induction cmds) auto

lemma quiet_inputs: "quiet s (configure_inputs s)"
  by (simp add: configure_inputs_def audio_ic_writes_def quiet_def)

lemma quiet_outputs: "quiet s (configure_outputs orc s)"
  by (simp add: configure_outputs_def audio_ic_writes_def audio_ic_read_def audio_ic_write_def ask_def Let_def quiet_def)

lemma quiet_mgain: "quiet s (audio_ic_set_mgain orc bits s)"
  by (simp add: audio_ic_set_mgain_def audio_ic_read_def audio_ic_write_def ask_def Let_def quiet_def emit_def)

lemma quiet_configure: "quiet s (audio_configure orc True s)"
proof -
  obtain t where "audio_configure orc True s
    = emit (Draw (Bmp_printf FONT_SMALL 500 400 t)) (configure_outputs orc (audio_ic_set_mgain orc (mgain s) (configure_inputs s)))"
    using configure_trace by blast
  moreover have c: "cleanups [Draw d] = []" for d by simp
  ultimately show ?thesis
    using quiet_trans [OF quiet_trans [OF quiet_trans [OF quiet_inputs quiet_mgain] quiet_outputs] quiet_emit [OF c]]
    by simp
qed

lemma audio_prop_acknowledges:
  "audio_prop orc t p b s = Some s' \<Longrightarrow> \<exists>es. trace s' = trace s @ es @ [Prop (Prop_cleanup t p)] \<and> cleanups es = []"
  using quiet_configure [of "s\<lparr>do_draw_meters := c_not (buf32 b), loopback := c_not (buf32 b)\<rparr>" orc]
  by (auto simp: audio_prop_def enable_meters_def enable_recording_def quiet_def)

interpretation audio_handlers: prop_handlers "audio_prop orc" "\<lambda>p. p \<in> {PROP_LV_ACTION, PROP_MVR_REC_START}" for orc
  by unfold_locales (rule audio_prop_acknowledges)

text \<open>The digital gain key cycles through seven gains, and for each of them the volume command
  is the exact linear code of the codec, 8/3 steps per decibel from 145, without wrapping.\<close>

theorem dgain_command_exact:
  assumes "g \<in> dgains"
  shows "(next_dgain ^^ n) g \<in> dgains"
    and "uint (audio_gain_to_cmd (sint ((next_dgain ^^ n) g))) = uint ((next_dgain ^^ n) g) * 8 div 3 + 145"
proof -
  show v: "(next_dgain ^^ n) g \<in> dgains" by (rule dgain_key.presses_valid [OF assms])
  have "uint (audio_gain_to_cmd (sint v)) = uint v * 8 div 3 + 145" if "v \<in> dgains" for v
    using that by (auto simp: dgains_def audio_gain_to_cmd_def i32_def signed_divide_int_def signed_take_bit_int_eq_self)
  from this [OF v] show "uint (audio_gain_to_cmd (sint ((next_dgain ^^ n) g))) = uint ((next_dgain ^^ n) g) * 8 div 3 + 145" .
qed

theorem dgain_command_exact_witness: "uint (audio_gain_to_cmd (sint ((next_dgain ^^ 3) 18))) = 241"
proof -
  have "(next_dgain ^^ 3) 18 = 36" by (simp add: eval_nat_numeral next_dgain_values)
  then show ?thesis using dgain_command_exact(2) [of 18 3] by (simp add: dgains_def)
qed

subsection \<open>The picture of a meter\<close>

text \<open>Drawing a meter colours the 600 by 12 pixels right of the numbers, each group of four by its
  place relative to the average and the peak, and no other pixel to the right of the numbers.\<close>

theorem draw_meter_pixels:
  assumes "bmp_vram s \<noteq> 0" and "Y \<le> 468" and "32 \<le> px" "px < 960" "py < 1000"
  shows "mem (draw_meter th (of_nat Y) l s) (pixel_addr (bmp_vram s) px py)
    = (if Y \<le> py \<and> py < Y + 12 \<and> px < 632
       then meter_color (audio_level_to_db th (al_avg l)) (audio_level_to_db th (al_peak l)) (of_nat ((px - 32) div 4))
       else mem s (pixel_addr (bmp_vram s) px py))"
proof -
  let ?c = "\<lambda>i x. meter_color (audio_level_to_db th (al_avg l)) (audio_level_to_db th (al_peak l)) (of_nat x)"
  have r: "bmp_vram s + (4 * (bmp_pitch div 4 * of_nat Y) + 32) = bmp_vram s + of_nat Y * bmp_pitch + of_nat 32"
    by (simp add: bmp_pitch_def)
  have "mem (draw_meter th (of_nat Y) l s)
    = raster (bmp_vram s + of_nat Y * bmp_pitch + of_nat 32) (4 * 150) 12 (\<lambda>i j. ?c i (j div 4)) (mem s)"
    using assms(1) fold_store_raster [of 150 "bmp_vram s + of_nat Y * bmp_pitch + of_nat 32" ?c 12 "mem s"]
    by (simp add: draw_meter_def Let_def r meter_width_def meter_height_def emit_def del: of_nat_numeral)
  then show ?thesis
    using assms(2-5) by (simp only:) (subst raster_pixel, auto)
qed

theorem draw_meter_pixels_witness:
  "mem (draw_meter (\<lambda>d. 32768 - 800 * int d) 16 \<lparr>al_last = 0, al_avg = 40000, al_peak = 40000\<rparr> sample_audio)
     (pixel_addr 0x1000 100 20) = 0x0c"
proof -
  have db: "audio_level_to_db (\<lambda>d. 32768 - 800 * int d) 40000 = 0"
    by (simp add: audio_level_to_db_def eval_nat_numeral)
  show ?thesis
    using draw_meter_pixels [of sample_audio 16 100 20 "\<lambda>d. 32768 - 800 * int d" "\<lparr>al_last = 0, al_avg = 40000, al_peak = 40000\<rparr>"]
    by (simp add: sample_audio_def db meter_color_def meter_x_def meter_width_def db_to_color_def)
qed

end
