(* ===== verification/Timecode.thy ===== *)
theory Timecode
  imports Audio
begin

text \<open>
  \<open>timecode.c\<close>: the decoder of SMPTE linear time code on the audio input, as it is compiled for
  the camera.  The clock that the decoder reads at every transition is an argument.  The
  program for the host that reads a sound file is not modelled: without \<open>__ARM__\<close> the file
  does not compile, since \<open>tc_transition\<close>'s error message needs the drawing functions of the
  camera.
\<close>

record tc_state = menu_state +
  smpte_frame :: "u8 list"
  last_transition :: u32
  tc_bit :: int
  tc_word :: u32
  tc_synced :: bool
  byte_count :: nat
  last_bit :: u32

definition ONE_LEN :: int where "ONE_LEN = 0xD0"
definition ZERO_LEN :: int where "ZERO_LEN = 0x1A0"
definition EPS :: int where "EPS = 0x30"

subsection \<open>The decoder\<close>

text \<open>The bits of a byte arrive lowest first and are shifted in from the right.\<close>

definition reverse_byte :: "u32 \<Rightarrow> u32" where
  "reverse_byte w = push_bit 7 (w AND 0x01) OR push_bit 5 (w AND 0x02) OR push_bit 3 (w AND 0x04)
     OR push_bit 1 (w AND 0x08) OR drop_bit 1 (w AND 0x10) OR drop_bit 3 (w AND 0x20)
     OR drop_bit 5 (w AND 0x40) OR drop_bit 7 (w AND 0x80)"

text \<open>A decoded bit: the search for the sync word, then the collection of eight bytes.\<close>

definition tc_new_bit :: "u32 \<Rightarrow> 'a tc_state_scheme \<Rightarrow> bool \<times> 'a tc_state_scheme" where
  "tc_new_bit new_bit s =
     (let s = s\<lparr>tc_word := push_bit 1 (tc_word s) OR new_bit\<rparr>
      in if \<not> tc_synced s then
           (if tc_word s AND 0xFFFF = 0x3FFD
            then (False, s\<lparr>tc_synced := True, tc_word := 1, byte_count := 0\<rparr>)
            else (False, s))
         else if tc_word s AND 0x100 = 0 then (False, s)
         else
           let s = s\<lparr>smpte_frame := (smpte_frame s)[byte_count s := ucast (reverse_byte (tc_word s))],
                     byte_count := byte_count s + 1, tc_word := 1\<rparr>
           in if byte_count s < 8 then (False, s) else (True, s\<lparr>tc_synced := False\<rparr>))"

definition tc_transition :: "u32 \<Rightarrow> 'a tc_state_scheme \<Rightarrow> bool \<times> 'a tc_state_scheme" where
  "tc_transition now s =
     (let delta = uint ((now - last_transition s) AND 0x00FFFFFF);
          s = s\<lparr>last_transition := now\<rparr>
      in if ZERO_LEN - EPS < delta \<and> delta < ZERO_LEN + EPS then tc_new_bit 0 s
         else if ONE_LEN - EPS < delta \<and> delta < ONE_LEN + EPS then
           let s = s\<lparr>last_bit := last_bit s + 1\<rparr>
           in if last_bit s AND 1 \<noteq> 0 then (False, s) else tc_new_bit 1 (s\<lparr>last_bit := 0\<rparr>)
         else
           let s = emit (Draw (Bmp_printf (FONT FONT_SMALL COLOR_RED 0)
                     (if delta < ONE_LEN then 10 else if delta > ZERO_LEN then 210 else 110) 300
                     (fmt_0x 4 (word_of_int delta)))) s
           in (False, s\<lparr>tc_synced := False, tc_word := 0\<rparr>))"

text \<open>The result is true when a frame is complete.\<close>

definition tc_sample :: "u32 \<Rightarrow> int \<Rightarrow> 'a tc_state_scheme \<Rightarrow> bool \<times> 'a tc_state_scheme" where
  "tc_sample now sample s =
     (let old_bit = tc_bit s;
          bit = (if sample > 1000 then 0 else if sample < - 1000 then 1 else old_bit)
      in if bit = old_bit then (False, s) else tc_transition now (s\<lparr>tc_bit := bit\<rparr>))"

subsection \<open>The task\<close>

definition bcd_bits :: "nat \<Rightarrow> u8 list \<Rightarrow> u8" where
  "bcd_bits x frame = frame ! (x div 8) AND 0xF"

definition tc_frames :: "u8 list \<Rightarrow> int" where
  "tc_frames fr = uint (bcd_bits 0 fr) + 10 * uint (bcd_bits 8 fr AND 0x3)"

definition tc_seconds :: "u8 list \<Rightarrow> int" where
  "tc_seconds fr = uint (bcd_bits 16 fr) + 10 * uint (bcd_bits 24 fr AND 0x7)"

definition tc_minutes :: "u8 list \<Rightarrow> int" where
  "tc_minutes fr = uint (bcd_bits 32 fr) + 10 * uint (bcd_bits 40 fr)"

definition tc_hours :: "u8 list \<Rightarrow> int" where
  "tc_hours fr = uint (bcd_bits 48 fr) + 10 * uint (bcd_bits 56 fr AND 0x3)"

definition timecode_text :: "u8 list \<Rightarrow> string" where
  "timecode_text fr = '' SMTPE LTC:  '' @ [LF] @ '' '' @ fmt_0d 2 (tc_hours fr) @ '':'' @ fmt_0d 2 (tc_minutes fr)
     @ '':'' @ fmt_0d 2 (tc_seconds fr) @ ''.'' @ fmt_0d 2 (tc_frames fr) @ '' ''"

text \<open>
  One round of the loop, which runs until the menu appears: the sample comes from the
  codec, and \<open>now\<close> is what the clock shows if the sample makes a transition.
\<close>

definition process_sample :: "answers \<Rightarrow> u32 \<Rightarrow> 'a tc_state_scheme \<Rightarrow> 'a tc_state_scheme" where
  "process_sample orc now s =
     (let (sample, s) = audio_read_level orc 0 s;
          (complete, s) = tc_sample now sample s
      in if complete then emit (Draw (Bmp_printf FONT_HUGE 0 150 (timecode_text (smpte_frame s)))) s else s)"

text \<open>\<open>nows\<close> has one entry for each round until the menu appears.\<close>

definition process_timecode :: "answers \<Rightarrow> u32 list \<Rightarrow> 'a tc_state_scheme \<Rightarrow> 'a tc_state_scheme" where
  "process_timecode orc nows s = fold (process_sample orc) nows s"

definition timecode_unlock :: "'a tc_state_scheme \<Rightarrow> 'a tc_state_scheme" where
  "timecode_unlock s = emit (Sem (Give_semaphore Timecode_sem)) (gui_stop_menu s)"

definition tc_task_start :: "answers \<Rightarrow> addr \<Rightarrow> 'a menu_state_scheme \<Rightarrow> 'a menu_state_scheme option" where
  "tc_task_start orc timecode_menu s =
     menu_add orc ''Debug'' timecode_menu 1 (emit (Sem (Create_named_semaphore Timecode_sem ''timecode'' 0)) s)"

definition tc_task_step :: "answers \<Rightarrow> u32 list \<Rightarrow> 'a tc_state_scheme \<Rightarrow> 'a tc_state_scheme" where
  "tc_task_step orc nows s = process_timecode orc nows (emit (Sem (Take_semaphore Timecode_sem 0)) s)"

subsection \<open>Streams of samples\<close>

text \<open>The frames that a stream of samples, each with the time it is taken, delivers.\<close>

fun tc_run :: "(u32 \<times> int) list \<Rightarrow> 'a tc_state_scheme \<Rightarrow> u8 list list \<times> 'a tc_state_scheme" where
  "tc_run [] s = ([], s)"
| "tc_run ((now, sample) # xs) s =
     (let (complete, s) = tc_sample now sample s; (frs, s') = tc_run xs s
      in (if complete then smpte_frame s # frs else frs, s'))"

text \<open>
  The coding of the signal: a bit takes a fixed time, a zero has a transition at its end only, a
  one has another in its middle.  \<open>signal level t half xs bs\<close>: after a transition to \<open>level\<close> at
  time \<open>t\<close>, in the middle of a one if \<open>half\<close>, the samples \<open>xs\<close> carry the bits \<open>bs\<close>.
\<close>

definition long :: "u32 \<Rightarrow> bool" where
  "long d \<longleftrightarrow> ZERO_LEN - EPS < uint (d AND 0x00FFFFFF) \<and> uint (d AND 0x00FFFFFF) < ZERO_LEN + EPS"

definition short :: "u32 \<Rightarrow> bool" where
  "short d \<longleftrightarrow> ONE_LEN - EPS < uint (d AND 0x00FFFFFF) \<and> uint (d AND 0x00FFFFFF) < ONE_LEN + EPS"

definition crosses :: "bool \<Rightarrow> int \<Rightarrow> bool" where
  "crosses level sample \<longleftrightarrow> (if level then sample > 1000 else sample < - 1000)"

inductive signal :: "bool \<Rightarrow> u32 \<Rightarrow> bool \<Rightarrow> (u32 \<times> int) list \<Rightarrow> bool list \<Rightarrow> bool" where
  over: "signal level t False [] []"
| steady: "\<not> crosses level v \<Longrightarrow> signal level t half xs bs \<Longrightarrow> signal level t half ((now, v) # xs) bs"
| zero: "crosses level v \<Longrightarrow> long (now - t) \<Longrightarrow> signal (\<not> level) now False xs bs \<Longrightarrow>
     signal level t False ((now, v) # xs) (False # bs)"
| half_one: "crosses level v \<Longrightarrow> short (now - t) \<Longrightarrow> signal (\<not> level) now True xs bs \<Longrightarrow>
     signal level t False ((now, v) # xs) bs"
| one: "crosses level v \<Longrightarrow> short (now - t) \<Longrightarrow> signal (\<not> level) now False xs bs \<Longrightarrow>
     signal level t True ((now, v) # xs) (True # bs)"

code_pred signal .

subsection \<open>From samples to bits\<close>

fun tc_bits :: "bool list \<Rightarrow> 'a tc_state_scheme \<Rightarrow> u8 list list \<times> 'a tc_state_scheme" where
  "tc_bits [] s = ([], s)"
| "tc_bits (b # bs) s =
     (let (complete, s) = tc_new_bit (of_bool b) s; (frs, s') = tc_bits bs s
      in (if complete then smpte_frame s # frs else frs, s'))"

text \<open>The part of the state that the bits change.\<close>

definition core :: "'a tc_state_scheme \<Rightarrow> u32 \<times> bool \<times> nat \<times> u8 list" where
  "core s = (tc_word s, tc_synced s, byte_count s, smpte_frame s)"

definition at_level :: "bool \<Rightarrow> u32 \<Rightarrow> bool \<Rightarrow> 'a tc_state_scheme \<Rightarrow> bool" where
  "at_level level t half s \<longleftrightarrow> tc_bit s = of_bool level \<and> last_transition s = t \<and> last_bit s = of_bool half"

lemma new_bit_core:
  "core s = core s' \<Longrightarrow> fst (tc_new_bit b s) = fst (tc_new_bit b s') \<and> core (snd (tc_new_bit b s)) = core (snd (tc_new_bit b s'))"
  by (simp add: tc_new_bit_def core_def Let_def)

lemma new_bit_level [simp]: "at_level level t half (snd (tc_new_bit b s)) = at_level level t half s"
  by (simp add: tc_new_bit_def at_level_def Let_def)

lemma bits_core: "core s = core s' \<Longrightarrow> fst (tc_bits bs s) = fst (tc_bits bs s')"
proof (induction bs arbitrary: s s')
  case Nil
  then show ?case by simp
next
  case (Cons b bs)
  have "smpte_frame (snd (tc_new_bit (of_bool b) s)) = smpte_frame (snd (tc_new_bit (of_bool b) s'))"
    using new_bit_core [OF Cons.prems, of "of_bool b"] by (simp add: core_def)
  then show ?case
    using new_bit_core [OF Cons.prems, of "of_bool b"] Cons.IH by (simp add: prod.case_eq_if Let_def)
qed

lemma steady_sample: "at_level level t half s \<Longrightarrow> \<not> crosses level v \<Longrightarrow> tc_sample now v s = (False, s)"
  by (cases level) (auto simp: tc_sample_def at_level_def crosses_def)

lemma crossing_sample:
  "at_level level t half s \<Longrightarrow> crosses level v \<Longrightarrow>
   tc_sample now v s = tc_transition now (s\<lparr>tc_bit := of_bool (\<not> level)\<rparr>)"
  by (cases level) (auto simp: tc_sample_def at_level_def crosses_def)

lemma not_long_short: "short d \<Longrightarrow> \<not> long d"
  by (simp add: short_def long_def ONE_LEN_def ZERO_LEN_def EPS_def)

lemma transition_cases:
  "long (now - last_transition s) \<Longrightarrow> tc_transition now s = tc_new_bit 0 (s\<lparr>last_transition := now\<rparr>)"
  "short (now - last_transition s) \<Longrightarrow> last_bit s = 0 \<Longrightarrow>
   tc_transition now s = (False, s\<lparr>last_transition := now, last_bit := 1\<rparr>)"
  "short (now - last_transition s) \<Longrightarrow> last_bit s = 1 \<Longrightarrow>
   tc_transition now s = tc_new_bit 1 (s\<lparr>last_transition := now, last_bit := 0\<rparr>)"
  using not_long_short [of "now - last_transition s"]
  by (auto simp: tc_transition_def Let_def long_def short_def)

lemma run_signal:
  "signal level t half xs bs \<Longrightarrow> at_level level t half s \<Longrightarrow> fst (tc_run xs s) = fst (tc_bits bs s)"
proof (induction arbitrary: s rule: signal.induct)
  case (over level t)
  then show ?case by simp
next
  case (steady level v t half xs bs now)
  then show ?case by (simp add: steady_sample prod.case_eq_if)
next
  case (zero level v now t xs bs)
  let ?s = "s\<lparr>tc_bit := of_bool (\<not> level), last_transition := now\<rparr>"
  have t: "tc_sample now v s = tc_new_bit 0 ?s"
    using zero.hyps zero.prems unfolding crossing_sample [OF zero.prems zero.hyps(1)]
    by (simp add: transition_cases at_level_def)
  have l: "at_level (\<not> level) now False (snd (tc_new_bit 0 ?s))" using zero.prems unfolding new_bit_level by (simp add: at_level_def)
  have "core ?s = core s" by (simp add: core_def)
  note c = new_bit_core [OF this, of 0]
  then have "smpte_frame (snd (tc_new_bit 0 ?s)) = smpte_frame (snd (tc_new_bit 0 s))" by (simp add: core_def)
  then show ?case
    using c zero.IH [OF l] bits_core [of "snd (tc_new_bit 0 ?s)" "snd (tc_new_bit 0 s)" bs]
    by (simp add: t prod.case_eq_if Let_def)
next
  case (half_one level v now t xs bs)
  let ?s = "s\<lparr>tc_bit := of_bool (\<not> level), last_transition := now, last_bit := 1\<rparr>"
  have "tc_sample now v s = (False, ?s)"
    using half_one.hyps half_one.prems unfolding crossing_sample [OF half_one.prems half_one.hyps(1)]
    by (simp add: transition_cases at_level_def)
  moreover have "at_level (\<not> level) now True ?s" by (simp add: at_level_def)
  moreover have "fst (tc_bits bs ?s) = fst (tc_bits bs s)" by (rule bits_core) (simp add: core_def)
  ultimately show ?case using half_one.IH by (simp add: prod.case_eq_if)
next
  case (one level v now t xs bs)
  let ?s = "s\<lparr>tc_bit := of_bool (\<not> level), last_transition := now, last_bit := 0\<rparr>"
  have t: "tc_sample now v s = tc_new_bit 1 ?s"
    using one.hyps one.prems unfolding crossing_sample [OF one.prems one.hyps(1)]
    by (simp add: transition_cases at_level_def)
  have l: "at_level (\<not> level) now False (snd (tc_new_bit 1 ?s))" unfolding new_bit_level by (simp add: at_level_def)
  have "core ?s = core s" by (simp add: core_def)
  note c = new_bit_core [OF this, of 1]
  then have "smpte_frame (snd (tc_new_bit 1 ?s)) = smpte_frame (snd (tc_new_bit 1 s))" by (simp add: core_def)
  then show ?case
    using c one.IH [OF l] bits_core [of "snd (tc_new_bit 1 ?s)" "snd (tc_new_bit 1 s)" bs]
    by (simp add: t prod.case_eq_if Let_def)
qed


subsection \<open>From bits to frames\<close>

lemma bit_double: "bit ((w :: u32) * 2) n \<longleftrightarrow> 0 < n \<and> n < 32 \<and> bit w (n - 1)"
proof -
  have "w * 2 = push_bit 1 w" by (simp add: push_bit_eq_mult)
  then show ?thesis using bit_push_bit_iff [of 1 w n] by (auto dest: bit_imp_le_length simp: bit_simps)
qed

text \<open>The word after some bits have been shifted in behind its marker.\<close>

definition shifted :: "bool list \<Rightarrow> u32" where
  "shifted bs = foldl (\<lambda>w b. push_bit 1 w OR of_bool b) 1 bs"

lemma shifted_snoc: "shifted (bs @ [b]) = push_bit 1 (shifted bs) OR of_bool b"
  by (simp add: shifted_def)

lemma bit_shifted:
  "length bs < 32 \<Longrightarrow> n < 32 \<Longrightarrow>
   bit (shifted bs) n \<longleftrightarrow> n = length bs \<or> n < length bs \<and> bs ! (length bs - 1 - n)"
proof (induction bs arbitrary: n rule: rev_induct)
  case Nil
  then show ?case by (simp add: shifted_def bit_1_iff)
next
  case (snoc b bs)
  show ?case
  proof (cases n)
    case 0
    then show ?thesis by (simp add: shifted_snoc bit_or_iff bit_double bit_of_bool_iff nth_append)
  next
    case (Suc m)
    then have "bit (shifted (bs @ [b])) n = bit (shifted bs) m"
      using snoc.prems by (simp add: shifted_snoc bit_or_iff bit_double bit_of_bool_iff)
    then show ?thesis using snoc Suc by (auto simp: nth_append Suc_diff_Suc)
  qed
qed

definition byte_bits :: "u8 \<Rightarrow> bool list" where
  "byte_bits b = map (bit b) [0..<8]"

lemma reverse_byte_bit: "n < 8 \<Longrightarrow> bit (reverse_byte w) n = bit w (7 - n)"
proof -
  assume "n < 8"
  then have "n \<in> {0, 1, 2, 3, 4, 5, 6, 7}" by auto
  then show ?thesis
    by (elim insertE emptyE) (simp_all add: reverse_byte_def bit_simps bit_double)
qed

lemma reverse_shifted: "ucast (reverse_byte (shifted (byte_bits b))) = b"
proof (rule bit_word_eqI)
  fix n assume "n < LENGTH(8)"
  then have n: "n < 8" by simp
  then have "bit (ucast (reverse_byte (shifted (byte_bits b))) :: u8) n = bit (shifted (byte_bits b)) (7 - n)"
    by (simp add: bit_simps reverse_byte_bit)
  also have "\<dots> = bit b n"
    using n by (subst bit_shifted) (auto simp: byte_bits_def)
  finally show "bit (ucast (reverse_byte (shifted (byte_bits b))) :: u8) n = bit b n" .
qed

lemma marker_bit: "(w :: u32) AND 0x100 = 0 \<longleftrightarrow> \<not> bit w 8"
proof -
  have "(0x100 :: u32) = push_bit 8 1" by (simp add: push_bit_eq_mult)
  then show ?thesis by (simp only: and_exp_eq_0_iff_not_bit push_bit_eq_mult mult_1)
qed

lemma tc_bits_append:
  "tc_bits (xs @ ys) s = (fst (tc_bits xs s) @ fst (tc_bits ys (snd (tc_bits xs s))), snd (tc_bits ys (snd (tc_bits xs s))))"
  by (induction xs arbitrary: s) (auto simp: prod.case_eq_if Let_def)

text \<open>Before its eighth bit, a byte is only collected.\<close>

lemma collect_bits:
  "tc_synced s \<Longrightarrow> tc_word s = shifted pre \<Longrightarrow> length (pre @ bs) < 8 \<Longrightarrow>
   tc_bits bs s = ([], s\<lparr>tc_word := shifted (pre @ bs)\<rparr>)"
proof (induction bs arbitrary: pre s)
  case Nil
  then show ?case by simp
next
  case (Cons b bs)
  have "\<not> bit (shifted (pre @ [b])) 8" using Cons.prems by (simp add: bit_shifted)
  moreover have e: "push_bit 1 (tc_word s) OR of_bool b = shifted (pre @ [b])"
    using Cons.prems by (simp only: shifted_snoc)
  ultimately have "tc_new_bit (of_bool b) s = (False, s\<lparr>tc_word := shifted (pre @ [b])\<rparr>)"
    unfolding tc_new_bit_def e using Cons.prems by (simp add: Let_def marker_bit)
  then show ?case
    using Cons.IH [of "s\<lparr>tc_word := shifted (pre @ [b])\<rparr>" "pre @ [b]"] Cons.prems by simp
qed

lemma collect_byte:
  fixes b :: u8
  assumes "tc_synced s" and "tc_word s = 1" and "byte_count s < 8"
  defines "fr \<equiv> (smpte_frame s)[byte_count s := b]"
  shows "tc_bits (byte_bits b) s = (if byte_count s = 7 then [fr] else [],
    s\<lparr>tc_word := 1, smpte_frame := fr, byte_count := byte_count s + 1, tc_synced := byte_count s \<noteq> 7\<rparr>)"
proof -
  let ?pre = "map (bit b) [0..<7]" and ?s = "s\<lparr>tc_word := shifted (map (bit b) [0..<7])\<rparr>"
  have "[0..<8] = [0..<7] @ [7]" by (simp add: eval_nat_numeral)
  then have e: "byte_bits b = ?pre @ [bit b 7]" by (simp add: byte_bits_def)
  have "tc_bits ?pre s = ([], s\<lparr>tc_word := shifted ([] @ ?pre)\<rparr>)"
    using assms by (intro collect_bits) (simp_all add: shifted_def)
  then have 1: "tc_bits ?pre s = ([], ?s)" by simp
  have w: "push_bit 1 (tc_word ?s) OR of_bool (bit b 7) = shifted (byte_bits b)"
    unfolding e shifted_snoc by simp
  have "bit (shifted (byte_bits b)) 8" by (simp add: bit_shifted byte_bits_def)
  then have "tc_new_bit (of_bool (bit b 7)) ?s = (byte_count s = 7,
    s\<lparr>tc_word := 1, smpte_frame := fr, byte_count := byte_count s + 1, tc_synced := byte_count s \<noteq> 7\<rparr>)"
    unfolding tc_new_bit_def w using assms by (auto simp: Let_def marker_bit reverse_shifted)
  then have "tc_bits [bit b 7] ?s = (if byte_count s = 7 then [fr] else [],
    s\<lparr>tc_word := 1, smpte_frame := fr, byte_count := byte_count s + 1, tc_synced := byte_count s \<noteq> 7\<rparr>)"
    by simp
  then show ?thesis unfolding e tc_bits_append 1 by simp
qed

lemma collect_frame:
  "bytes \<noteq> [] \<Longrightarrow> tc_synced s \<Longrightarrow> tc_word s = 1 \<Longrightarrow> byte_count s + length bytes = 8 \<Longrightarrow> length (smpte_frame s) = 8 \<Longrightarrow>
   tc_bits (concat (map byte_bits bytes)) s
   = (let fr = take (byte_count s) (smpte_frame s) @ bytes
      in ([fr], s\<lparr>smpte_frame := fr, byte_count := 8, tc_synced := False\<rparr>))"
proof (induction bytes arbitrary: s)
  case Nil
  then show ?case by simp
next
  case (Cons b bytes)
  note c = collect_byte [OF Cons.prems(2,3), of b]
  show ?case
  proof (cases "bytes = []")
    case True
    then have "byte_count s = 7" using Cons.prems by simp
    moreover from this have "(smpte_frame s)[7 := b] = take 7 (smpte_frame s) @ [b]"
      using Cons.prems by (simp add: list_update_append1 upd_conv_take_nth_drop)
    ultimately show ?thesis using c True Cons.prems(3) by (simp add: Let_def)
  next
    case False
    let ?fr = "(smpte_frame s)[byte_count s := b]"
    let ?s = "s\<lparr>tc_word := 1, smpte_frame := ?fr, byte_count := byte_count s + 1, tc_synced := True\<rparr>"
    have k: "byte_count s < 7" using False Cons.prems by (cases bytes) auto
    then have "tc_bits (byte_bits b) s = ([], ?s)" using c by simp
    moreover have "take (byte_count s + 1) ?fr = take (byte_count s) (smpte_frame s) @ [b]"
      using k Cons.prems by (simp add: take_Suc_conv_app_nth)
    moreover have "tc_bits (concat (map byte_bits bytes)) ?s
      = (let fr = take (byte_count s + 1) ?fr @ bytes in ([fr], ?s\<lparr>smpte_frame := fr, byte_count := 8, tc_synced := False\<rparr>))"
      using Cons.IH [of ?s] False Cons.prems by simp
    ultimately show ?thesis using Cons.prems(3) by (simp add: tc_bits_append Let_def)
  qed
qed

definition sync_bits :: "bool list" where
  "sync_bits = [False, False, True, True, True, True, True, True, True, True, True, True, True, True, False, True]"

lemma search_bit:
  "\<not> tc_synced s \<Longrightarrow> (push_bit 1 (tc_word s) OR of_bool b) AND 0xFFFF \<noteq> 0x3FFD \<Longrightarrow>
   tc_bits (b # bs) s = tc_bits bs (s\<lparr>tc_word := push_bit 1 (tc_word s) OR of_bool b\<rparr>)"
  by (simp add: tc_new_bit_def Let_def)

lemma find_sync:
  assumes "\<not> tc_synced s" and "tc_word s = 0 \<or> tc_word s = 1"
  shows "tc_bits sync_bits s = ([], s\<lparr>tc_synced := True, tc_word := 1, byte_count := 0\<rparr>)"
  using assms unfolding sync_bits_def
  by (elim disjE) (simp_all add: search_bit del: tc_bits.simps(2), simp_all add: tc_new_bit_def Let_def)

text \<open>A signal that carries given bits, to see that there is one.\<close>

fun modulate :: "bool \<Rightarrow> u32 \<Rightarrow> bool list \<Rightarrow> (u32 \<times> int) list" where
  "modulate level t [] = []"
| "modulate level t (False # bs) = (t + 0x1A0, if level then 2000 else - 2000) # modulate (\<not> level) (t + 0x1A0) bs"
| "modulate level t (True # bs) = (t + 0xD0, if level then 2000 else - 2000)
     # (t + 0x1A0, if level then - 2000 else 2000) # modulate level (t + 0x1A0) bs"

lemma signal_modulate: "signal level t False (modulate level t bs) bs"
proof (induction level t bs rule: modulate.induct)
  case (1 level t)
  show ?case by (simp add: signal.over)
next
  case (2 level t bs)
  then show ?case
    by (auto intro!: signal.zero simp: crosses_def long_def ZERO_LEN_def EPS_def)
next
  case (3 level t bs)
  have "t + 0x1A0 - (t + 0xD0) = 0xD0" by simp
  then show ?case
    using 3 by (auto intro!: signal.half_one signal.one simp: crosses_def short_def ONE_LEN_def EPS_def)
qed

text \<open>Between frames the decoder searches, with an empty or a fresh word.\<close>

definition searching :: "'a tc_state_scheme \<Rightarrow> bool" where
  "searching s \<longleftrightarrow> \<not> tc_synced s \<and> (tc_word s = 0 \<or> tc_word s = 1) \<and> length (smpte_frame s) = 8"

definition frame_bits :: "u8 list \<Rightarrow> bool list" where
  "frame_bits fr = sync_bits @ concat (map byte_bits fr)"

lemma decode_frame:
  assumes "searching s" and "length fr = 8"
  shows "fst (tc_bits (frame_bits fr) s) = [fr]" and "searching (snd (tc_bits (frame_bits fr) s))"
proof -
  have s: "\<not> tc_synced s" "tc_word s = 0 \<or> tc_word s = 1" "length (smpte_frame s) = 8"
    using assms(1) by (simp_all add: searching_def)
  note f = find_sync [OF s(1,2)]
  have "fr \<noteq> []" using assms(2) by auto
  then have "tc_bits (frame_bits fr) s
    = ([fr], s\<lparr>tc_synced := False, tc_word := 1, byte_count := 8, smpte_frame := fr\<rparr>)"
    using s(3) assms(2) by (simp add: frame_bits_def tc_bits_append f collect_frame Let_def)
  then show "fst (tc_bits (frame_bits fr) s) = [fr]" "searching (snd (tc_bits (frame_bits fr) s))"
    using assms(2) by (simp_all add: searching_def)
qed

lemma decode_frames:
  "searching s \<Longrightarrow> \<forall>fr \<in> set frs. length fr = 8 \<Longrightarrow> fst (tc_bits (concat (map frame_bits frs)) s) = frs"
  by (induction frs arbitrary: s) (auto simp: tc_bits_append decode_frame)

subsection \<open>The store index\<close>

definition index_ok :: "'a tc_state_scheme \<Rightarrow> bool" where
  "index_ok s \<longleftrightarrow> length (smpte_frame s) = 8 \<and> (tc_synced s \<longrightarrow> byte_count s < 8)"

lemma index_ok_sample: "index_ok s \<Longrightarrow> index_ok (snd (tc_sample now v s))"
proof -
  have b: "index_ok s \<Longrightarrow> index_ok (snd (tc_new_bit b s))" for b and s :: "'a tc_state_scheme"
    by (auto simp: tc_new_bit_def index_ok_def Let_def)
  have "index_ok s \<Longrightarrow> index_ok (snd (tc_transition now s))" for s :: "'a tc_state_scheme"
    unfolding tc_transition_def Let_def
    using b [of "s\<lparr>last_transition := now\<rparr>" 0] b [of "s\<lparr>last_transition := now, last_bit := 0\<rparr>" 1]
    by (auto simp: index_ok_def emit_def)
  from this [of "s\<lparr>tc_bit := _\<rparr>"] show "index_ok s \<Longrightarrow> index_ok (snd (tc_sample now v s))"
    by (simp add: tc_sample_def index_ok_def Let_def)
qed

subsection \<open>The properties\<close>

text \<open>C6: a biphase signal that carries SMPTE frames, each with its sync word in front, is decoded
  to exactly these frames, in their order, however often the level is sampled between the
  transitions and wherever in its tolerance each transition comes.\<close>

theorem tc_decodes_stream:
  assumes "signal level t False xs (concat (map frame_bits frs))" and "\<forall>fr \<in> set frs. length fr = 8"
    and "at_level level t False s" and "searching s"
  shows "fst (tc_run xs s) = frs"
  using run_signal [OF assms(1,3)] decode_frames [OF assms(4,2)] by simp

definition sample_tc :: tc_state where
  "sample_tc = menu_state.extend two_menus (tc_state.fields (replicate 8 0) 0 0 0 False 0 0)"

lemmas sample_tc_fields = sample_tc_def two_menus_def menu_state.defs tc_state.defs

theorem tc_decodes_stream_witness:
  "fst (tc_run (modulate False 0 (concat (map frame_bits [[5, 1, 9, 2, 0, 3, 2, 1], [6, 1, 9, 2, 0, 3, 2, 1]]))) sample_tc)
   = [[5, 1, 9, 2, 0, 3, 2, 1], [6, 1, 9, 2, 0, 3, 2, 1]]"
  by (rule tc_decodes_stream [OF signal_modulate]) (simp_all add: sample_tc_fields at_level_def searching_def)

text \<open>Whatever samples arrive at whatever times, the decoder is never synchronised with eight
  bytes collected, so the store into the frame stays inside its eight bytes.\<close>

theorem tc_index_in_frame:
  fixes s :: "'a tc_state_scheme"
  assumes "length (smpte_frame s) = 8" and "\<not> tc_synced s"
  shows "tc_synced (snd (tc_run xs s)) \<longrightarrow> byte_count (snd (tc_run xs s)) < 8"
proof -
  have "index_ok s \<Longrightarrow> index_ok (snd (tc_run xs s))" for s :: "'a tc_state_scheme"
  proof (induction xs arbitrary: s)
    case Nil
    then show ?case by simp
  next
    case (Cons x xs)
    then show ?case by (cases x) (simp add: prod.case_eq_if Let_def index_ok_sample)
  qed
  then show ?thesis using assms by (simp add: index_ok_def)
qed

theorem tc_index_in_frame_witness:
  "\<not> (tc_synced (snd (tc_run (modulate False 0 sync_bits) sample_tc))
      \<and> 8 \<le> byte_count (snd (tc_run (modulate False 0 sync_bits) sample_tc)))"
  using tc_index_in_frame [of sample_tc "modulate False 0 sync_bits"] by (auto simp: sample_tc_fields)

end
