(* ===== verification/Reloc.thy ===== *)
theory Reloc
  imports Memory
begin

text \<open>
  \<open>reloc.c\<close>: copies a function of the firmware from ROM to RAM and fixes the instructions whose
  operand is relative to the program counter.  Modelled as it is compiled for the camera; the
  test program for the host and the messages it prints are not.
\<close>

definition REG_PC :: u32 where "REG_PC = 15"
definition LOAD_MASK :: u32 where "LOAD_MASK = 0x0C000000"
definition LOAD_INSTR :: u32 where "LOAD_INSTR = 0x04000000"
definition BRANCH_MASK :: u32 where "BRANCH_MASK = 0x0F000000"
definition BRANCH_LINK :: u32 where "BRANCH_LINK = 0x0B000000"
definition BRANCH_INSTR :: u32 where "BRANCH_INSTR = 0x0A000000"
definition BRANCH_OFFSET :: u32 where "BRANCH_OFFSET = 0x00FFFFFF"
definition ADD_MASK :: u32 where "ADD_MASK = 0x0DE00000"
definition ADD_INSTR :: u32 where "ADD_INSTR = 0x00800000"

lemmas instr_defs = REG_PC_def LOAD_MASK_def LOAD_INSTR_def BRANCH_MASK_def BRANCH_LINK_def BRANCH_INSTR_def
  BRANCH_OFFSET_def ADD_MASK_def ADD_INSTR_def

definition is_branch :: "u32 \<Rightarrow> bool" where
  "is_branch instr \<longleftrightarrow> instr AND BRANCH_MASK = BRANCH_LINK \<or> instr AND BRANCH_MASK = BRANCH_INSTR"

definition is_add :: "u32 \<Rightarrow> bool" where
  "is_add instr \<longleftrightarrow> instr AND ADD_MASK = ADD_INSTR"

definition is_pc_load :: "u32 \<Rightarrow> bool" where
  "is_pc_load instr \<longleftrightarrow> instr AND LOAD_MASK = LOAD_INSTR \<and> drop_bit 16 instr AND 0xF = REG_PC"

definition branch_dest :: "addr \<Rightarrow> u32 \<Rightarrow> addr" where
  "branch_dest pc instr =
     (let offset = instr AND BRANCH_OFFSET;
          offset = (if offset AND 0x00800000 \<noteq> 0 then offset OR 0xFF000000 else offset)
      in pc + push_bit 2 offset + 8)"

definition load_dest :: "addr \<Rightarrow> u32 \<Rightarrow> addr" where
  "load_dest pc instr =
     (let offset = instr AND 0xFFF
      in pc + (if instr AND push_bit 23 1 = 0 then - offset else offset) + 8)"

text \<open>The distance of a jump, in instructions: an arithmetic shift of the signed difference.\<close>

definition new_jump :: "addr \<Rightarrow> addr \<Rightarrow> int" where
  "new_jump new_pc dest = sint (dest - new_pc - 8) div 4"

definition can_fix :: "int \<Rightarrow> bool" where
  "can_fix jump \<longleftrightarrow> \<not> (jump \<ge> 0x00800000 \<or> jump \<le> - 0x00800000)"

definition fix_branch :: "u32 \<Rightarrow> int \<Rightarrow> u32" where
  "fix_branch instr jump = (instr AND NOT BRANCH_OFFSET) OR (word_of_int jump AND BRANCH_OFFSET)"

definition fix_load :: "u32 \<Rightarrow> addr \<Rightarrow> addr \<Rightarrow> u32" where
  "fix_load instr new_pc fixups =
     (let new_offset = sint (fixups - new_pc - 8);
          instr = (if new_offset < 0 then instr AND NOT (push_bit 23 1) else instr)
      in (instr AND NOT 0xFFF) OR (word_of_int \<bar>new_offset\<bar> AND 0xFFF))"

definition inside :: "addr \<Rightarrow> addr \<Rightarrow> addr \<Rightarrow> bool" where
  "inside func_offset func_end dest \<longleftrightarrow> func_offset \<le> dest \<and> dest < func_end"

text \<open>
  One turn of the loop, on the memory and the place for the next literal; \<open>base\<close> is the address
  \<open>mem\<close> of the C code, which turns an address of the function into the one its copy is read
  from.  An addition to the program counter is recognised but left alone.
\<close>

definition reloc_step ::
  "addr \<Rightarrow> addr \<Rightarrow> addr \<Rightarrow> addr \<Rightarrow> addr \<Rightarrow> memory \<times> addr \<Rightarrow> memory \<times> addr" where
  "reloc_step base func_offset func_end pc new_pc st =
     (let (m, fixups) = st;
          instr = load_word m (base + pc);
          m = store_word new_pc instr m
      in if is_branch instr then
           (let dest = branch_dest pc instr
            in if inside func_offset func_end dest then (m, fixups)
               else
                 let jump = new_jump new_pc dest
                 in if \<not> can_fix jump then (m, fixups)
                    else (store_word new_pc (fix_branch instr jump) m, fixups))
         else if is_add instr then (m, fixups)
         else if is_pc_load instr then
           (let dest = load_dest pc instr
            in if inside func_offset func_end dest then (m, fixups)
               else
                 let data = load_word m (base + dest);
                     new_instr = fix_load instr new_pc fixups;
                     m = store_word fixups data m;
                     m = store_word new_pc new_instr m
                 in (m, fixups + 4))
         else (m, fixups))"

text \<open>The loop does not end when \<open>func_end\<close> is in the last word of the address space.\<close>

partial_function (option) reloc_loop ::
  "addr \<Rightarrow> addr \<Rightarrow> addr \<Rightarrow> addr \<Rightarrow> addr \<Rightarrow> memory \<times> addr \<Rightarrow> (memory \<times> addr) option" where
  "reloc_loop base func_offset func_end pc new_pc st =
     (if pc \<le> func_end
      then reloc_loop base func_offset func_end (pc + 4) (new_pc + 4)
             (reloc_step base func_offset func_end pc new_pc st)
      else Some st)"

text \<open>The entry point of the copy, and the memory.\<close>

definition reloc :: "addr \<Rightarrow> addr \<Rightarrow> addr \<Rightarrow> addr \<Rightarrow> addr \<Rightarrow> memory \<Rightarrow> (addr \<times> memory) option" where
  "reloc buf load_addr func_offset func_end new_pc m =
     map_option (\<lambda>(m, fixups). (new_pc + 16, m))
       (reloc_loop (buf - load_addr) func_offset func_end func_offset (new_pc + 16) (m, new_pc))"

subsection \<open>Fixed instructions\<close>

lemma sign_extend_24:
  assumes "- 0x00800000 \<le> j" and "j < 0x00800000"
  shows "(let o' = word_of_int j AND BRANCH_OFFSET in if o' AND 0x00800000 \<noteq> 0 then o' OR 0xFF000000 else o') = (word_of_int j :: u32)"
proof -
  have m: "BRANCH_OFFSET = mask 24" "(0x00800000 :: u32) = 2 ^ 23" "(0xFF000000 :: u32) = push_bit 24 (mask 8)"
    by (simp_all add: mask_eq_exp_minus_1 push_bit_eq_mult BRANCH_OFFSET_def)
  have "signed_take_bit 23 j = j" using assms by (intro signed_take_bit_int_eq_self) simp_all
  moreover have "bit (signed_take_bit 23 j) n = bit j (min 23 n)" for n by (simp add: bit_signed_take_bit_iff)
  ultimately have j: "bit j n = bit j (min n 23)" for n by (simp add: min.commute)
  show ?thesis
    unfolding Let_def m and_exp_eq_0_iff_not_bit
  proof (rule bit_word_eqI)
    fix n assume n: "n < LENGTH(32)"
    show "bit (if \<not> \<not> bit (word_of_int j AND mask 24 :: u32) 23 then (word_of_int j AND mask 24) OR push_bit 24 (mask 8)
        else word_of_int j AND mask 24 :: u32) n = bit (word_of_int j :: u32) n"
    proof (cases "n < 24")
      case True
      then show ?thesis by (auto simp: bit_simps)
    next
      case False
      then have "bit j n = bit j 23" using j [of n] by simp
      then show ?thesis using False n by (auto simp: bit_simps)
    qed
  qed
qed

lemma branch_kind_kept: "fix_branch instr j AND NOT BRANCH_OFFSET = instr AND NOT BRANCH_OFFSET"
  unfolding fix_branch_def by (rule bit_word_eqI) (auto simp: bit_simps)

lemma sint_mod_4: "sint (v :: u32) mod 4 = uint v mod 4"
proof -
  have "take_bit 2 (sint v) = take_bit 2 (uint v)" by (simp add: sint_uint take_bit_signed_take_bit)
  then show ?thesis by (simp add: take_bit_eq_mod)
qed

lemma diff_mod_4: "4 dvd unat (a :: u32) \<Longrightarrow> uint (a - 8) mod 4 = 0"
proof -
  assume "4 dvd unat a"
  then obtain q where "unat a = 4 * q" by (auto elim: dvdE)
  then have "uint a - 8 = 4 * (int q - 2)" by (simp add: uint_nat)
  then have "uint (a - 8) = (4 * (int q - 2)) mod 2 ^ 32" by (simp add: uint_word_ariths)
  then show ?thesis using mod_mod_cancel [of 4 "2 ^ 32" "4 * (int q - 2)"] by simp
qed

lemma fixed_branch_dest:
  assumes "can_fix (new_jump new_pc dest)" and "4 dvd unat (dest - new_pc)"
  shows "branch_dest new_pc (fix_branch instr (new_jump new_pc dest)) = dest"
proof -
  let ?j = "new_jump new_pc dest" and ?d = "dest - new_pc - 8"
  have o: "fix_branch instr ?j AND BRANCH_OFFSET = word_of_int ?j AND BRANCH_OFFSET"
    unfolding fix_branch_def by (rule bit_word_eqI) (auto simp: bit_simps)
  have "sint ?d mod 4 = 0" using sint_mod_4 [of ?d] diff_mod_4 [OF assms(2)] by simp
  then have "4 * ?j = sint ?d" unfolding new_jump_def by (metis add.right_neutral mult_div_mod_eq)
  then have "word_of_int (4 * ?j) = ?d" by simp
  moreover have "push_bit 2 (word_of_int ?j) = (word_of_int (4 * ?j) :: u32)"
    by (simp add: push_bit_eq_mult)
  moreover have "branch_dest new_pc (fix_branch instr ?j) = new_pc + push_bit 2 (word_of_int ?j) + 8"
    using sign_extend_24 [of ?j] assms(1) by (simp add: branch_dest_def o can_fix_def Let_def)
  ultimately show ?thesis by simp
qed

lemma fixed_load_dest:
  assumes "new_pc = fixups + of_nat k" and "k + 8 < 4096"
  shows "load_dest new_pc (fix_load instr new_pc fixups) = fixups"
    and "fix_load instr new_pc fixups AND NOT 0x00800FFF = instr AND NOT 0x00800FFF"
proof -
  have s: "sint (fixups - new_pc - 8) = - int (k + 8)"
  proof -
    have "fixups - new_pc - 8 = word_of_int (- int (k + 8))" by (simp add: assms(1))
    then have "sint (fixups - new_pc - 8) = i32 (- int (k + 8))" by (simp only: sint_word_of_int_u32)
    then show ?thesis using assms(2) by (simp add: i32_id)
  qed
  have c: "(- int (k + 8) < 0) = True" "(word_of_int \<bar>- int (k + 8)\<bar> :: u32) = of_nat (k + 8)" by simp_all
  have m: "(0xFFF :: u32) = mask 12" by (simp add: mask_eq_exp_minus_1)
  have o: "of_nat (k + 8) AND mask 12 = (of_nat (k + 8) :: u32)"
    using assms(2) by (simp only: take_bit_eq_mask [symmetric] take_bit_of_nat) (simp add: take_bit_nat_eq_self)
  have f: "fix_load instr new_pc fixups = ((instr AND NOT (push_bit 23 1)) AND NOT (mask 12)) OR (of_nat (k + 8) AND mask 12)"
    unfolding fix_load_def s Let_def c if_True m ..
  have "fix_load instr new_pc fixups AND mask 12 = of_nat (k + 8) AND mask 12"
    unfolding f by (rule bit_word_eqI) (auto simp: bit_simps)
  moreover have "\<not> bit (fix_load instr new_pc fixups) 23"
    unfolding f by (simp add: bit_simps)
  then have "fix_load instr new_pc fixups AND push_bit 23 1 = 0"
    by (simp add: push_bit_eq_mult and_exp_eq_0_iff_not_bit [of _ 23, simplified])
  ultimately show "load_dest new_pc (fix_load instr new_pc fixups) = fixups"
    unfolding load_dest_def Let_def m o by (simp add: assms(1))
  have n: "(0x00800FFF :: u32) = push_bit 23 1 OR mask 12"
    by (simp add: mask_eq_exp_minus_1 push_bit_eq_mult)
  show "fix_load instr new_pc fixups AND NOT 0x00800FFF = instr AND NOT 0x00800FFF"
    unfolding f n by (rule bit_word_eqI) (auto simp: bit_simps)
qed


subsection \<open>One instruction\<close>

text \<open>
  When is the copy \<open>instr'\<close> at \<open>new_pc\<close> as good as the original \<open>instr\<close> at \<open>pc\<close>?  A branch
  out of the function that can be fixed reaches the same address and is otherwise unchanged; a
  load from outside loads the same word, from the copy's own literals; everything else is the same.
\<close>

definition literal :: "addr \<Rightarrow> addr \<Rightarrow> addr \<Rightarrow> u32 \<Rightarrow> bool" where
  "literal lo hi pc instr \<longleftrightarrow>
     \<not> is_branch instr \<and> \<not> is_add instr \<and> is_pc_load instr \<and> \<not> inside lo hi (load_dest pc instr)"

definition relocated ::
  "addr \<Rightarrow> addr \<Rightarrow> addr \<Rightarrow> memory \<Rightarrow> memory \<Rightarrow> addr \<Rightarrow> addr \<Rightarrow> bool" where
  "relocated base lo hi m0 m pc new_pc =
     (let instr = load_word m0 (base + pc); instr' = load_word m new_pc
      in if is_branch instr \<and> \<not> inside lo hi (branch_dest pc instr) \<and> can_fix (new_jump new_pc (branch_dest pc instr))
         then branch_dest new_pc instr' = branch_dest pc instr
              \<and> instr' AND NOT BRANCH_OFFSET = instr AND NOT BRANCH_OFFSET
         else if literal lo hi pc instr
         then load_word m (load_dest new_pc instr') = load_word m0 (base + load_dest pc instr)
              \<and> instr' AND NOT 0x00800FFF = instr AND NOT 0x00800FFF
         else instr' = instr)"

text \<open>The effect of a step on the memory, by the kind of the instruction.\<close>

lemma reloc_step_cases:
  assumes "instr = load_word m (base + pc)"
  shows "reloc_step base lo hi pc npc (m, fixups) =
    (if is_branch instr \<and> \<not> inside lo hi (branch_dest pc instr) \<and> can_fix (new_jump npc (branch_dest pc instr))
     then (store_word npc (fix_branch instr (new_jump npc (branch_dest pc instr))) (store_word npc instr m), fixups)
     else if literal lo hi pc instr
     then (store_word npc (fix_load instr npc fixups)
             (store_word fixups (load_word (store_word npc instr m) (base + load_dest pc instr)) (store_word npc instr m)),
           fixups + 4)
     else (store_word npc instr m, fixups))"
  using assms by (simp add: reloc_step_def literal_def Let_def)

text \<open>What holds after \<open>k\<close> instructions of a function of \<open>n\<close>.\<close>

definition lit :: "addr \<Rightarrow> addr \<Rightarrow> addr \<Rightarrow> memory \<Rightarrow> nat \<Rightarrow> bool" where
  "lit base lo hi m0 i = literal lo hi (lo + of_nat (4 * i)) (load_word m0 (base + (lo + of_nat (4 * i))))"

definition copied :: "addr \<Rightarrow> addr \<Rightarrow> addr \<Rightarrow> addr \<Rightarrow> nat \<Rightarrow> memory \<Rightarrow> nat \<Rightarrow> memory \<Rightarrow> addr \<Rightarrow> bool" where
  "copied base lo hi d n m0 k m fixups \<longleftrightarrow>
     (\<forall>a. apart d (16 + 4 * n) a \<longrightarrow> load_word m a = load_word m0 a)
     \<and> (\<forall>i < k. relocated base lo hi m0 m (lo + of_nat (4 * i)) (d + of_nat (16 + 4 * i)))
     \<and> fixups = d + of_nat (4 * card {i. i < k \<and> lit base lo hi m0 i})
     \<and> (\<forall>i < k. lit base lo hi m0 i \<longrightarrow> (\<exists>j < card {i. i < k \<and> lit base lo hi m0 i}.
          load_dest (d + of_nat (16 + 4 * i)) (load_word m (d + of_nat (16 + 4 * i))) = d + of_nat (4 * j)))"

lemma card_less_Suc_if: "card {i. i < Suc k \<and> P i} = card {i. i < k \<and> P i} + of_bool (P k)"
proof -
  have "{i. i < Suc k \<and> P i} = {i. i < k \<and> P i} \<union> (if P k then {k} else {})"
    by (auto simp: less_Suc_eq)
  moreover have "finite {i. i < k \<and> P i}" by simp
  ultimately show ?thesis by simp
qed

text \<open>A change of the memory that spares the sources, the copies made and their literals.\<close>

lemma copied_kept:
  assumes c: "copied base lo hi d n m0 k m fixups"
    and frame: "\<And>a. apart d (16 + 4 * n) a \<Longrightarrow> load_word m' a = load_word m a"
    and code: "\<And>i. i < k \<Longrightarrow> load_word m' (d + of_nat (16 + 4 * i)) = load_word m (d + of_nat (16 + 4 * i))"
    and literals: "\<And>j. j < card {i. i < k \<and> lit base lo hi m0 i} \<Longrightarrow>
      load_word m' (d + of_nat (4 * j)) = load_word m (d + of_nat (4 * j))"
  shows "copied base lo hi d n m0 k m' fixups"
proof -
  have dest: "\<exists>j < card {i. i < k \<and> lit base lo hi m0 i}.
      load_dest (d + of_nat (16 + 4 * i)) (load_word m (d + of_nat (16 + 4 * i))) = d + of_nat (4 * j)"
    if "i < k" "lit base lo hi m0 i" for i
    using c that by (simp add: copied_def)
  have "relocated base lo hi m0 m' (lo + of_nat (4 * i)) (d + of_nat (16 + 4 * i))" if i: "i < k" for i
  proof -
    have r: "relocated base lo hi m0 m (lo + of_nat (4 * i)) (d + of_nat (16 + 4 * i))"
      using c i by (simp add: copied_def)
    show ?thesis
    proof (cases "lit base lo hi m0 i")
      case True
      then obtain j where "j < card {i. i < k \<and> lit base lo hi m0 i}"
        "load_dest (d + of_nat (16 + 4 * i)) (load_word m (d + of_nat (16 + 4 * i))) = d + of_nat (4 * j)"
        using dest [OF i] by blast
      then have e: "load_word m' (load_dest (d + of_nat (16 + 4 * i)) (load_word m (d + of_nat (16 + 4 * i))))
        = load_word m (load_dest (d + of_nat (16 + 4 * i)) (load_word m (d + of_nat (16 + 4 * i))))"
        using literals by simp
      then show ?thesis using r unfolding relocated_def Let_def code [OF i] by (simp only: e)
    next
      case False
      then show ?thesis using r unfolding relocated_def Let_def code [OF i] lit_def by (simp only: if_False)
    qed
  qed
  then show ?thesis using c dest code frame unfolding copied_def by simp
qed

lemma copied_next:
  assumes "copied base lo hi d n m0 k m fixups"
    and "relocated base lo hi m0 m (lo + of_nat (4 * k)) (d + of_nat (16 + 4 * k))"
    and "lit base lo hi m0 k \<Longrightarrow>
      load_dest (d + of_nat (16 + 4 * k)) (load_word m (d + of_nat (16 + 4 * k))) = fixups"
  shows "copied base lo hi d n m0 (Suc k) m (if lit base lo hi m0 k then fixups + 4 else fixups)"
proof -
  let ?f = "card {i. i < k \<and> lit base lo hi m0 i}"
  have f: "fixups = d + of_nat (4 * ?f)" using assms(1) by (simp add: copied_def)
  have "\<exists>j < ?f + of_bool (lit base lo hi m0 k).
      load_dest (d + of_nat (16 + 4 * i)) (load_word m (d + of_nat (16 + 4 * i))) = d + of_nat (4 * j)"
    if i: "i < Suc k" and l: "lit base lo hi m0 i" for i
  proof (cases "i = k")
    case True
    then have "load_dest (d + of_nat (16 + 4 * i)) (load_word m (d + of_nat (16 + 4 * i))) = d + of_nat (4 * ?f)"
      using assms(3) l f by simp
    then show ?thesis using l True by (intro exI [of _ ?f]) simp
  next
    case False
    then have "i < k" using i by simp
    then obtain j where "j < ?f"
      "load_dest (d + of_nat (16 + 4 * i)) (load_word m (d + of_nat (16 + 4 * i))) = d + of_nat (4 * j)"
      using assms(1) l unfolding copied_def by blast
    then show ?thesis by (intro exI [of _ j]) simp
  qed
  then show ?thesis
    using assms(1,2) unfolding copied_def card_less_Suc_if by (auto simp: less_Suc_eq)
qed

subsection \<open>The loop\<close>

text \<open>
  The conditions on a relocation of \<open>n\<close> instructions: source and literals are apart from the
  target, source and target have the same alignment, the literals fit their 16 bytes and the
  loads of literals are near enough for their 12-bit offset.
\<close>

definition relocatable :: "addr \<Rightarrow> addr \<Rightarrow> addr \<Rightarrow> addr \<Rightarrow> nat \<Rightarrow> memory \<Rightarrow> bool" where
  "relocatable base lo hi d n m0 \<longleftrightarrow>
     4 dvd unat (d - lo) \<and> n \<le> 2 ^ 20
     \<and> (\<forall>k < n. apart d (16 + 4 * n) (base + (lo + of_nat (4 * k))))
     \<and> (\<forall>k < n. lit base lo hi m0 k \<longrightarrow> k < 1018 \<and> apart d (16 + 4 * n)
          (base + load_dest (lo + of_nat (4 * k)) (load_word m0 (base + (lo + of_nat (4 * k))))))
     \<and> card {k. k < n \<and> lit base lo hi m0 k} \<le> 4"

lemma dvd_unat_mult: "4 dvd unat (4 * w :: u32)"
  by (simp add: unat_word_ariths dvd_mod)

lemma branch_dest_aligned:
  assumes "4 dvd unat (d - lo)"
  shows "4 dvd unat (branch_dest (lo + of_nat (4 * k)) instr - (d + of_nat (16 + 4 * k)))"
proof -
  obtain q where "unat (d - lo) = 4 * q" using assms by (elim dvdE)
  then have "of_nat (unat (d - lo)) = (of_nat (4 * q) :: u32)" by simp
  then have "d - lo = of_nat (4 * q)" by simp
  then have d: "d = lo + 4 * of_nat q" by (simp add: algebra_simps)
  obtain x where "branch_dest (lo + of_nat (4 * k)) instr = lo + of_nat (4 * k) + push_bit 2 x + 8"
    by (auto simp: branch_dest_def Let_def)
  then have "branch_dest (lo + of_nat (4 * k)) instr - (d + of_nat (16 + 4 * k)) = 4 * (x - of_nat q - 2)"
    by (simp add: d push_bit_eq_mult algebra_simps)
  then show ?thesis by (simp only: dvd_unat_mult)
qed

text \<open>Stores into the instruction that is copied, and into the next free literal.\<close>

lemma copied_store_code:
  assumes "copied base lo hi d n m0 k m fixups" and "relocatable base lo hi d n m0" and "k < n"
  shows "copied base lo hi d n m0 k (store_word (d + of_nat (16 + 4 * k)) v m) fixups"
proof (rule copied_kept [OF assms(1)])
  have n: "n \<le> 2 ^ 20" using assms(2) by (simp add: relocatable_def)
  have f: "card {i. i < k \<and> lit base lo hi m0 i} \<le> 4"
    using assms(2,3) card_mono [of "{i. i < n \<and> lit base lo hi m0 i}" "{i. i < k \<and> lit base lo hi m0 i}"]
    by (fastforce simp: relocatable_def)
  let ?m = "store_word (d + of_nat (16 + 4 * k)) v m"
  show "load_word ?m a = load_word m a" if "apart d (16 + 4 * n) a" for a
    using that assms(3) by (intro load_store_apart) auto
  show "load_word ?m (d + of_nat (16 + 4 * i)) = load_word m (d + of_nat (16 + 4 * i))" if "i < k" for i
    using that assms(3) n by (subst load_store_at) auto
  show "load_word ?m (d + of_nat (4 * j)) = load_word m (d + of_nat (4 * j))"
    if "j < card {i. i < k \<and> lit base lo hi m0 i}" for j
    using that assms(3) n f by (subst load_store_at) auto
qed

lemma literals_fit:
  assumes "relocatable base lo hi d n m0" and "k < n" and "lit base lo hi m0 k"
  shows "card {i. i < k \<and> lit base lo hi m0 i} < 4"
proof -
  have "card {i. i < Suc k \<and> lit base lo hi m0 i} \<le> card {i. i < n \<and> lit base lo hi m0 i}"
    using assms(2) by (intro card_mono) auto
  then show ?thesis using assms by (simp add: card_less_Suc_if relocatable_def)
qed

lemma copied_store_literal:
  assumes "copied base lo hi d n m0 k m fixups" and "relocatable base lo hi d n m0" and "k < n"
    and "lit base lo hi m0 k"
  shows "copied base lo hi d n m0 k (store_word fixups v m) fixups"
proof (rule copied_kept [OF assms(1)])
  let ?f = "card {i. i < k \<and> lit base lo hi m0 i}"
  have n: "n \<le> 2 ^ 20" and f: "?f < 4" using assms(2) literals_fit [OF assms(2-4)] by (simp_all add: relocatable_def)
  have fx: "fixups = d + of_nat (4 * ?f)" using assms(1) by (simp add: copied_def)
  show "load_word (store_word fixups v m) a = load_word m a" if "apart d (16 + 4 * n) a" for a
    unfolding fx using that f assms(3) by (intro load_store_apart) auto
  show "load_word (store_word fixups v m) (d + of_nat (16 + 4 * i)) = load_word m (d + of_nat (16 + 4 * i))" if "i < k" for i
    unfolding fx using that assms(3) n f by (subst load_store_at) auto
  show "load_word (store_word fixups v m) (d + of_nat (4 * j)) = load_word m (d + of_nat (4 * j))" if "j < ?f" for j
    unfolding fx using that assms(3) n f by (subst load_store_at) auto
qed

text \<open>The copy of a load from outside.\<close>

lemma copied_literal:
  assumes c: "copied base lo hi d n m0 k m fixups" and r: "relocatable base lo hi d n m0" and k: "k < n"
    and l: "lit base lo hi m0 k"
  defines "pc \<equiv> lo + of_nat (4 * k)" and "npc \<equiv> d + of_nat (16 + 4 * k)"
  defines "instr \<equiv> load_word m0 (base + pc)"
  defines "m' \<equiv> store_word npc (fix_load instr npc fixups) (store_word fixups (load_word m0 (base + load_dest pc instr)) m)"
  shows "copied base lo hi d n m0 (Suc k) m' (fixups + 4)"
proof -
  let ?f = "card {i. i < k \<and> lit base lo hi m0 i}"
  have n: "n \<le> 2 ^ 20" and k1: "k < 1018" using r k l by (simp_all add: relocatable_def)
  have f: "?f < 4" by (rule literals_fit [OF r k l])
  have fx: "fixups = d + of_nat (4 * ?f)" using c by (simp add: copied_def)
  have lit: "literal lo hi pc instr" using l by (simp add: lit_def pc_def instr_def)
  then have nb: "\<not> is_branch instr" by (simp add: literal_def)
  have c3: "copied base lo hi d n m0 k m' fixups"
    unfolding m'_def npc_def by (intro copied_store_code copied_store_literal c r k l)
  have np: "npc = fixups + of_nat (16 + 4 * k - 4 * ?f)"
    unfolding fx npc_def using f by (simp add: of_nat_diff)
  have dest: "load_dest npc (fix_load instr npc fixups) = fixups"
    "fix_load instr npc fixups AND NOT 0x00800FFF = instr AND NOT 0x00800FFF"
    using fixed_load_dest [OF np, of instr] k1 by auto
  have at: "load_word m' npc = fix_load instr npc fixups" by (simp add: m'_def load_store_same)
  have "load_word m' fixups = load_word m0 (base + load_dest pc instr)"
    unfolding m'_def npc_def fx using f k n by (subst load_store_at) (auto simp: load_store_same)
  then have "relocated base lo hi m0 m' pc npc"
    using lit nb dest by (simp only: relocated_def Let_def at if_True if_False simp_thms instr_def [symmetric])
  then show ?thesis
    using copied_next [OF c3] l dest(1) at by (simp add: pc_def npc_def)
qed

lemma copied_step:
  assumes c: "copied base lo hi d n m0 k m fixups" and r: "relocatable base lo hi d n m0" and k: "k < n"
  obtains m' fixups' where
    "reloc_step base lo hi (lo + of_nat (4 * k)) (d + of_nat (16 + 4 * k)) (m, fixups) = (m', fixups')"
    and "copied base lo hi d n m0 (Suc k) m' fixups'"
proof -
  let ?pc = "lo + of_nat (4 * k)" and ?npc = "d + of_nat (16 + 4 * k)"
  let ?I = "load_word m0 (base + ?pc)"
  have src: "apart d (16 + 4 * n) (base + ?pc)" using r k by (simp add: relocatable_def)
  have fetch: "?I = load_word m (base + ?pc)" using c src by (simp add: copied_def)
  let ?m1 = "store_word ?npc ?I m"
  note c1 = copied_store_code [OF c r k, of ?I]
  note step = reloc_step_cases [OF fetch, of lo hi ?npc fixups]
  let ?B = "is_branch ?I \<and> \<not> inside lo hi (branch_dest ?pc ?I) \<and> can_fix (new_jump ?npc (branch_dest ?pc ?I))"
  consider (branch) ?B | (load) "\<not> ?B" "lit base lo hi m0 k" | (other) "\<not> ?B" "\<not> lit base lo hi m0 k" by blast
  then show thesis
  proof cases
    case branch
    let ?m2 = "store_word ?npc (fix_branch ?I (new_jump ?npc (branch_dest ?pc ?I))) ?m1"
    have nl: "\<not> lit base lo hi m0 k" using branch by (simp add: lit_def literal_def)
    have c2: "copied base lo hi d n m0 k ?m2 fixups" by (rule copied_store_code [OF c1 r k])
    have "relocated base lo hi m0 ?m2 ?pc ?npc"
      using branch branch_dest_aligned [of d lo k ?I] r
      by (simp only: relocated_def Let_def load_store_same if_True fixed_branch_dest branch_kind_kept
          relocatable_def simp_thms)
    then show thesis
      using that [of ?m2 fixups] copied_next [OF c2] nl branch step by simp
  next
    case load
    have "apart d (16 + 4 * n) (base + load_dest ?pc ?I)" using r k load(2) by (simp add: relocatable_def)
    then have w: "load_word ?m1 (base + load_dest ?pc ?I) = load_word m0 (base + load_dest ?pc ?I)"
      using c1 unfolding copied_def by blast
    have lit: "literal lo hi ?pc ?I" using load(2) by (simp add: lit_def)
    show thesis
      by (rule that [OF _ copied_literal [OF c1 r k load(2)]]) (use step load(1) lit in \<open>simp only: if_False if_True w\<close>)
  next
    case other
    have "relocated base lo hi m0 ?m1 ?pc ?npc"
      using other by (simp only: relocated_def Let_def load_store_same if_False lit_def simp_thms)
    then have "copied base lo hi d n m0 (Suc k) ?m1 fixups"
      using copied_next [OF c1] other(2) by simp
    then show thesis using that [of ?m1 fixups] step other by (simp only: if_False lit_def)
  qed
qed

lemma unat_add_index:
  assumes "i \<le> n" and "unat (lo :: u32) + 4 * n < 2 ^ 32"
  shows "unat (lo + of_nat (4 * i)) = unat lo + 4 * i"
proof -
  have "unat (of_nat (4 * i) :: u32) = 4 * i" using assms by (intro unat_of_nat_u32) simp
  then show ?thesis using unat_add_small [of lo "of_nat (4 * i)"] assms by simp
qed

lemma reloc_loop_copies:
  assumes r: "relocatable base lo hi d n m0" and h: "hi = lo + of_nat (4 * (n - 1))" "0 < n" "unat lo + 4 * n < 2 ^ 32"
  shows "copied base lo hi d n m0 k m fixups \<Longrightarrow> k \<le> n \<Longrightarrow>
    \<exists>m' fixups'. reloc_loop base lo hi (lo + of_nat (4 * k)) (d + of_nat (16 + 4 * k)) (m, fixups) = Some (m', fixups')
      \<and> copied base lo hi d n m0 n m' fixups'"
proof (induction "n - k" arbitrary: k m fixups)
  case (Suc j)
  then have k: "k < n" by simp
  obtain m' fixups' where st:
    "reloc_step base lo hi (lo + of_nat (4 * k)) (d + of_nat (16 + 4 * k)) (m, fixups) = (m', fixups')"
    and c: "copied base lo hi d n m0 (Suc k) m' fixups'"
    using copied_step [OF Suc.prems(1) r k] .
  have u: "unat (lo + of_nat (4 * i)) = unat lo + 4 * i" if "i \<le> n" for i
    using that h(3) by (rule unat_add_index)
  have "lo + of_nat (4 * k) \<le> hi"
    using u [of k] u [of "n - 1"] k h(1) by (simp add: word_le_nat_alt)
  moreover have "lo + of_nat (4 * k) + 4 = lo + of_nat (4 * Suc k)" "d + of_nat (16 + 4 * k) + 4 = d + of_nat (16 + 4 * Suc k)"
    by (simp_all add: algebra_simps)
  moreover have "\<exists>m'' fixups''. reloc_loop base lo hi (lo + of_nat (4 * Suc k)) (d + of_nat (16 + 4 * Suc k)) (m', fixups')
      = Some (m'', fixups'') \<and> copied base lo hi d n m0 n m'' fixups''"
    using Suc.hyps(2) k by (intro Suc.hyps(1) c) simp_all
  ultimately show ?case by (subst reloc_loop.simps) (simp only: st if_True)
next
  case 0
  then have k: "k = n" by simp
  have "unat (lo + of_nat (4 * n)) = unat lo + 4 * n" "unat (lo + of_nat (4 * (n - 1))) = unat lo + 4 * (n - 1)"
    by (rule unat_add_index [OF _ h(3)], simp)+
  then have "\<not> lo + of_nat (4 * n) \<le> hi" using h(1,2) by (simp add: word_le_nat_alt)
  then show ?case using 0 by (subst reloc_loop.simps) (simp only: k if_False, blast)
qed

subsection \<open>The property\<close>


text \<open>A branch to the outside and a load of the literal behind the function.\<close>

definition sample_code :: memory where
  "sample_code = store_word 0x100C 0x12345678 (store_word 0x1004 0xE59F0000 (store_word 0x1000 0xEB000100 (\<lambda>a. 0)))"

lemma sample_code_words:
  "load_word sample_code 0x1000 = 0xEB000100" "load_word sample_code 0x1004 = 0xE59F0000"
  "load_word sample_code 0x100C = 0x12345678"
  by (simp_all add: sample_code_def load_word_def store_word_def byte_of_def)

lemma sample_code_kinds:
  "is_branch 0xEB000100" "branch_dest 0x1000 0xEB000100 = 0x1408" "\<not> inside 0x1000 0x1004 0x1408"
  "can_fix (new_jump 0x8010 0x1408)" "\<not> is_branch 0xE59F0000" "literal 0x1000 0x1004 0x1004 0xE59F0000"
  "load_dest 0x1004 0xE59F0000 = 0x100C"
  by (simp_all add: is_branch_def is_add_def is_pc_load_def branch_dest_def load_dest_def inside_def literal_def
      can_fix_def new_jump_def instr_defs)

lemma sample_code_literals: "lit 0 0x1000 0x1004 sample_code 1" "\<not> lit 0 0x1000 0x1004 sample_code 0"
  by (simp_all add: lit_def literal_def sample_code_words sample_code_kinds(1,6) [unfolded literal_def])

lemma less_2_iff: "k < 2 \<longleftrightarrow> k = 0 \<or> k = (1 :: nat)"
  by auto

lemma sample_code_relocatable: "relocatable 0 0x1000 0x1004 0x8000 2 sample_code"
proof -
  have "card {k. k < 2 \<and> lit 0 0x1000 0x1004 sample_code k} \<le> card {..<2 :: nat}"
    by (rule card_mono) auto
  then have c: "card {k. k < 2 \<and> lit 0 0x1000 0x1004 sample_code k} \<le> 4" by simp
  have a: "apart 0x8000 (16 + 4 * 2) 0x1000" "apart 0x8000 (16 + 4 * 2) 0x1004" "apart 0x8000 (16 + 4 * 2) 0x100C"
    by (simp_all add: apart_def)
  have d: "4 dvd unat (0x8000 - 0x1000 :: u32)" "(2 :: nat) \<le> 2 ^ 20" "(0 :: nat) < 1018" "(1 :: nat) < 1018"
    by (simp_all add: dvd_eq_mod_eq_0)
  have i: "0 + (0x1000 + of_nat (4 * 0)) = (0x1000 :: u32)" "0 + (0x1000 + of_nat (4 * 1)) = (0x1004 :: u32)"
    "0x1000 + of_nat (4 * 0) = (0x1000 :: u32)" "0x1000 + of_nat (4 * 1) = (0x1004 :: u32)" "0 + 0x100C = (0x100C :: u32)"
    by simp_all
  show ?thesis
    unfolding relocatable_def using c d
    by (intro conjI) (auto simp only: less_2_iff i add_0_left sample_code_words sample_code_kinds sample_code_literals a)
qed


end
