(* ===== verification/Debug.thy ===== *)
theory Debug
  imports Property Menu
begin

text \<open>
  \<open>debug.c\<close> and \<open>debug.h\<close>: the debug menu, the viewer of property changes, the timed dump of
  the log and the timed start of a recording.  The movie recorder's state is memory of the
  camera, an argument of the function that prints it.  Calls through the addresses of firmware
  functions are events named after them.
\<close>

definition DM_LVFD :: u32 where "DM_LVFD = 10"
definition DM_LVCDEV :: u32 where "DM_LVCDEV = 61"
definition DM_RSC :: u32 where "DM_RSC = 0x80"
definition DM_DISP :: u32 where "DM_DISP = 64"
definition DM_LV :: u32 where "DM_LV = 86"
definition DM_LVCFG :: u32 where "DM_LVCFG = 89"

definition PROP_EFIC_TEMP :: u32 where "PROP_EFIC_TEMP = 0x80030014"

record debug_state = menu_state +
  qscale :: int
  efic_temp :: u32
  draw_prop :: u32
  debug_token :: u32
  debug_y :: u32
  timed_dump :: int
  timed_start :: int

subsection \<open>Menu\<close>

definition call_dispcheck :: "'a world_scheme \<Rightarrow> 'a world_scheme" where
  "call_dispcheck w = emit (Sys (Call_function ''dispcheck'')) w"

definition next_qscale :: "int \<Rightarrow> int" where
  "next_qscale q = (if i16 (q - 1) < -16 then 16 else i16 (q - 1))"

definition set_vbr :: "'a debug_state_scheme \<Rightarrow> 'a debug_state_scheme" where
  "set_vbr s =
     (let s = emit (Sys (Mvr_call ''mvrFixQScale'' 1)) s;
          s = s\<lparr>qscale := next_qscale (qscale s)\<rparr>
      in emit (Sys (Mvr_call ''mvrSetDefQScale'' (qscale s))) s)"

definition print_vbr :: "u32 \<Rightarrow> u32 \<Rightarrow> int \<Rightarrow> 'a debug_state_scheme \<Rightarrow> 'a debug_state_scheme" where
  "print_vbr x y selected s =
     emit (Draw (Bmp_printf (menu_font selected) x y
       (''QScale:     '' @ (if qscale s < 0 then ''-'' else ''+'')
        @ fmt_d 3 (if qscale s < 0 then - qscale s else qscale s)))) s"

definition mvr_config_struct :: addr where "mvr_config_struct = 0x86b0"

definition load_s16 :: "memory \<Rightarrow> addr \<Rightarrow> int" where
  "load_s16 m a = sint (le16 (\<lambda>k. m (a + of_nat k)) 0)"

definition load_s32 :: "memory \<Rightarrow> addr \<Rightarrow> int" where
  "load_s32 m a = sint (load_word m a)"

definition comma_sep :: "int list \<Rightarrow> string" where
  "comma_sep xs = concat (case map (fmt_d 0) xs of [] \<Rightarrow> [] | t # ts \<Rightarrow> t # map (\<lambda>t. '', '' @ t) ts)"

text \<open>The lines that describe the recorder; each is 17 pixels below the one before.\<close>

definition movie_log_lines :: "memory \<Rightarrow> string list" where
  "movie_log_lines m =
     (let mvr_struct = load_word m (0x1eec + 4); gop_struct = 0x875c
      in [''mvr.bitrate='' @ fmt_d 0 (load_s16 m (mvr_struct + 0x1d8)) @ '' mvr.fps=''
            @ fmt_d 0 (load_s16 m (mvr_struct + 0x178)) @ '' frame='' @ fmt_d 0 (load_s32 m (mvr_struct + 0x150)),
          ''LimitQScale(L='' @ fmt_d 0 (load_s16 m (mvr_config_struct + 0xc)) @ '', H=''
            @ fmt_d 0 (load_s16 m (mvr_config_struct + 0xe)) @ '')'',
          ''DefQscale('' @ fmt_d 0 (load_s16 m (mvr_config_struct + 0x8)) @ '')'',
          ''TimeConst('' @ fmt_d 0 (load_s16 m (mvr_config_struct + 0x10)) @ '')'',
          ''FullHDOptSize(I_OPT='' @ fmt_d 0 (load_s32 m (mvr_struct + 0x14)) @ '', P_OPT=''
            @ fmt_d 0 (load_s32 m (mvr_struct + 0x18)) @ '')'',
          ''GopOpt('' @ comma_sep (map (\<lambda>k. load_s32 m (gop_struct + k)) [0x0, 0x4, 0x8, 0xc, 0x10]) @ '')'',
          ''D_FULLHD(H='' @ fmt_d 0 (load_s32 m (mvr_struct + 0x1c)) @ '', L=''
            @ fmt_d 0 (load_s32 m (mvr_struct + 0x20)) @ '')'',
          ''DefDB(A='' @ fmt_d 0 (load_s32 m (mvr_config_struct + 0x1c)) @ '', B=''
            @ fmt_d 0 (load_s32 m (mvr_config_struct + 0x20)) @ '')'',
          ''FixQscale('' @ (if load_s16 m (mvr_config_struct + 0x2) \<noteq> 0 then ''FIX'' else ''VBR'') @ '')''])"

fun print_lines :: "u32 \<Rightarrow> string list \<Rightarrow> fw_event list" where
  "print_lines y [] = []"
| "print_lines y (l # ls) = Draw (Bmp_printf FONT_MED 0 (y + 17) l) # print_lines (y + 17) ls"

definition call_setprintmovielog :: "memory \<Rightarrow> 'a menu_state_scheme \<Rightarrow> 'a menu_state_scheme" where
  "call_setprintmovielog m s = emits (print_lines 40 (movie_log_lines m)) (gui_stop_menu s)"

definition efic_temp_display :: "u32 \<Rightarrow> u32 \<Rightarrow> int \<Rightarrow> 'a debug_state_scheme \<Rightarrow> 'a debug_state_scheme" where
  "efic_temp_display x y selected s =
     emit (Draw (Bmp_printf (menu_font selected) x y (''CMOS temp:  '' @ fmt_d 0 (sint (efic_temp s))))) s"

definition draw_prop_select :: "'a debug_state_scheme \<Rightarrow> 'a debug_state_scheme" where
  "draw_prop_select s = s\<lparr>draw_prop := c_not (draw_prop s)\<rparr>"

definition save_config ::
  "answers \<Rightarrow> build_info \<Rightarrow> tm \<Rightarrow> config_var list \<Rightarrow> 'a world_scheme \<Rightarrow> 'a world_scheme option" where
  "save_config orc b now vars w = map_option snd (config_save_file orc b now ''A:/magiclantern.cfg'' vars w)"

subsection \<open>Property changes\<close>

definition debug_prop ::
  "u32 \<Rightarrow> u32 \<Rightarrow> u8 list \<Rightarrow> 'a debug_state_scheme \<Rightarrow> 'a debug_state_scheme option" where
  "debug_prop token property buf s =
     Some (emit (Prop (Prop_cleanup token property))
       (if property = PROP_EFIC_TEMP then s\<lparr>efic_temp := buf32 buf\<rparr> else s))"

definition debug_token_handler :: "u32 \<Rightarrow> 'a debug_state_scheme \<Rightarrow> 'a debug_state_scheme" where
  "debug_token_handler token s = s\<lparr>debug_token := token\<rparr>"

text \<open>The word \<open>k\<close> of the buffer when the buffer is longer than \<open>4 k\<close> bytes.\<close>

definition prop_word :: "u8 list \<Rightarrow> nat \<Rightarrow> u32" where
  "prop_word buf k = (if length buf > 4 * k then le32_at (buf8 buf) (4 * k) else 0)"

definition debug_property_handler ::
  "fonts \<Rightarrow> u32 \<Rightarrow> u8 list \<Rightarrow> 'a debug_state_scheme \<Rightarrow> 'a debug_state_scheme" where
  "debug_property_handler fs property buf s =
     (if draw_prop s = 0 then emit (Prop (Prop_cleanup (debug_token s) property)) s
      else
        let y = debug_y s;
            s = emit (Draw (Bmp_printf FONT_SMALL 80 y
                  (fmt_0x 8 property @ '' '' @ fmt_0x 4 (of_nat (length buf)) @ '':''
                   @ concat (map (\<lambda>k. '' '' @ fmt_0x 8 (prop_word buf k)) [0..<6])))) s;
            y = y + ucast (font_height (font_small fs));
            s = emit (Draw (Bmp_fill (ucast COLOR_RED) 80 y 100 1)) s;
            y = (if y > 400 then 32 else y)
        in emit (Prop (Prop_cleanup (debug_token s) property)) (s\<lparr>debug_y := y\<rparr>))"

subsection \<open>Registration\<close>

definition num_properties :: nat where "num_properties = 8192"

definition unwanted :: "u32 list" where
  "unwanted = [0x80030014, 0x80030015, 0x80050000, 0x80050004, 0x80050005, 0x80050010, 0x8005000f]"

text \<open>The turns of the two nested loops, in their order.\<close>

definition prop_candidates :: "u32 list" where
  "prop_candidates = concat (map (\<lambda>j. map (\<lambda>k. push_bit 28 8 OR push_bit 16 (of_nat j) OR of_nat k) [0..<0x40]) [0..<9])"

fun collect_props :: "u32 list \<Rightarrow> u32 list \<Rightarrow> u32 list" where
  "collect_props acc [] = acc"
| "collect_props acc (p # ps) =
     (let acc = (if p \<notin> set unwanted then acc @ [p] else acc)
      in if length acc > num_properties then acc else collect_props acc ps)"

definition property_list :: "u32 list" where
  "property_list = collect_props [] prop_candidates"

text \<open>\<open>handler\<close> is the address of the property handler, \<open>menu\<close> of the eight menu entries.\<close>

definition debug_init :: "answers \<Rightarrow> addr \<Rightarrow> addr \<Rightarrow> 'a debug_state_scheme \<Rightarrow> 'a debug_state_scheme option" where
  "debug_init orc handler menu s =
     (let s = s\<lparr>draw_prop := 0\<rparr>;
          s = emit (Prop (Prop_register_slave property_list handler)) s
      in menu_add orc ''Debug'' menu 8 s)"

subsection \<open>Timed dump and timed start\<close>

text \<open>\<open>sec--\<close> on a machine word: a negative time wraps around before the loop ends.\<close>

definition dump_task :: "'a debug_state_scheme \<Rightarrow> 'a debug_state_scheme" where
  "dump_task s =
     (let s = emits (map (\<lambda>c. Sys (Dm_set_store_level c 4)) [DM_DISP, DM_LVFD, DM_LVCFG, DM_LVCDEV, DM_LV, DM_RSC, 0]) s
      in if timed_dump s = 0 then s
         else emit (Sys (Debug_manager ''dumpf''))
                (emits (replicate (unat (word_of_int (timed_dump s) :: u32)) (Sys (Msleep 1000))) s))"

definition start_font :: "u32 \<Rightarrow> u32" where
  "start_font color = FONT FONT_HUGE color 0"

function countdown :: "int \<Rightarrow> fw_event list" where
  "countdown sec =
     (let sec = sec - 1
      in if sec > 0
         then [Sys (Msleep 1000),
               Draw (Bmp_printf (start_font (if sec > 4 then COLOR_WHITE else COLOR_RED)) 320 150 (''T-'' @ fmt_d 0 sec))]
              @ countdown sec
         else [])"
  by pat_completeness auto
termination by (relation "measure nat") auto

declare countdown.simps [simp del]

definition movie_start :: "'a debug_state_scheme \<Rightarrow> 'a debug_state_scheme" where
  "movie_start s =
     (if timed_start s = 0 then s
      else emits (countdown (timed_start s)
             @ [Draw (Bmp_printf (start_font COLOR_WHITE) 320 150 ''GO!''), Sys (Call_function ''MovieStart''),
                Sys (Msleep 1000), Draw (Bmp_printf (start_font COLOR_WHITE) 320 150 ''   '')]) s)"

subsection \<open>Registered properties\<close>

definition prop_code :: "nat \<Rightarrow> nat \<Rightarrow> u32" where
  "prop_code j k = of_nat (0x80000000 + 0x10000 * j + k)"

lemma collect_props_all:
  "length acc + length ps \<le> num_properties \<Longrightarrow>
   collect_props acc ps = acc @ filter (\<lambda>p. p \<notin> set unwanted) ps"
  by (induction ps arbitrary: acc) auto

lemma or_low: "k < 2 ^ 16 \<Longrightarrow> push_bit 16 a OR of_nat k = push_bit 16 a + (of_nat k :: u32)"
proof -
  assume k: "k < 2 ^ 16"
  have "(of_nat k :: u32) = take_bit 16 (of_nat k)" using k by (simp add: take_bit_of_nat take_bit_nat_eq_self)
  then have n: "bit (of_nat k :: u32) n \<Longrightarrow> n < 16" for n by (metis bit_take_bit_iff)
  have "push_bit 16 a AND (of_nat k :: u32) = 0"
    by (intro bit_word_eqI) (auto simp: bit_and_iff bit_push_bit_iff dest!: n)
  then show ?thesis by (rule disjunctive_add_eq_or [symmetric])
qed

lemma prop_code_or: "j < 9 \<Longrightarrow> k < 0x40 \<Longrightarrow> push_bit 28 8 OR push_bit 16 (of_nat j) OR of_nat k = prop_code j k"
proof -
  assume jk: "j < 9" "k < 0x40"
  have "j \<in> {0, 1, 2, 3, 4, 5, 6, 7, 8}" using jk(1) by auto
  then have "push_bit 28 8 OR push_bit 16 (of_nat j) = push_bit 16 (0x8000 + (of_nat j :: u32))"
    by auto
  then have "push_bit 28 8 OR push_bit 16 (of_nat j) OR of_nat k = push_bit 16 (0x8000 + of_nat j) + (of_nat k :: u32)"
    using or_low [of k "0x8000 + of_nat j"] jk(2) by (simp add: or.assoc [symmetric])
  then show ?thesis by (simp add: prop_code_def push_bit_eq_mult algebra_simps)
qed

lemma unat_prop_code: "j < 9 \<Longrightarrow> k < 0x40 \<Longrightarrow> unat (prop_code j k) = 0x80000000 + 0x10000 * j + k"
  unfolding prop_code_def by (rule unat_of_nat_u32) simp

lemma prop_candidates_eq: "prop_candidates = concat (map (\<lambda>j. map (prop_code j) [0..<0x40]) [0..<9])"
  unfolding prop_candidates_def
  by (intro arg_cong [where f = concat] map_cong refl prop_code_or) (simp_all only: set_upt atLeastLessThan_iff)

lemma set_candidates: "p \<in> set prop_candidates \<longleftrightarrow> (\<exists>j < 9. \<exists>k < 0x40. p = prop_code j k)"
proof -
  have "set prop_candidates = (\<Union>j \<in> {..<9}. prop_code j ` {..<0x40})"
    by (simp add: prop_candidates_eq atLeast0LessThan image_image del: upt_rec_numeral)
  then show ?thesis by blast
qed

lemma prop_code_in: "j < 9 \<Longrightarrow> k < 0x40 \<Longrightarrow> prop_code j k \<in> set prop_candidates"
  unfolding set_candidates by blast

lemma prop_code_inj: "j < 9 \<Longrightarrow> k < 0x40 \<Longrightarrow> j' < 9 \<Longrightarrow> k' < 0x40 \<Longrightarrow> prop_code j k = prop_code j' k' \<longleftrightarrow> j = j' \<and> k = k'"
proof -
  assume a: "j < 9" "k < 0x40" "j' < 9" "k' < 0x40"
  have "prop_code j k = prop_code j' k' \<Longrightarrow> 0x10000 * j + k = 0x10000 * j' + k'"
    using unat_prop_code [OF a(1,2)] unat_prop_code [OF a(3,4)] by simp
  moreover have "j = j' \<and> k = k'" if e: "0x10000 * j + k = 0x10000 * j' + k'"
  proof -
    have "(0x10000 * j + k) div 0x10000 = (0x10000 * j' + k') div 0x10000" using e by simp
    then have "j = j'" using a by simp
    then show ?thesis using e by simp
  qed
  ultimately show ?thesis by blast
qed

lemma distinct_candidates: "distinct prop_candidates" "length prop_candidates = 576"
proof -
  have "distinct (map (\<lambda>(j, k). prop_code j k) (List.product [0..<9] [0..<0x40]))"
    unfolding distinct_map
    by (intro conjI distinct_product inj_onI) (auto simp: prop_code_inj simp del: upt_rec_numeral)
  moreover have "map (\<lambda>(j, k). prop_code j k) (List.product [0..<9] [0..<0x40]) = prop_candidates"
    by (simp add: prop_candidates_eq product_concat_map map_concat o_def del: upt_rec_numeral)
  ultimately show "distinct prop_candidates" by simp
  show "length prop_candidates = 576"
    by (simp add: prop_candidates_eq length_concat o_def sum_list_triv del: upt_rec_numeral)
qed

lemma unwanted_candidates: "set unwanted \<subseteq> set prop_candidates" "distinct unwanted"
proof -
  have e: "unwanted = map (\<lambda>(j, k). prop_code j k) [(3, 0x14), (3, 0x15), (5, 0), (5, 4), (5, 5), (5, 0x10), (5, 0xf)]"
    by (simp add: unwanted_def prop_code_def)
  show "set unwanted \<subseteq> set prop_candidates" unfolding e by (simp add: prop_code_in)
  show "distinct unwanted" by (simp add: unwanted_def)
qed

lemma property_list_filter: "property_list = filter (\<lambda>p. p \<notin> set unwanted) prop_candidates"
  unfolding property_list_def using distinct_candidates(2)
  by (subst collect_props_all) (simp_all add: num_properties_def)


subsection \<open>The viewer of property changes\<close>

text \<open>The rows at which a trace prints.\<close>

fun printed_rows :: "fw_event list \<Rightarrow> u32 list" where
  "printed_rows [] = []"
| "printed_rows (Draw (Bmp_printf f x y t) # es) = y # printed_rows es"
| "printed_rows (e # es) = printed_rows es"

lemma printed_rows_append [simp]: "printed_rows (xs @ ys) = printed_rows xs @ printed_rows ys"
  by (induction xs rule: printed_rows.induct) auto

fun view_changes :: "fonts \<Rightarrow> (u32 \<times> u8 list) list \<Rightarrow> 'a debug_state_scheme \<Rightarrow> 'a debug_state_scheme" where
  "view_changes fs [] s = s"
| "view_changes fs ((p, buf) # ps) s = view_changes fs ps (debug_property_handler fs p buf s)"

definition row_ok :: "u32 \<Rightarrow> bool" where
  "row_ok y \<longleftrightarrow> 32 \<le> y \<and> y \<le> 400"

lemma next_row_ok: "row_ok y \<Longrightarrow> row_ok (if y + ucast (h :: u16) > 400 then 32 else y + ucast h)"
proof -
  assume y: "row_ok y"
  have "unat h < 2 ^ 16" using unsigned_less [of h] by simp
  then have "unat (ucast h :: u32) < 2 ^ 16" by (simp add: unsigned_ucast_eq take_bit_nat_eq_self)
  moreover have "unat y \<le> 400" using y by (simp add: row_ok_def word_le_nat_alt)
  ultimately have "unat (y + ucast h) = unat y + unat (ucast h :: u32)" by (intro unat_add_small) simp
  then have "y \<le> y + ucast h" by (simp add: word_le_nat_alt)
  then have "32 \<le> y + ucast h" using y unfolding row_ok_def by (blast intro: order_trans)
  then show ?thesis unfolding row_ok_def by (simp add: not_less)
qed

lemma handler_row:
  assumes "row_ok (debug_y s)"
  shows "row_ok (debug_y (debug_property_handler fs p buf s))"
    and "\<exists>es. trace (debug_property_handler fs p buf s) = trace s @ es @ [Prop (Prop_cleanup (debug_token s) p)]
      \<and> cleanups es = [] \<and> set (printed_rows es) \<subseteq> {debug_y s} \<and> length (printed_rows es) = (if draw_prop s = 0 then 0 else 1)"
    and "debug_token (debug_property_handler fs p buf s) = debug_token s"
    and "draw_prop (debug_property_handler fs p buf s) = draw_prop s"
proof -
  show "row_ok (debug_y (debug_property_handler fs p buf s))"
    using assms next_row_ok [OF assms, of "font_height (font_small fs)"]
    by (simp add: debug_property_handler_def Let_def emit_def)
  let ?es = "if draw_prop s = 0 then [] else
     [Draw (Bmp_printf FONT_SMALL 80 (debug_y s) (fmt_0x 8 p @ '' '' @ fmt_0x 4 (of_nat (length buf)) @ '':''
        @ concat (map (\<lambda>k. '' '' @ fmt_0x 8 (prop_word buf k)) [0..<6]))),
      Draw (Bmp_fill (ucast COLOR_RED) 80 (debug_y s + ucast (font_height (font_small fs))) 100 1)]"
  have "trace (debug_property_handler fs p buf s) = trace s @ ?es @ [Prop (Prop_cleanup (debug_token s) p)]"
    by (simp add: debug_property_handler_def Let_def emit_def del: upt_rec_numeral)
  then show "\<exists>es. trace (debug_property_handler fs p buf s) = trace s @ es @ [Prop (Prop_cleanup (debug_token s) p)]
      \<and> cleanups es = [] \<and> set (printed_rows es) \<subseteq> {debug_y s} \<and> length (printed_rows es) = (if draw_prop s = 0 then 0 else 1)"
    by (intro exI [of _ ?es]) simp
  show "debug_token (debug_property_handler fs p buf s) = debug_token s"
    "draw_prop (debug_property_handler fs p buf s) = draw_prop s"
    by (simp_all add: debug_property_handler_def Let_def emit_def del: upt_rec_numeral)
qed

text \<open>Whatever property changes arrive, each is acknowledged once under the debugger's token
  and, while the viewer is on, printed once, and always between rows 32 and 400 of the screen.\<close>

theorem debug_view_on_screen:
  assumes "row_ok (debug_y s)"
  shows "cleanups (trace (view_changes fs ps s)) = cleanups (trace s) @ map (\<lambda>(p, buf). (debug_token s, p)) ps
    \<and> row_ok (debug_y (view_changes fs ps s))
    \<and> (\<exists>rows. printed_rows (trace (view_changes fs ps s)) = printed_rows (trace s) @ rows
         \<and> (\<forall>y \<in> set rows. row_ok y) \<and> length rows = (if draw_prop s = 0 then 0 else length ps))"
  using assms
proof (induction ps arbitrary: s)
  case Nil
  then show ?case by simp
next
  case (Cons d ps)
  obtain p buf where d: "d = (p, buf)" by (cases d)
  let ?s = "debug_property_handler fs p buf s"
  note h = handler_row [OF Cons.prems, of fs p buf]
  obtain es where es: "trace ?s = trace s @ es @ [Prop (Prop_cleanup (debug_token s) p)]" "cleanups es = []"
    "set (printed_rows es) \<subseteq> {debug_y s}" "length (printed_rows es) = (if draw_prop s = 0 then 0 else 1)"
    using h(2) by blast
  obtain rows where "cleanups (trace (view_changes fs ps ?s)) = cleanups (trace ?s) @ map (\<lambda>(p, buf). (debug_token s, p)) ps"
    "row_ok (debug_y (view_changes fs ps ?s))"
    "printed_rows (trace (view_changes fs ps ?s)) = printed_rows (trace ?s) @ rows"
    "\<forall>y \<in> set rows. row_ok y" "length rows = (if draw_prop s = 0 then 0 else length ps)"
    using Cons.IH [OF h(1)] h(3,4) by auto
  then show ?case using es Cons.prems
    by (auto simp: d intro!: exI [of _ "printed_rows es @ rows"])
qed

definition sample_debug :: debug_state where
  "sample_debug = \<lparr>trace = [], menus = 0, menu_heap = (\<lambda>a. undefined), entry_heap = (\<lambda>a. undefined), menu_damage = 0,
     menu_hidden = 0, menu_timeout = 0, gui_menu_task = 0, draw_event = 0, menu_timeout_time = 0, qscale = - 8, efic_temp = 0, draw_prop = 1,
     debug_token = 7, debug_y = 400, timed_dump = 0, timed_start = 3\<rparr>"

theorem debug_view_on_screen_witness:
  "cleanups (trace (view_changes fs [(0x80030021, [65, 0, 0, 0]), (0x80000005, [])] sample_debug)) = [(7, 0x80030021), (7, 0x80000005)]"
proof -
  have "row_ok (debug_y sample_debug)" "debug_token sample_debug = 7" "trace sample_debug = []"
    by (simp_all add: sample_debug_def row_ok_def)
  then show ?thesis
    using debug_view_on_screen [of sample_debug fs "[(0x80030021, [65, 0, 0, 0]), (0x80000005, [])]"]
    by (simp del: view_changes.simps)
qed

subsection \<open>The timed start\<close>

text \<open>The numbers shown from \<open>n\<close> seconds on.\<close>

fun shown :: "nat \<Rightarrow> fw_event list" where
  "shown 0 = []"
| "shown (Suc n) = [Sys (Msleep 1000),
     Draw (Bmp_printf (start_font (if n \<ge> 4 then COLOR_WHITE else COLOR_RED)) 320 150 (''T-'' @ fmt_d 0 (int (Suc n))))] @ shown n"

lemma countdown_shown: "countdown (int n + 1) = shown n"
proof (induction n)
  case 0
  then show ?case by (simp add: countdown.simps)
next
  case (Suc n)
  then show ?case by (subst countdown.simps) (simp add: add.commute)
qed

definition movie_starts :: "fw_event list \<Rightarrow> nat" where
  "movie_starts es = length (filter (\<lambda>e. e = Sys (Call_function ''MovieStart'')) es)"

text \<open>A timed start of \<open>n + 1\<close> seconds counts down from \<open>n\<close> to 1, sleeping a second before
  each number, and then starts the recording exactly once; without a time nothing happens.\<close>

theorem movie_start_counts_down:
  "timed_start s = 0 \<Longrightarrow> movie_start s = s"
  "timed_start s = int n + 1 \<Longrightarrow> trace (movie_start s) = trace s @ shown n
     @ [Draw (Bmp_printf (start_font COLOR_WHITE) 320 150 ''GO!''), Sys (Call_function ''MovieStart''),
        Sys (Msleep 1000), Draw (Bmp_printf (start_font COLOR_WHITE) 320 150 ''   '')]
     \<and> movie_starts (trace (movie_start s)) = Suc (movie_starts (trace s))
     \<and> length (filter (\<lambda>e. e = Sys (Msleep 1000)) (trace (movie_start s)))
       = length (filter (\<lambda>e. e = Sys (Msleep 1000)) (trace s)) + n + 1"
proof -
  have "filter (\<lambda>e. e = Sys (Call_function ''MovieStart'')) (shown n) = []"
    "length (filter (\<lambda>e. e = Sys (Msleep 1000)) (shown n)) = n"
    by (induction n) auto
  then show "timed_start s = int n + 1 \<Longrightarrow> trace (movie_start s) = trace s @ shown n
     @ [Draw (Bmp_printf (start_font COLOR_WHITE) 320 150 ''GO!''), Sys (Call_function ''MovieStart''),
        Sys (Msleep 1000), Draw (Bmp_printf (start_font COLOR_WHITE) 320 150 ''   '')]
     \<and> movie_starts (trace (movie_start s)) = Suc (movie_starts (trace s))
     \<and> length (filter (\<lambda>e. e = Sys (Msleep 1000)) (trace (movie_start s)))
       = length (filter (\<lambda>e. e = Sys (Msleep 1000)) (trace s)) + n + 1"
    by (simp add: movie_start_def countdown_shown movie_starts_def)
qed (simp add: movie_start_def)

theorem movie_start_counts_down_witness:
  "movie_starts (trace (movie_start sample_debug)) = 1 \<and> movie_start (sample_debug\<lparr>timed_start := 0\<rparr>) = sample_debug\<lparr>timed_start := 0\<rparr>"
proof -
  have "timed_start sample_debug = int 2 + 1" "movie_starts (trace sample_debug) = 0"
    by (simp_all add: sample_debug_def movie_starts_def)
  from this(2) movie_start_counts_down(2) [OF this(1)] movie_start_counts_down(1) [of "sample_debug\<lparr>timed_start := 0\<rparr>"]
  show ?thesis by (simp del: One_nat_def) (metis One_nat_def)
qed

subsection \<open>Handlers and keys\<close>

interpretation debug_handlers: prop_handlers debug_prop "\<lambda>p. p \<in> {PROP_EFIC_TEMP, PROP_HDMI_CHANGE_CODE}"
proof unfold_locales
  fix p t b w w'
  assume "debug_prop t p b w = Some w'"
  then have "trace w' = trace w @ [] @ [Prop (Prop_cleanup t p)]"
    by (auto simp: debug_prop_def emit_def split: if_splits)
  then show "\<exists>es. trace w' = trace w @ es @ [Prop (Prop_cleanup t p)] \<and> cleanups es = []" by fastforce
qed

lemma next_qscale_value: "- 16 \<le> q \<Longrightarrow> q \<le> 16 \<Longrightarrow> next_qscale q = (if q = - 16 then 16 else q - 1)"
  by (simp add: next_qscale_def i16_id)

lemma qscale_presses: "- 16 \<le> q \<Longrightarrow> q \<le> 16 \<Longrightarrow> n \<le> nat (q + 16) \<Longrightarrow> (next_qscale ^^ n) q = q - int n"
  by (induction n) (auto simp: next_qscale_value)

interpretation qscale_key: cyclic_setting next_qscale "\<lambda>q. - 16 \<le> q \<and> q \<le> 16" 33
proof
  show "- 16 \<le> next_qscale q \<and> next_qscale q \<le> 16" if "- 16 \<le> q \<and> q \<le> 16" for q
    using that by (auto simp: next_qscale_value)
  fix q :: int
  assume q: "- 16 \<le> q \<and> q \<le> 16"
  define n where "n = nat (q + 16)"
  have "n \<le> 32" using q by (simp add: n_def nat_le_iff)
  then have n: "33 = (32 - n) + Suc n" by simp
  have "(next_qscale ^^ 33) q = (next_qscale ^^ (32 - n)) (next_qscale ((next_qscale ^^ n) q))"
    using n by (simp only: funpow_add funpow.simps(2) o_apply)
  also have "\<dots> = q" using q \<open>n \<le> 32\<close> by (simp add: qscale_presses n_def next_qscale_value of_nat_diff)
  finally show "(next_qscale ^^ 33) q = q" .
qed simp

end
