(* ===== verification/Boot.thy ===== *)
theory Boot
  imports Reloc Debug
begin

text \<open>
  \<open>arm-mcr.h\<close>, \<open>reboot.c\<close>, \<open>init.c\<close> and \<open>tasks.h\<close>: from the reset of the processor to the
  running tasks.  Accesses to the system control coprocessor and jumps are events; the code of
  the firmware that runs before it returns to \<open>copy_and_restart\<close> is an argument, a function of
  the memory.  Addresses the linker assigns are fields of a record.
\<close>

definition ROMBASEADDR :: addr where "ROMBASEADDR = 0xFF810000"
definition RESTARTSTART :: addr where "RESTARTSTART = 0x00050000"

subsection \<open>The processor\<close>

definition RET_INSTR :: u32 where "RET_INSTR = 0xe12fff1e"
definition NOP_INSTR :: u32 where "NOP_INSTR = 0xe1a00000"

definition BL_INSTR :: "addr \<Rightarrow> addr \<Rightarrow> u32" where
  "BL_INSTR pc dest = 0xEB000000 OR (drop_bit 2 (dest - pc - 8) AND 0x00FFFFFF)"

definition select_normal_vectors :: "answers \<Rightarrow> 'a world_scheme \<Rightarrow> 'a world_scheme" where
  "select_normal_vectors orc w =
     (let (reg, w) = ask orc (Cpu (Mrc 1 0 0)) w
      in emit (Cpu (Mcr 1 0 0 (reg AND NOT 0x2000))) w)"

definition flush_caches :: "'a world_scheme \<Rightarrow> 'a world_scheme" where
  "flush_caches w = emits [Cpu (Mcr 7 5 0 0), Cpu (Mcr 7 6 0 0), Cpu (Mcr 7 10 4 0)] w"

text \<open>The line number runs to \<open>0x400\<close>, the segment until it wraps around to zero.\<close>

partial_function (option) clean_segment :: "u32 \<Rightarrow> u32 \<Rightarrow> 'a world_scheme \<Rightarrow> 'a world_scheme option" where
  "clean_segment segment line w =
     (if line \<noteq> 0x400
      then clean_segment segment (line + 0x20) (emit (Cpu (Mcr 7 14 2 (line OR segment))) w)
      else Some w)"

partial_function (option) clean_segments :: "u32 \<Rightarrow> 'a world_scheme \<Rightarrow> 'a world_scheme option" where
  "clean_segments segment w =
     (case clean_segment segment 0 w of
        None \<Rightarrow> None
      | Some w \<Rightarrow>
          if segment + 0x40000000 \<noteq> 0 then clean_segments (segment + 0x40000000) w else Some w)"

definition clean_d_cache :: "'a world_scheme \<Rightarrow> 'a world_scheme option" where
  "clean_d_cache w = clean_segments 0 w"

definition setup_memory_region :: "nat \<Rightarrow> u32 \<Rightarrow> fw_event" where "setup_memory_region region v = Cpu (Mcr 6 region 0 v)"
definition set_d_cache_regions :: "u32 \<Rightarrow> fw_event" where "set_d_cache_regions v = Cpu (Mcr 2 0 0 v)"
definition set_i_cache_regions :: "u32 \<Rightarrow> fw_event" where "set_i_cache_regions v = Cpu (Mcr 2 0 1 v)"
definition set_d_buffer_regions :: "u32 \<Rightarrow> fw_event" where "set_d_buffer_regions v = Cpu (Mcr 3 0 0 v)"
definition set_d_rw_regions :: "u32 \<Rightarrow> fw_event" where "set_d_rw_regions v = Cpu (Mcr 5 0 0 v)"
definition set_i_rw_regions :: "u32 \<Rightarrow> fw_event" where "set_i_rw_regions v = Cpu (Mcr 5 0 1 v)"
definition set_i_tcm :: "u32 \<Rightarrow> fw_event" where "set_i_tcm v = Cpu (Mcr 9 1 1 v)"

text \<open>As the code has it: both name the register \<open>c3\<close>.\<close>

definition set_control_reg :: "u32 \<Rightarrow> fw_event" where "set_control_reg v = Cpu (Mcr 3 0 0 v)"
definition read_control_reg :: fw_event where "read_control_reg = Cpu (Mrc 3 0 0)"

lemmas mcr_defs = setup_memory_region_def set_d_cache_regions_def set_i_cache_regions_def
  set_d_buffer_regions_def set_d_rw_regions_def set_i_rw_regions_def set_i_tcm_def
  set_control_reg_def read_control_reg_def

text \<open>Copies words; the difference of two word pointers is signed.\<close>

definition blob_memcpy :: "addr \<Rightarrow> addr \<Rightarrow> addr \<Rightarrow> memory \<Rightarrow> memory" where
  "blob_memcpy dest src end m =
     fold (\<lambda>i m. store_word (dest + of_nat (4 * i)) (load_word m (src + of_nat (4 * i))) m)
       [0..<unat (word_of_int (sint (end - src) sdiv 4) :: u32)] m"

subsection \<open>Reboot\<close>

definition cstart_regions :: "fw_event list" where
  "cstart_regions =
     [setup_memory_region 0 0x0000003F, setup_memory_region 1 0x0000003D, setup_memory_region 2 0xE0000039,
      setup_memory_region 3 0xC0000039, setup_memory_region 4 0xFF80002D, setup_memory_region 5 0x00000039,
      setup_memory_region 6 0xF780002D, setup_memory_region 7 0x00000000,
      set_d_cache_regions 0x70, set_i_cache_regions 0x70, set_d_buffer_regions 0x70,
      set_d_rw_regions 0x3FFF, set_i_rw_regions 0x3FFF]"

text \<open>\<open>offset\<close> is where the code was loaded relative to where it was linked; the blob is the
  relocatable image between two symbols.\<close>

definition reboot_cstart ::
  "answers \<Rightarrow> addr \<Rightarrow> addr \<Rightarrow> addr \<Rightarrow> 'a display_scheme \<Rightarrow> 'a display_scheme option" where
  "reboot_cstart orc blob_start blob_end offset s =
     (let s = emit (set_i_tcm 0x40000006) s;
          (v, s) = ask orc read_control_reg s;
          s = emits (set_control_reg (v OR 0x10000) # cstart_regions) s;
          (v, s) = ask orc read_control_reg s;
          s = select_normal_vectors orc (emit (set_control_reg (v OR 0xC000107D)) s);
          s = s\<lparr>mem := blob_memcpy RESTARTSTART (blob_start + offset) (blob_end + offset) (mem s)\<rparr>
      in map_option (\<lambda>s. emit (Cpu (Enter RESTARTSTART)) (flush_caches s)) (clean_d_cache s))"

subsection \<open>Copying and patching the firmware\<close>

definition RELOCSIZE :: u32 where "RELOCSIZE = 0x10000"

record link_map =
  reloc_addr :: addr
  bss_start :: addr
  bss_end :: addr
  lk_bzero32 :: addr
  lk_create_init_task :: addr
  lk_my_init_task :: addr
  lk_cstart :: addr
  lk_task_dispatch_hook :: addr
  lk_my_task_dispatch_hook :: addr

definition INSTR :: "link_map \<Rightarrow> addr \<Rightarrow> addr" where
  "INSTR lk a = a - ROMBASEADDR + reloc_addr lk"

definition FIXUP_BRANCH :: "link_map \<Rightarrow> addr \<Rightarrow> addr \<Rightarrow> memory \<Rightarrow> memory" where
  "FIXUP_BRANCH lk rom_addr dest_addr m = store_word (INSTR lk rom_addr) (BL_INSTR (INSTR lk rom_addr) dest_addr) m"

partial_function (option) zero_words :: "addr \<Rightarrow> addr \<Rightarrow> memory \<Rightarrow> memory option" where
  "zero_words bss end m = (if bss < end then zero_words (bss + 4) end (store_word bss 0 m) else Some m)"

definition zero_bss :: "link_map \<Rightarrow> memory \<Rightarrow> memory option" where
  "zero_bss lk m = zero_words (bss_start lk) (bss_end lk) m"

definition patch_image :: "link_map \<Rightarrow> memory \<Rightarrow> memory" where
  "patch_image lk m =
     (let m = blob_memcpy (reloc_addr lk) ROMBASEADDR (ROMBASEADDR + RELOCSIZE) m;
          m = store_word (INSTR lk 0xFF812AE8) RET_INSTR m;
          m = store_word (INSTR lk 0xFF81093C) (bss_end lk) m;
          m = FIXUP_BRANCH lk 0xFF8108A4 (lk_bzero32 lk) m;
          m = FIXUP_BRANCH lk 0xFF81092C (lk_create_init_task lk) m
      in store_word (INSTR lk 0xFF810948) (lk_my_init_task lk) m)"

text \<open>Up to the jump into the copy.\<close>

definition install_image :: "link_map \<Rightarrow> 'a display_scheme \<Rightarrow> 'a display_scheme option" where
  "install_image lk s =
     (case zero_bss lk (mem s) of
        None \<Rightarrow> None
      | Some m \<Rightarrow> map_option flush_caches (clean_d_cache (s\<lparr>mem := patch_image lk m\<rparr>)))"

definition copy_and_restart ::
  "link_map \<Rightarrow> (memory \<Rightarrow> memory) \<Rightarrow> 'a display_scheme \<Rightarrow> 'a display_scheme option" where
  "copy_and_restart lk firmware s =
     map_option (\<lambda>s.
       let s = emit (Cpu (Enter (reloc_addr lk + 0xC))) s;
           s = s\<lparr>mem := firmware (mem s)\<rparr>;
           s = s\<lparr>mem := store_word (lk_task_dispatch_hook lk) (lk_my_task_dispatch_hook lk) (mem s)\<rparr>
       in emit (Cpu (Enter (INSTR lk (lk_cstart lk)))) s)
     (install_image lk s)"

subsection \<open>Task creation\<close>

record task_mapping =
  tm_orig :: addr
  tm_replacement :: addr

definition off_entry :: addr where "off_entry = 0x0c"
definition off_context :: addr where "off_context = 0x4C"
definition off_pc :: addr where "off_pc = 0x3C"

fun replace_entry :: "task_mapping list \<Rightarrow> addr \<Rightarrow> addr \<Rightarrow> memory \<Rightarrow> memory" where
  "replace_entry [] task entry m = m"
| "replace_entry (mapping # mappings) task entry m =
     (if tm_orig mapping \<noteq> entry then replace_entry mappings task entry m
      else store_word (task + off_entry) (tm_replacement mapping) m)"

definition my_task_dispatch_hook :: "task_mapping list \<Rightarrow> addr \<Rightarrow> addr \<Rightarrow> memory \<Rightarrow> memory" where
  "my_task_dispatch_hook overrides trampoline context m =
     (if context = 0 then m
      else
        let task = context - off_context
        in if load_word m (load_word m (task + off_context) + off_pc) \<noteq> trampoline then m
           else replace_entry overrides task (load_word m (task + off_entry)) m)"

record task_create =
  tk_name :: string
  tk_entry :: addr
  tk_priority :: int
  tk_flags :: u32
  tk_arg :: u32

record boot_state = debug_state +
  shutdown_requested :: u32
  init_funcs_done :: u32
  global_config :: "config list"
  config_vars :: "config_var list"

definition my_dump_task :: "'a world_scheme \<Rightarrow> 'a world_scheme" where
  "my_dump_task w =
     emits [Sys (Debug_manager ''dmstart''), Sys (Msleep 10000), Sys (Call_function ''dispcheck''),
            Sys (Debug_manager ''dumpf''), Sys (Debug_manager ''dmstop'')] w"

text \<open>The init functions are the functions the linker collects; \<open>None\<close> is one that does not return.\<close>

definition call_init_funcs ::
  "('a boot_state_scheme \<Rightarrow> 'a boot_state_scheme option) list \<Rightarrow> 'a boot_state_scheme \<Rightarrow> 'a boot_state_scheme option" where
  "call_init_funcs init_funcs s =
     map_option (\<lambda>s. s\<lparr>init_funcs_done := 1\<rparr>) (fold (\<lambda>entry r. Option.bind r entry) init_funcs (Some s))"

fun create_tasks :: "task_create list \<Rightarrow> u32 \<Rightarrow> fw_event list" where
  "create_tasks [] y = []"
| "create_tasks (t # ts) y =
     [Draw (Bmp_printf FONT_SMALL 0 (y + 12)
        (''Starting '' @ tk_name t @ '' pri='' @ fmt_0x 2 (word_of_int (tk_priority t)))),
      Sys (Task_create (tk_name t) (word_of_int (tk_priority t)) (tk_flags t) (tk_entry t) (tk_arg t))]
     @ create_tasks ts (y + 12)"

text \<open>\<open>contents\<close> is what the configuration file holds, \<open>handler\<close> and \<open>menu\<close> are the arguments of
  \<open>debug_init\<close>.\<close>

definition prop_startup_handler ::
  "answers \<Rightarrow> build_info \<Rightarrow> string \<Rightarrow> addr \<Rightarrow> addr \<Rightarrow>
   ('a boot_state_scheme \<Rightarrow> 'a boot_state_scheme option) list \<Rightarrow> task_create list \<Rightarrow>
   u32 \<Rightarrow> u32 \<Rightarrow> u8 list \<Rightarrow> 'a boot_state_scheme \<Rightarrow> 'a boot_state_scheme option" where
  "prop_startup_handler orc b contents handler menu init_funcs tasks token property buf s =
     (if prop_word buf 0 \<noteq> 0xFF
      then Some (emit (Prop (Prop_cleanup token property))
                  ((emit (Draw (Bmp_printf FONT_SMALL 0 40 ''shutdown requested'')) s)\<lparr>shutdown_requested := 1\<rparr>))
      else
        Option.bind (menu_init orc (emit (Sys (Call_function ''TurnOnDisplay'')) s)) (\<lambda>s.
        Option.bind (debug_init orc handler menu s) (\<lambda>s.
          let (config, vars, s) = config_parse_file orc ''A:/magiclantern.cfg'' contents (config_vars s) s;
              s = s\<lparr>global_config := config, config_vars := vars\<rparr>;
              s = emits
                    [Draw (Bmp_printf FONT_SMALL 0 40
                       (''Magic Lantern version '' @ build_version b @ '' ('' @ build_id b @ '')'' @ [LF]
                        @ ''Built on '' @ build_date b @ '' by '' @ build_user b @ [LF])),
                     Draw (Bmp_printf FONT_SMALL 0 64
                       (''Config file A:/magiclantern.cfg: '' @ (if config \<noteq> [] then ''YES'' else ''NO'') @ ''  arg=''
                        @ fmt_d 0 (sint (prop_word buf 0)) @ '' '' @ fmt_d 0 (sint (prop_word buf 1)) @ '' ''
                        @ fmt_d 0 (sint (prop_word buf 2)) @ '' '' @ fmt_d 0 (sint (prop_word buf 3))))] s
          in map_option (\<lambda>s. emit (Prop (Prop_cleanup token property)) (emits (create_tasks tasks 64) s))
               (call_init_funcs init_funcs (s\<lparr>init_funcs_done := 0\<rparr>)))))"

text \<open>The version string behind the camera's own one.\<close>

definition version_bytes :: "string \<Rightarrow> u8 list" where
  "version_bytes v = map of_char (''-ml-'' @ map (\<lambda>k. if k < length v then v ! k else NUL) [0..<5] @ [NUL])"

definition my_init_task ::
  "u8 list \<Rightarrow> addr \<Rightarrow> addr \<Rightarrow> addr \<Rightarrow> addr \<Rightarrow> string \<Rightarrow> prop_handler \<Rightarrow> 'a display_scheme \<Rightarrow> prop_handler \<times> 'a display_scheme" where
  "my_init_task generic init_task dm_names magic_name additional_version version prop_startup s =
     (let s = emit (Cpu (Enter init_task)) s;
          s = s\<lparr>mem := store_word (dm_names + 4 * 50) magic_name (mem s)\<rparr>;
          s = emit (Sys (Debug_manager ''dmstart'')) s;
          s = s\<lparr>mem := write_row additional_version 10 (\<lambda>k. version_bytes version ! k) (mem s)\<rparr>;
          s = emit (Sys (Msleep 1000)) s
      in prop_handler_init generic prop_startup s)"

subsection \<open>Cleaning the cache\<close>

lemma clean_segment_from:
  "k \<le> 32 \<Longrightarrow> clean_segment segment (of_nat (0x20 * (32 - k))) w =
     Some (emits (map (\<lambda>i. Cpu (Mcr 7 14 2 (of_nat (0x20 * i) OR segment))) [32 - k..<32]) w)"
proof (induction k arbitrary: w)
  case 0
  then show ?case by (subst clean_segment.simps) simp
next
  case (Suc k)
  define i where "i = 32 - Suc k"
  have i: "32 - k = Suc i" "i < 32" using Suc.prems by (simp_all add: i_def)
  have "of_nat (0x20 * i) + 0x20 = (of_nat (0x20 * Suc i) :: u32)" by simp
  moreover have "of_nat (0x20 * i) \<noteq> (0x400 :: u32)"
  proof
    assume "of_nat (0x20 * i) = (0x400 :: u32)"
    then have "unat (of_nat (0x20 * i) :: u32) = 0x400" by simp
    moreover have "unat (of_nat (0x20 * i) :: u32) = 0x20 * i" using i(2) by (intro unat_of_nat_u32) simp
    ultimately show False using i(2) by simp
  qed
  moreover have "[i..<32] = i # [Suc i..<32]" using i(2) by (simp add: upt_conv_Cons)
  ultimately show ?case
    using Suc.IH Suc.prems unfolding i(1) i_def [symmetric]
    by (subst clean_segment.simps) (simp del: upt_rec_numeral of_nat_mult of_nat_Suc of_nat_numeral add: add.commute)
qed

lemma clean_segment_all:
  "clean_segment segment 0 w = Some (emits (map (\<lambda>i. Cpu (Mcr 7 14 2 (of_nat (0x20 * i) OR segment))) [0..<32]) w)"
  using clean_segment_from [of 32 segment w] by (simp del: upt_rec_numeral of_nat_mult)

definition cache_lines :: "fw_event list" where
  "cache_lines = concat (map (\<lambda>j. map (\<lambda>i. Cpu (Mcr 7 14 2 (of_nat (0x20 * i) OR of_nat (0x40000000 * j)))) [0..<32]) [0..<4])"

lemma clean_d_cache_emits: "clean_d_cache w = Some (emits cache_lines w)"
proof -
  have e: "[0..<4] = [0, 1, 2, 3 :: nat]" by (simp add: upt_rec)
  show ?thesis
    unfolding clean_d_cache_def cache_lines_def e
    apply (subst clean_segments.simps, simp only: clean_segment_all option.case)
    apply (subst clean_segments.simps, simp only: clean_segment_all option.case)
    apply (subst clean_segments.simps, simp only: clean_segment_all option.case)
    apply (subst clean_segments.simps, simp only: clean_segment_all option.case)
    by (simp add: emits_append del: upt_rec_numeral of_nat_mult)
qed

subsection \<open>Branches\<close>

lemma drop_bit_sint: "word_of_int (sint d div 4) AND BRANCH_OFFSET = drop_bit 2 (d :: u32) AND BRANCH_OFFSET"
proof (rule bit_word_eqI)
  fix n assume n: "n < LENGTH(32)"
  have m: "BRANCH_OFFSET = mask 24" by (simp add: BRANCH_OFFSET_def mask_eq_exp_minus_1)
  have "sint d div 4 = drop_bit 2 (sint d)" by (simp add: drop_bit_eq_div)
  then show "bit (word_of_int (sint d div 4) AND BRANCH_OFFSET) n = bit (drop_bit 2 d AND BRANCH_OFFSET) n"
    using n unfolding m by (auto simp: bit_simps)
qed

lemma BL_INSTR_dest:
  assumes "4 dvd unat (dest - pc)" and "- 0x00800000 \<le> new_jump pc dest" and "new_jump pc dest < 0x00800000"
  shows "is_branch (BL_INSTR pc dest)" and "branch_dest pc (BL_INSTR pc dest) = dest"
proof -
  let ?d = "dest - pc - 8"
  have m: "BRANCH_OFFSET = 0x00FFFFFF" by (simp add: BRANCH_OFFSET_def)
  have bl: "BL_INSTR pc dest = 0xEB000000 OR (word_of_int (new_jump pc dest) AND BRANCH_OFFSET)"
    using drop_bit_sint [of ?d] by (simp only: BL_INSTR_def new_jump_def m)
  have o: "BL_INSTR pc dest AND BRANCH_OFFSET = word_of_int (new_jump pc dest) AND BRANCH_OFFSET"
  proof -
    have e: "(0xEB000000 :: u32) = push_bit 24 0xEB" "BRANCH_OFFSET = mask 24"
      by (simp_all add: BRANCH_OFFSET_def mask_eq_exp_minus_1)
    show ?thesis unfolding bl e by (rule bit_word_eqI) (auto simp: bit_simps simp del: push_bit_numeral)
  qed
  have "BL_INSTR pc dest AND BRANCH_MASK = 0x0B000000"
  proof -
    have "BRANCH_MASK AND BRANCH_OFFSET = 0" by (simp add: BRANCH_MASK_def BRANCH_OFFSET_def)
    then have "(word_of_int (new_jump pc dest) AND BRANCH_OFFSET) AND BRANCH_MASK = 0"
      by (simp add: and.assoc and.commute [of BRANCH_OFFSET])
    moreover have "(0xEB000000 :: u32) AND BRANCH_MASK = 0x0B000000" by (simp add: BRANCH_MASK_def)
    ultimately show ?thesis unfolding bl by (simp add: bit.conj_disj_distrib2)
  qed
  then show "is_branch (BL_INSTR pc dest)" by (simp add: is_branch_def BRANCH_LINK_def)
  have "sint ?d mod 4 = 0" using sint_mod_4 [of ?d] diff_mod_4 [OF assms(1)] by simp
  then have "4 * new_jump pc dest = sint ?d" unfolding new_jump_def by (metis add.right_neutral mult_div_mod_eq)
  then have "word_of_int (4 * new_jump pc dest) = ?d" by simp
  moreover have "push_bit 2 (word_of_int (new_jump pc dest)) = (word_of_int (4 * new_jump pc dest) :: u32)"
    by (simp add: push_bit_eq_mult)
  moreover have "branch_dest pc (BL_INSTR pc dest) = pc + push_bit 2 (word_of_int (new_jump pc dest)) + 8"
    using sign_extend_24 [OF assms(2,3)] by (simp add: branch_dest_def o Let_def)
  ultimately show "branch_dest pc (BL_INSTR pc dest) = dest" by simp
qed

subsection \<open>Copying and zeroing words\<close>

lemma fold_copy_words:
  assumes src: "\<forall>k < N. apart dest (4 * N) (src + of_nat (4 * k))" and N: "4 * N \<le> 2 ^ 32"
  shows "n \<le> N \<Longrightarrow>
    (\<forall>k < n. load_word (fold (\<lambda>i m. store_word (dest + of_nat (4 * i)) (load_word m (src + of_nat (4 * i))) m) [0..<n] m)
        (dest + of_nat (4 * k)) = load_word m (src + of_nat (4 * k)))
    \<and> (\<forall>a. apart dest (4 * N) a \<longrightarrow>
        load_word (fold (\<lambda>i m. store_word (dest + of_nat (4 * i)) (load_word m (src + of_nat (4 * i))) m) [0..<n] m) a = load_word m a)"
proof (induction n)
  case 0
  then show ?case by simp
next
  case (Suc n)
  let ?m = "fold (\<lambda>i m. store_word (dest + of_nat (4 * i)) (load_word m (src + of_nat (4 * i))) m) [0..<n] m"
  let ?v = "load_word ?m (src + of_nat (4 * n))"
  have IH: "\<And>k. k < n \<Longrightarrow> load_word ?m (dest + of_nat (4 * k)) = load_word m (src + of_nat (4 * k))"
    "\<And>a. apart dest (4 * N) a \<Longrightarrow> load_word ?m a = load_word m a"
    using Suc by auto
  have v: "?v = load_word m (src + of_nat (4 * n))" using src Suc.prems by (intro IH(2)) simp
  have "load_word (store_word (dest + of_nat (4 * n)) ?v ?m) (dest + of_nat (4 * k)) = load_word m (src + of_nat (4 * k))"
    if "k < Suc n" for k
    using that IH(1) [of k] v N Suc.prems by (subst load_store_at) (auto simp: less_Suc_eq)
  moreover have "load_word (store_word (dest + of_nat (4 * n)) ?v ?m) a = load_word m a" if "apart dest (4 * N) a" for a
    using load_store_apart [OF that, of "4 * n" ?v ?m] IH(2) [OF that] Suc.prems by simp
  ultimately show ?case by simp
qed

lemma blob_memcpy_words:
  assumes n: "n < 2 ^ 29" and src: "\<forall>k < n. apart dest (4 * n) (src + of_nat (4 * k))"
  shows "\<forall>k < n. load_word (blob_memcpy dest src (src + of_nat (4 * n)) m) (dest + of_nat (4 * k)) = load_word m (src + of_nat (4 * k))"
    and "\<forall>a. apart dest (4 * n) a \<longrightarrow> load_word (blob_memcpy dest src (src + of_nat (4 * n)) m) a = load_word m a"
proof -
  have "sint (of_nat (4 * n) :: u32) = int (4 * n)"
    using n sint_word_of_int_u32 [of "int (4 * n)"] by (simp add: i32_id)
  then have "sint (of_nat (4 * n) :: u32) sdiv 4 = int n" by (cases n) (simp_all add: signed_divide_int_def)
  then have "unat (word_of_int (sint (src + of_nat (4 * n) - src) sdiv 4) :: u32) = n"
    using n unat_of_nat_u32 [of n] by simp
  then have e: "blob_memcpy dest src (src + of_nat (4 * n)) m =
      fold (\<lambda>i m. store_word (dest + of_nat (4 * i)) (load_word m (src + of_nat (4 * i))) m) [0..<n] m"
    by (simp only: blob_memcpy_def)
  show "\<forall>k < n. load_word (blob_memcpy dest src (src + of_nat (4 * n)) m) (dest + of_nat (4 * k)) = load_word m (src + of_nat (4 * k))"
    "\<forall>a. apart dest (4 * n) a \<longrightarrow> load_word (blob_memcpy dest src (src + of_nat (4 * n)) m) a = load_word m a"
    unfolding e using fold_copy_words [OF src, of n m] n by auto
qed

lemma fold_store_words:
  "4 * N \<le> 2 ^ 32 \<Longrightarrow> n \<le> N \<Longrightarrow>
    (\<forall>k < n. load_word (fold (\<lambda>i. store_word (d + of_nat (4 * i)) (v i)) [0..<n] m) (d + of_nat (4 * k)) = v k)
    \<and> (\<forall>a. apart d (4 * N) a \<longrightarrow> load_word (fold (\<lambda>i. store_word (d + of_nat (4 * i)) (v i)) [0..<n] m) a = load_word m a)"
proof (induction n)
  case 0
  then show ?case by simp
next
  case (Suc n)
  let ?m = "fold (\<lambda>i. store_word (d + of_nat (4 * i)) (v i)) [0..<n] m"
  have "load_word (store_word (d + of_nat (4 * n)) (v n) ?m) (d + of_nat (4 * k)) = v k" if "k < Suc n" for k
    using that Suc by (subst load_store_at) (auto simp: less_Suc_eq)
  moreover have "load_word (store_word (d + of_nat (4 * n)) (v n) ?m) a = load_word m a" if "apart d (4 * N) a" for a
    using load_store_apart [OF that, of "4 * n" "v n" ?m] Suc that by simp
  ultimately show ?case by simp
qed

lemma zero_words_run:
  assumes "unat bss + 4 * n < 2 ^ 32"
  shows "j \<le> n \<Longrightarrow> zero_words (bss + of_nat (4 * (n - j))) (bss + of_nat (4 * n)) m =
    Some (fold (\<lambda>i. store_word (bss + of_nat (4 * i)) 0) [n - j..<n] m)"
proof (induction j arbitrary: m)
  case 0
  then show ?case by (subst zero_words.simps) simp
next
  case (Suc j)
  define i where "i = n - Suc j"
  have i: "n - j = Suc i" "i < n" using Suc.prems by (simp_all add: i_def)
  have "bss + of_nat (4 * i) < bss + of_nat (4 * n)"
    using i(2) unat_add_index [of i n bss] unat_add_index [of n n bss] assms by (simp add: word_less_nat_alt)
  moreover have "bss + of_nat (4 * i) + 4 = bss + of_nat (4 * Suc i)" by (simp add: algebra_simps)
  moreover have "[i..<n] = i # [Suc i..<n]" using i(2) by (simp add: upt_conv_Cons)
  ultimately show ?case
    using Suc.IH Suc.prems unfolding i(1) i_def [symmetric]
    by (subst zero_words.simps) (simp del: of_nat_mult of_nat_Suc add: ac_simps)
qed

lemma apart_above: "unat d + l \<le> unat a \<Longrightarrow> unat a + 4 \<le> 2 ^ 32 \<Longrightarrow> apart d l a"
proof -
  assume a: "unat d + l \<le> unat a" "unat a + 4 \<le> 2 ^ 32"
  then have "unat (a - d) = unat a - unat d" by (intro unat_sub) (simp add: word_le_nat_alt)
  then show ?thesis using a unfolding apart_def by linarith
qed

subsection \<open>The patched image\<close>

text \<open>The image and the memory it is cleared from as the linker script places them, in words.\<close>

definition linked :: "link_map \<Rightarrow> nat \<Rightarrow> nat \<Rightarrow> bool" where
  "linked lk b r \<longleftrightarrow> bss_end lk = bss_start lk + of_nat (4 * b) \<and> unat (bss_start lk) + 4 * b \<le> unat ROMBASEADDR
     \<and> reloc_addr lk = bss_start lk + of_nat (4 * r) \<and> r + 0x4000 \<le> b"

definition near :: "addr \<Rightarrow> addr \<Rightarrow> bool" where
  "near pc dest \<longleftrightarrow> 4 dvd unat (dest - pc) \<and> can_fix (new_jump pc dest)"

text \<open>The word \<open>k\<close> of the image, from the words of the ROM.\<close>

definition image_word :: "link_map \<Rightarrow> (nat \<Rightarrow> u32) \<Rightarrow> nat \<Rightarrow> u32" where
  "image_word lk rom k =
     (if k = 0x948 div 4 then lk_my_init_task lk
      else if k = 0x92C div 4 then BL_INSTR (reloc_addr lk + 0x92C) (lk_create_init_task lk)
      else if k = 0x8A4 div 4 then BL_INSTR (reloc_addr lk + 0x8A4) (lk_bzero32 lk)
      else if k = 0x93C div 4 then bss_end lk
      else if k = 0x2AE8 div 4 then RET_INSTR
      else rom k)"

lemma INSTR_offsets:
  "INSTR lk 0xFF812AE8 = reloc_addr lk + of_nat (4 * 0xABA)" "INSTR lk 0xFF81093C = reloc_addr lk + of_nat (4 * 0x24F)"
  "INSTR lk 0xFF8108A4 = reloc_addr lk + of_nat (4 * 0x229)" "INSTR lk 0xFF81092C = reloc_addr lk + of_nat (4 * 0x24B)"
  "INSTR lk 0xFF810948 = reloc_addr lk + of_nat (4 * 0x252)"
  by (simp_all add: INSTR_def ROMBASEADDR_def add.commute)

lemma load_store_index:
  "i < 0x4000 \<Longrightarrow> k < 0x4000 \<Longrightarrow>
   load_word (store_word (d + of_nat (4 * i)) v m) (d + of_nat (4 * k)) = (if i = k then v else load_word m (d + of_nat (4 * k)))"
  by (subst load_store_at) auto

lemma patch_image_words:
  assumes rom: "\<forall>k < 0x4000. apart (reloc_addr lk) (4 * 0x4000) (ROMBASEADDR + of_nat (4 * k))"
  shows "k < 0x4000 \<Longrightarrow> load_word (patch_image lk m) (reloc_addr lk + of_nat (4 * k)) =
      image_word lk (\<lambda>k. load_word m (ROMBASEADDR + of_nat (4 * k))) k"
    and "apart (reloc_addr lk) (4 * 0x4000) a \<Longrightarrow> load_word (patch_image lk m) a = load_word m a"
proof -
  have n: "RELOCSIZE = of_nat (4 * 0x4000)" "(0x4000 :: nat) < 2 ^ 29" by (simp_all add: RELOCSIZE_def)
  note b = blob_memcpy_words [OF n(2) rom, of m, folded n(1)]
  let ?b = "blob_memcpy (reloc_addr lk) ROMBASEADDR (ROMBASEADDR + RELOCSIZE) m"
  have o: "reloc_addr lk + of_nat (4 * 0x24B) = reloc_addr lk + 0x92C" "reloc_addr lk + of_nat (4 * 0x229) = reloc_addr lk + 0x8A4"
    by simp_all
  have i: "(0xABA :: nat) < 0x4000" "(0x24F :: nat) < 0x4000" "(0x229 :: nat) < 0x4000" "(0x24B :: nat) < 0x4000" "(0x252 :: nat) < 0x4000"
    by simp_all
  show "load_word (patch_image lk m) (reloc_addr lk + of_nat (4 * k)) =
      image_word lk (\<lambda>k. load_word m (ROMBASEADDR + of_nat (4 * k))) k" if k: "k < 0x4000"
  proof -
    have "load_word ?b (reloc_addr lk + of_nat (4 * k)) = load_word m (ROMBASEADDR + of_nat (4 * k))"
      using b(1) k by blast
    moreover have "0x948 div 4 = (0x252 :: nat)" "0x92C div 4 = (0x24B :: nat)" "0x8A4 div 4 = (0x229 :: nat)"
      "0x93C div 4 = (0x24F :: nat)" "0x2AE8 div 4 = (0xABA :: nat)"
      by simp_all
    ultimately show ?thesis
      unfolding patch_image_def FIXUP_BRANCH_def Let_def INSTR_offsets image_word_def
        i [THEN load_store_index, OF k]
      by (simp only: o eq_commute [of k])
  qed
  have l: "4 * 0xABA + 4 \<le> (4 * 0x4000 :: nat)" "4 * 0x24F + 4 \<le> (4 * 0x4000 :: nat)" "4 * 0x229 + 4 \<le> (4 * 0x4000 :: nat)"
    "4 * 0x24B + 4 \<le> (4 * 0x4000 :: nat)" "4 * 0x252 + 4 \<le> (4 * 0x4000 :: nat)"
    by simp_all
  show "load_word (patch_image lk m) a = load_word m a" if a: "apart (reloc_addr lk) (4 * 0x4000) a"
    unfolding patch_image_def FIXUP_BRANCH_def Let_def INSTR_offsets l [THEN load_store_apart [OF a]]
    using b(2) a by blast
qed

subsection \<open>From reset to the patched firmware\<close>

lemma linked_apart:
  assumes "linked lk b r"
  shows "k < 0x4000 \<Longrightarrow> apart (bss_start lk) (4 * b) (ROMBASEADDR + of_nat (4 * k))"
    and "k < 0x4000 \<Longrightarrow> apart (reloc_addr lk) (4 * 0x4000) (ROMBASEADDR + of_nat (4 * k))"
    and "apart (bss_start lk) (4 * b) a \<Longrightarrow> apart (reloc_addr lk) (4 * 0x4000) a"
    and "unat (bss_start lk) + 4 * b < 2 ^ 32"
proof -
  have l: "unat (bss_start lk) + 4 * b \<le> 0xFF810000" "reloc_addr lk = bss_start lk + of_nat (4 * r)" "r + 0x4000 \<le> b"
    using assms by (simp_all add: linked_def ROMBASEADDR_def)
  then show w: "unat (bss_start lk) + 4 * b < 2 ^ 32" by simp
  have r: "unat (reloc_addr lk) = unat (bss_start lk) + 4 * r"
    unfolding l(2) using l(3) w by (intro unat_add_index [of r b]) simp_all
  have rom: "unat (ROMBASEADDR + of_nat (4 * k)) = 0xFF810000 + 4 * k" if "k < 0x4000" for k
    using unat_add_index [of k "0x4000" ROMBASEADDR] that by (simp add: ROMBASEADDR_def)
  show "apart (bss_start lk) (4 * b) (ROMBASEADDR + of_nat (4 * k))" if "k < 0x4000"
    using rom [OF that] that l(1) by (intro apart_above) simp_all
  show "apart (reloc_addr lk) (4 * 0x4000) (ROMBASEADDR + of_nat (4 * k))" if "k < 0x4000"
    using rom [OF that] that l r by (intro apart_above) simp_all
  show "apart (reloc_addr lk) (4 * 0x4000) a" if a: "apart (bss_start lk) (4 * b) a"
  proof -
    have e: "a - reloc_addr lk = (a - bss_start lk) - of_nat (4 * r)" by (simp add: l(2))
    have "unat (of_nat (4 * r) :: u32) = 4 * r" using l(1,3) by (intro unat_of_nat_u32) simp
    moreover have "4 * b \<le> unat (a - bss_start lk)" "unat (a - bss_start lk) + 4 \<le> 2 ^ 32"
      using a by (simp_all add: apart_def)
    ultimately have "unat (a - reloc_addr lk) = unat (a - bss_start lk) - 4 * r"
      unfolding e using l(3) by (subst unat_sub) (simp_all add: word_le_nat_alt)
    then show ?thesis using a l(3) unfolding apart_def by linarith
  qed
qed

text \<open>C7: \<open>copy_and_restart\<close> reaches the jump into the firmware's copy: the data cache is cleaned and
  the caches flushed, the copy is the ROM's 64 KB but for the five patched words, the two patched
  calls branch to Magic Lantern's targets, and memory outside its own BSS is unchanged.\<close>

theorem install_image_patched:
  assumes "linked lk b r" and "near (reloc_addr lk + 0x8A4) (lk_bzero32 lk)"
    and "near (reloc_addr lk + 0x92C) (lk_create_init_task lk)"
  shows "\<exists>s'. install_image lk s = Some s'
    \<and> trace s' = trace s @ cache_lines @ [Cpu (Mcr 7 5 0 0), Cpu (Mcr 7 6 0 0), Cpu (Mcr 7 10 4 0)]
    \<and> (\<forall>k < 0x4000. load_word (mem s') (reloc_addr lk + of_nat (4 * k)) =
         image_word lk (\<lambda>k. load_word (mem s) (ROMBASEADDR + of_nat (4 * k))) k)
    \<and> branch_dest (reloc_addr lk + 0x8A4) (load_word (mem s') (reloc_addr lk + 0x8A4)) = lk_bzero32 lk
    \<and> branch_dest (reloc_addr lk + 0x92C) (load_word (mem s') (reloc_addr lk + 0x92C)) = lk_create_init_task lk
    \<and> (\<forall>a. apart (bss_start lk) (4 * b) a \<longrightarrow> load_word (mem s') a = load_word (mem s) a)"
proof -
  note la = linked_apart [OF assms(1)]
  let ?z = "fold (\<lambda>i. store_word (bss_start lk + of_nat (4 * i)) 0) [0..<b] (mem s)"
  have z: "zero_bss lk (mem s) = Some ?z"
    using zero_words_run [OF la(4), of b "mem s"] assms(1) by (simp add: zero_bss_def linked_def)
  have kept: "load_word ?z a = load_word (mem s) a" if "apart (bss_start lk) (4 * b) a" for a
    using fold_store_words [of b b "bss_start lk" "\<lambda>i. 0" "mem s"] la(4) that by simp
  obtain s' where s': "install_image lk s = Some s'" "mem s' = patch_image lk ?z"
    "trace s' = trace s @ cache_lines @ [Cpu (Mcr 7 5 0 0), Cpu (Mcr 7 6 0 0), Cpu (Mcr 7 10 4 0)]"
    by (simp add: install_image_def z clean_d_cache_emits flush_caches_def emits_eq)
  have w: "load_word (mem s') (reloc_addr lk + of_nat (4 * k)) =
      image_word lk (\<lambda>k. load_word (mem s) (ROMBASEADDR + of_nat (4 * k))) k" if k: "k < 0x4000" for k
    using patch_image_words(1) [OF _ k, of lk ?z] la(2) kept [OF la(1) [OF k]] k
    by (simp add: s'(2) image_word_def)
  have o: "reloc_addr lk + 0x8A4 = reloc_addr lk + of_nat (4 * 0x229)" "reloc_addr lk + 0x92C = reloc_addr lk + of_nat (4 * 0x24B)"
    by simp_all
  have bl: "load_word (mem s') (reloc_addr lk + 0x8A4) = BL_INSTR (reloc_addr lk + 0x8A4) (lk_bzero32 lk)"
    "load_word (mem s') (reloc_addr lk + 0x92C) = BL_INSTR (reloc_addr lk + 0x92C) (lk_create_init_task lk)"
    using w [of "0x229"] w [of "0x24B"] by (simp_all add: image_word_def)
  have d: "branch_dest pc (BL_INSTR pc dest) = dest" if "near pc dest" for pc dest
    using that BL_INSTR_dest(2) [of dest pc] by (simp add: near_def can_fix_def)
  have "load_word (mem s') a = load_word (mem s) a" if "apart (bss_start lk) (4 * b) a" for a
    using patch_image_words(2) [OF _ la(3) [OF that], of ?z] la(2) kept [OF that] by (simp add: s'(2))
  then show ?thesis using s' w bl d assms(2,3) by auto
qed

definition sample_link :: link_map where
  "sample_link = \<lparr>reloc_addr = 0x60400, bss_start = 0x60000, bss_end = 0x80000, lk_bzero32 = 0xFF814000,
     lk_create_init_task = 0xFF815000, lk_my_init_task = 0x50100, lk_cstart = 0xFF810894,
     lk_task_dispatch_hook = 0x1934, lk_my_task_dispatch_hook = 0x50200\<rparr>"

definition sample_machine :: display where
  "sample_machine = \<lparr>trace = [], mem = (\<lambda>a. 0), bmp_vram = 0\<rparr>"

theorem install_image_patched_witness:
  "\<exists>s'. install_image sample_link sample_machine = Some s'
    \<and> branch_dest 0x60CA4 (load_word (mem s') 0x60CA4) = 0xFF814000
    \<and> load_word (mem s') 0x60D48 = 0x50100"
proof -
  have l: "linked sample_link 0x8000 0x100" "near (reloc_addr sample_link + 0x8A4) (lk_bzero32 sample_link)"
    "near (reloc_addr sample_link + 0x92C) (lk_create_init_task sample_link)"
    by (simp_all add: linked_def near_def sample_link_def ROMBASEADDR_def dvd_eq_mod_eq_0 can_fix_def new_jump_def)
  from install_image_patched [OF l, of sample_machine]
  obtain s' where s: "install_image sample_link sample_machine = Some s'"
    "\<forall>k < 0x4000. load_word (mem s') (reloc_addr sample_link + of_nat (4 * k)) =
         image_word sample_link (\<lambda>k. load_word (mem sample_machine) (ROMBASEADDR + of_nat (4 * k))) k"
    "branch_dest (reloc_addr sample_link + 0x8A4) (load_word (mem s') (reloc_addr sample_link + 0x8A4)) = lk_bzero32 sample_link"
    by blast
  have "load_word (mem s') (reloc_addr sample_link + of_nat (4 * 0x252)) = lk_my_init_task sample_link"
    using s(2) [rule_format, of "0x252"] by (simp add: image_word_def)
  then show ?thesis using s(1,3) by (simp add: sample_link_def)
qed

text \<open>The values written to the system control register of the coprocessor.\<close>

fun c1_writes :: "fw_event list \<Rightarrow> u32 list" where
  "c1_writes [] = []"
| "c1_writes (Cpu (Mcr crn crm op v) # es) = (if crn = 1 then [v] else []) @ c1_writes es"
| "c1_writes (e # es) = c1_writes es"

lemma c1_writes_append [simp]: "c1_writes (xs @ ys) = c1_writes xs @ c1_writes ys"
  by (induction xs rule: c1_writes.induct) auto

lemma c1_writes_cache_lines [simp]: "c1_writes cache_lines = []"
proof -
  have "c1_writes (map (\<lambda>i. Cpu (Mcr 7 14 2 (f i))) xs) = []" for f and xs :: "nat list"
    by (induction xs) auto
  then have "c1_writes (concat (map (\<lambda>j. map (\<lambda>i. Cpu (Mcr 7 14 2 (g j i))) ys) xs)) = []"
    for g and xs ys :: "nat list"
    by (induction xs) auto
  from this [of "\<lambda>j i. of_nat (0x20 * i) OR of_nat (0x40000000 * j)"] show ?thesis unfolding cache_lines_def .
qed



subsection \<open>Overridden tasks\<close>

definition override_table :: "task_mapping list \<Rightarrow> addr \<Rightarrow> addr option" where
  "override_table overrides = map_of (map (\<lambda>t. (tm_orig t, tm_replacement t)) overrides)"

lemma replace_entry_table:
  "replace_entry overrides task entry m =
    (case override_table overrides entry of None \<Rightarrow> m | Some r \<Rightarrow> store_word (task + off_entry) r m)"
  by (induction overrides task entry m rule: replace_entry.induct) (auto simp: override_table_def)

text \<open>C21: The dispatch hook changes nothing but the entry point of a task that is about to start
  through the trampoline, and gives it the replacement its table has for the entry point (the first
  one) or leaves it.\<close>

theorem dispatch_hook_overrides:
  "if context = 0 \<or> load_word m (load_word m context + 0x3C) \<noteq> trampoline
   then my_task_dispatch_hook overrides trampoline context m = m
   else load_word (my_task_dispatch_hook overrides trampoline context m) (context - 0x4C + 0x0c) =
          (case override_table overrides (load_word m (context - 0x4C + 0x0c)) of
             None \<Rightarrow> load_word m (context - 0x4C + 0x0c) | Some r \<Rightarrow> r)
     \<and> (\<forall>a. apart (context - 0x40) 4 a \<longrightarrow>
          load_word (my_task_dispatch_hook overrides trampoline context m) a = load_word m a)"
proof (cases "context = 0 \<or> load_word m (load_word m context + 0x3C) \<noteq> trampoline")
  case True
  then show ?thesis by (auto simp: my_task_dispatch_hook_def Let_def off_context_def off_pc_def)
next
  case False
  have o: "context - 0x4C + 0x0c = context - 0x40" by simp
  have run: "my_task_dispatch_hook overrides trampoline context m =
      (case override_table overrides (load_word m (context - 0x40)) of None \<Rightarrow> m | Some r \<Rightarrow> store_word (context - 0x40) r m)"
    using False by (simp add: my_task_dispatch_hook_def Let_def replace_entry_table off_context_def off_entry_def off_pc_def split: option.split)
  have st: "load_word (store_word (context - 0x40) r m) a = load_word m a" if "apart (context - 0x40) 4 a" for r a
    using load_store_apart [OF that, of 0 r m] by simp
  show ?thesis
    using False st unfolding o by (auto simp: run load_store_same split: option.splits)
qed

definition sample_task :: memory where
  "sample_task = store_word 0x303C 0x8000 (store_word 0x204C 0x3000 (store_word 0x200C 0x1000 (\<lambda>a. 0)))"

theorem dispatch_hook_overrides_witness:
  "load_word (my_task_dispatch_hook [\<lparr>tm_orig = 0x1000, tm_replacement = 0x50300\<rparr>] 0x8000 0x204C sample_task) 0x200C = 0x50300
    \<and> my_task_dispatch_hook [] 0x8000 0 sample_task = sample_task"
proof -
  have w: "load_word sample_task 0x204C = 0x3000" "load_word sample_task 0x303C = 0x8000" "load_word sample_task 0x200C = 0x1000"
    by (simp_all add: sample_task_def load_word_def store_word_def byte_of_def)
  show ?thesis
    using dispatch_hook_overrides [of "0x204C" sample_task "0x8000" "[\<lparr>tm_orig = 0x1000, tm_replacement = 0x50300\<rparr>]"]
      dispatch_hook_overrides [of 0 sample_task "0x8000" "[]"] w
    by (simp add: override_table_def)
qed

subsection \<open>Startup\<close>

text \<open>The tasks a trace creates, and a step that creates none and acknowledges nothing.\<close>

fun created :: "fw_event list \<Rightarrow> (string \<times> addr) list" where
  "created [] = []"
| "created (Sys (Task_create nm pri flags entry arg) # es) = (nm, entry) # created es"
| "created (e # es) = created es"

lemma created_append [simp]: "created (xs @ ys) = created xs @ created ys"
  by (induction xs rule: created.induct) auto

definition unnoticed :: "'a world_scheme \<Rightarrow> 'a world_scheme \<Rightarrow> bool" where
  "unnoticed w w' \<longleftrightarrow> (\<exists>es. trace w' = trace w @ es \<and> cleanups es = [] \<and> created es = [])"

lemma unnoticed_refl [simp]: "unnoticed w w"
  by (simp add: unnoticed_def)

lemma unnoticed_trans [trans]: "unnoticed u v \<Longrightarrow> unnoticed v w \<Longrightarrow> unnoticed u w"
  by (auto simp: unnoticed_def)

lemma unnoticed_trace: "trace w' = trace w @ es \<Longrightarrow> cleanups es = [] \<Longrightarrow> created es = [] \<Longrightarrow> unnoticed w w'"
  by (auto simp: unnoticed_def)

lemma free_all_unnoticed: "unnoticed w (free_all cs w)"
proof -
  have "cleanups (map (\<lambda>c. Sys (Free (node c))) cs) = [] \<and> created (map (\<lambda>c. Sys (Free (node c))) cs) = []"
    by (induction cs) auto
  then show ?thesis by (auto simp: free_all_def intro: unnoticed_trace)
qed

lemma config_parse_line_unnoticed: "config_parse_line orc line w = (r, w') \<Longrightarrow> unnoticed w w'"
  by (auto simp: config_parse_line_def ask_def unnoticed_def split: if_splits option.splits)

lemma config_parse_unnoticed: "config_parse orc f cs vars w = (r, vars', w') \<Longrightarrow> unnoticed w w'"
proof (induction orc f cs vars w rule: config_parse.induct)
  case (1 orc f cs vars w)
  obtain l rest where l: "read_line line_size f = (l, rest)" by force
  show ?case
  proof (cases l)
    case None
    then show ?thesis using "1.prems" l by (auto simp: config_parse.simps)
  next
    case (Some line)
    note IH = "1.IH" [OF l [symmetric] Some]
    show ?thesis
    proof (cases "peek line = CHR ''#'' \<or> peek line = NUL")
      case True
      have "config_parse orc rest cs vars w = (r, vars', w')"
        using "1.prems" l Some True by (subst (asm) config_parse.simps) simp
      then show ?thesis by (rule IH(1) [OF True])
    next
      case False
      obtain c w1 where p: "config_parse_line orc line w = (c, w1)" by force
      note u = config_parse_line_unnoticed [OF p]
      show ?thesis
      proof (cases c)
        case None
        then show ?thesis using "1.prems" l Some False p u free_all_unnoticed [of w1 cs]
          by (auto simp: config_parse.simps intro: unnoticed_trans)
      next
        case c: (Some c1)
        have "config_parse orc rest (c1 # cs) (config_auto_parse c1 vars) w1 = (r, vars', w')"
          using "1.prems" l Some False p c by (subst (asm) config_parse.simps) simp
        then show ?thesis using IH(2) [OF False p [symmetric] c] u by (blast intro: unnoticed_trans)
      qed
    qed
  qed
qed

lemma config_parse_file_unnoticed:
  "config_parse_file orc filename contents vars w = (cs, vars', w') \<Longrightarrow> unnoticed w w' \<and> cs \<noteq> []"
  by (fastforce simp: config_parse_file_def ask_def Let_def unnoticed_def split: if_splits prod.splits
      dest!: config_parse_unnoticed [unfolded unnoticed_def])

lemma menu_add_unnoticed: "menu_add orc nm new n s = Some s' \<Longrightarrow> unnoticed s s'"
proof -
  have f: "menu_find_by_name orc nm s = Some (m, t) \<Longrightarrow> unnoticed s t" for m t
    by (auto simp: menu_find_by_name_def ask_def Let_def set_menu_def unnoticed_def split: option.splits prod.splits bool.splits if_splits)
  assume a: "menu_add orc nm new n s = Some s'"
  then obtain m t where mt: "menu_find_by_name orc nm s = Some (m, t)" by (auto simp: menu_add_def split: option.splits)
  then have "trace s' = trace t \<or> trace s' = trace t @ [Sem (Take_semaphore Menu_sem 0), Sem (Give_semaphore Menu_sem)]"
    using a by (auto simp: menu_add_def menu_attach_def Let_def append_entries_frame set_entry_def set_menu_def split: if_splits option.splits)
  then show ?thesis using f [OF mt] by (auto simp: unnoticed_def)
qed

subsection \<open>The menus that are built\<close>

definition find_block :: "fw_event list" where
  "find_block = [Sem (Take_semaphore Menu_sem 0), Sys (Malloc sizeof_menu), Sem (Give_semaphore Menu_sem)]"

text \<open>The answers of the allocator to a sequence of new menus.\<close>

definition new_menus :: "answers \<Rightarrow> fw_event list \<Rightarrow> nat \<Rightarrow> addr list" where
  "new_menus orc es n =
     map (\<lambda>j. orc (es @ concat (replicate j find_block) @ [Sem (Take_semaphore Menu_sem 0), Sys (Malloc sizeof_menu)])) [0..<n]"

lemma new_menus_Suc:
  "new_menus orc es (Suc n) =
     orc (es @ [Sem (Take_semaphore Menu_sem 0), Sys (Malloc sizeof_menu)]) # new_menus orc (es @ find_block) n"
  unfolding new_menus_def by (subst upt_conv_Cons) (simp_all add: map_Suc_upt [symmetric] del: upt_Suc)

definition plain_name :: "string \<Rightarrow> bool" where "plain_name nm \<longleftrightarrow> NUL \<notin> set nm"

lemma menus_built:
  "menu_list as s \<Longrightarrow> \<forall>a \<in> set as. plain_name (mn_name (menu_heap s a)) \<and> mn_children (menu_heap s a) = 0 \<Longrightarrow>
   \<forall>nm \<in> set nms. plain_name nm \<Longrightarrow> distinct (map (\<lambda>a. mn_name (menu_heap s a)) as @ nms) \<Longrightarrow>
   distinct (as @ new_menus orc (trace s) (length nms)) \<Longrightarrow> 0 \<notin> set (new_menus orc (trace s) (length nms)) \<Longrightarrow>
   \<exists>s'. fold (\<lambda>nm r. Option.bind r (\<lambda>s. map_option snd (menu_find_by_name orc nm s))) nms (Some s) = Some s'
     \<and> menu_list (as @ new_menus orc (trace s) (length nms)) s'
     \<and> map (\<lambda>a. mn_name (menu_heap s' a)) (as @ new_menus orc (trace s) (length nms)) = map (\<lambda>a. mn_name (menu_heap s a)) as @ nms
     \<and> (\<forall>a \<in> set (as @ new_menus orc (trace s) (length nms)). mn_children (menu_heap s' a) = 0)
     \<and> trace s' = trace s @ concat (replicate (length nms) find_block)"
proof (induction nms arbitrary: as s)
  case Nil
  then show ?case by (simp add: new_menus_def)
next
  case (Cons nm nms)
  let ?new = "orc (trace s @ [Sem (Take_semaphore Menu_sem 0), Sys (Malloc sizeof_menu)])"
  note nm_Suc = new_menus_Suc [of orc "trace s" "length nms"]
  have "find (\<lambda>a. streq (mn_name (menu_heap s a)) nm) as = None"
    using Cons.prems(2-4) by (auto simp: find_None_iff streq_cstr cstr_id plain_name_def)
  then obtain s1 where s1: "menu_find_by_name orc nm s = Some (?new, s1)" "menu_list (as @ [?new]) s1"
    "mn_name (menu_heap s1 ?new) = nm" "mn_children (menu_heap s1 ?new) = 0"
    "\<forall>a \<in> set as. mn_name (menu_heap s1 a) = mn_name (menu_heap s a) \<and> mn_children (menu_heap s1 a) = mn_children (menu_heap s a)"
    "trace s1 = trace s @ find_block"
    using menu_find_new [OF Cons.prems(1) _ refl, of nm orc] Cons.prems(5,6) by (auto simp: nm_Suc find_block_def)
  have names: "map (\<lambda>a. mn_name (menu_heap s1 a)) (as @ [?new]) = map (\<lambda>a. mn_name (menu_heap s a)) as @ [nm]"
    using s1(3,5) by simp
  have "\<exists>s'. fold (\<lambda>nm r. Option.bind r (\<lambda>s. map_option snd (menu_find_by_name orc nm s))) nms (Some s1) = Some s'
     \<and> menu_list ((as @ [?new]) @ new_menus orc (trace s1) (length nms)) s'
     \<and> map (\<lambda>a. mn_name (menu_heap s' a)) ((as @ [?new]) @ new_menus orc (trace s1) (length nms))
         = map (\<lambda>a. mn_name (menu_heap s1 a)) (as @ [?new]) @ nms
     \<and> (\<forall>a \<in> set ((as @ [?new]) @ new_menus orc (trace s1) (length nms)). mn_children (menu_heap s' a) = 0)
     \<and> trace s' = trace s1 @ concat (replicate (length nms) find_block)"
  proof (rule Cons.IH [OF s1(2)])
    show "\<forall>a \<in> set (as @ [?new]). plain_name (mn_name (menu_heap s1 a)) \<and> mn_children (menu_heap s1 a) = 0"
      using Cons.prems(2,3) s1(3-5) by simp
    show "distinct (map (\<lambda>a. mn_name (menu_heap s1 a)) (as @ [?new]) @ nms)"
      unfolding names using Cons.prems(4) by simp
  qed (use Cons.prems(3,5,6) s1(6) in \<open>simp_all add: nm_Suc\<close>)
  then show ?case using s1(1,6) names by (simp add: nm_Suc)
qed

subsection \<open>The startup handler\<close>

definition startup_calls :: "fw_event list" where
  "startup_calls = [Sys (Call_function ''TurnOnDisplay''), Sem (Create_named_semaphore Menu_sem ''menus'' 1),
     Sem (Create_named_semaphore Gui_sem ''gui'' 0)]"

definition start_menus :: "answers \<Rightarrow> 'a world_scheme \<Rightarrow> addr list" where
  "start_menus orc w = new_menus orc (trace w @ startup_calls) 5"

lemma find_blocks_unnoticed: "cleanups (concat (replicate n find_block)) = []" "created (concat (replicate n find_block)) = []"
  by (induction n) (simp_all add: find_block_def)

text \<open>After \<open>menu_init\<close> the five menus exist, in their order and without entries.\<close>

lemma menu_init_builds:
  assumes "distinct (start_menus orc s)" and "0 \<notin> set (start_menus orc s)"
  shows "\<exists>s'. menu_init orc (emit (Sys (Call_function ''TurnOnDisplay'')) s) = Some s'
    \<and> menu_list (start_menus orc s) s'
    \<and> map (\<lambda>a. mn_name (menu_heap s' a)) (start_menus orc s) = [''Audio'', ''Video'', ''Brack'', ''Focus'', ''Debug'']
    \<and> (\<forall>a \<in> set (start_menus orc s). mn_children (menu_heap s' a) = 0)
    \<and> unnoticed s s'"
proof -
  let ?nms = "[''Audio'', ''Video'', ''Brack'', ''Focus'', ''Debug'']"
  define s1 where "s1 = emit (Sem (Create_named_semaphore Gui_sem ''gui'' 0)) (emit (Sem (Create_named_semaphore Menu_sem ''menus'' 1))
      ((emit (Sys (Call_function ''TurnOnDisplay'')) s)\<lparr>menus := 0, gui_menu_task := 0\<rparr>))"
  have t: "trace s1 = trace s @ startup_calls" "menus s1 = 0" by (simp_all add: s1_def startup_calls_def emit_def)
  have m: "new_menus orc (trace s1) (length ?nms) = start_menus orc s" by (simp add: t start_menus_def eval_nat_numeral)
  obtain s' where "fold (\<lambda>nm r. Option.bind r (\<lambda>s. map_option snd (menu_find_by_name orc nm s))) ?nms (Some s1) = Some s'"
    "menu_list ([] @ start_menus orc s) s'"
    "map (\<lambda>a. mn_name (menu_heap s' a)) ([] @ start_menus orc s) = map (\<lambda>a. mn_name (menu_heap s1 a)) [] @ ?nms"
    "\<forall>a \<in> set ([] @ start_menus orc s). mn_children (menu_heap s' a) = 0"
    "trace s' = trace s1 @ concat (replicate (length ?nms) find_block)"
    using menus_built [of "[]" s1 ?nms orc] assms unfolding m
    by (auto simp: menu_list_def dlist_def node_at_def t plain_name_def NUL_def simp del: fold.simps)
  then show ?thesis
    unfolding menu_init_def Let_def s1_def [symmetric]
    using find_blocks_unnoticed [of "length ?nms"] t by (auto simp: startup_calls_def intro!: unnoticed_trace simp del: fold.simps)
qed

lemma debug_init_returns:
  assumes ml: "menu_list ms s" and f: "find (\<lambda>a. streq (mn_name (menu_heap s a)) ''Debug'') ms = Some m"
    and "mn_children (menu_heap s m) = 0" and "\<forall>j < 8. entry_addr menu j \<noteq> 0" "distinct (map (entry_addr menu) [0..<8])"
  shows "\<exists>s'. debug_init orc handler menu s = Some s' \<and> unnoticed s s' \<and> entries_ring m (map (entry_addr menu) [0..<8]) 0 s'"
proof -
  define s1 where "s1 = emit (Prop (Prop_register_slave property_list handler)) (s\<lparr>draw_prop := 0\<rparr>)"
  have e: "menu_heap s1 = menu_heap s" "menus s1 = menus s" "trace s1 = trace s @ [Prop (Prop_register_slave property_list handler)]"
    by (simp_all add: s1_def emit_def)
  have "menu_list ms s1" using ml e by (intro menu_list_mono [OF ml]) simp_all
  from menu_add_empty [OF this, of "''Debug''" m 8 menu orc] assms(2-5) e
  obtain s' where s': "menu_add orc ''Debug'' menu 8 s1 = Some s'" "entries_ring m (map (entry_addr menu) [0..<8]) 0 s'"
    by (auto simp del: upt_rec_numeral)
  have "unnoticed s s1" by (rule unnoticed_trace [OF e(3)]) simp_all
  then show ?thesis using s' menu_add_unnoticed [OF s'(1)] unnoticed_trans
    by (auto simp: debug_init_def s1_def [symmetric] Let_def simp del: upt_rec_numeral)
qed

lemma find_hit: "a \<in> set xs \<Longrightarrow> P a \<Longrightarrow> \<exists>m \<in> set xs. find P xs = Some m"
  by (induction xs) auto

definition good_init :: "('a world_scheme \<Rightarrow> 'a world_scheme option) \<Rightarrow> bool" where
  "good_init f \<longleftrightarrow> (\<forall>s. \<exists>s'. f s = Some s' \<and> unnoticed s s')"

lemma init_funcs_return:
  "\<forall>f \<in> set fs. good_init f \<Longrightarrow> \<exists>s'. fold (\<lambda>entry r. Option.bind r entry) fs (Some s) = Some s' \<and> unnoticed s s'"
proof (induction fs arbitrary: s)
  case Nil
  then show ?case by simp
next
  case (Cons f fs)
  obtain s1 where s1: "f s = Some s1" "unnoticed s s1" using Cons.prems by (metis good_init_def list.set_intros(1))
  obtain s' where "fold (\<lambda>entry r. Option.bind r entry) fs (Some s1) = Some s'" "unnoticed s1 s'"
    using Cons.IH Cons.prems by auto
  then show ?case using s1 unnoticed_trans by auto
qed

lemma create_tasks_created:
  "created (create_tasks ts y) = map (\<lambda>t. (tk_name t, tk_entry t)) ts" "cleanups (create_tasks ts y) = []"
  by (induction ts arbitrary: y) simp_all

definition config_found :: "fw_event \<Rightarrow> bool" where
  "config_found e \<longleftrightarrow> (\<exists>t. e = Draw (Bmp_printf FONT_SMALL 0 64 (''Config file A:/magiclantern.cfg: YES'' @ t)))"


definition sample_boot :: boot_state where
  "sample_boot = \<lparr>trace = [], menus = 0, menu_heap = menu_heap two_menus, entry_heap = entry_heap two_menus,
     menu_damage = 0, menu_hidden = 0, menu_timeout = 0, gui_menu_task = 0, draw_event = 0, menu_timeout_time = 15,
     qscale = - 8, efic_temp = 0, draw_prop = 0, debug_token = 0, debug_y = 32, timed_dump = 0, timed_start = 0,
     shutdown_requested = 0, init_funcs_done = 0, global_config = [], config_vars = []\<rparr>"


end
