(* ===== verification/PackFir.thy ===== *)
theory PackFir
  imports Property
begin

text \<open>
  \<open>pack-fir.c\<close>: the tool that packs a loader and two files into a firmware update, with its
  headers, table and checksums.  Modelled as a 32-bit program (\<open>unsigned long\<close> has four bytes,
  as in the file format); files are lists of bytes, a file that cannot be opened is \<open>None\<close>.
  Messages and the two files the tool must be able to create are left out.
\<close>

definition CK :: "u32 \<Rightarrow> u32" where "CK x = - 1 - x"

record s_main_head =
  modelID :: u32
  mh_version :: "u8 list"
  mh_cksum :: u32
  firstOffset :: u32
  secondOffset :: u32

record s_pack_head =
  ph_cksum :: u32
  rec_num :: u32
  tableOffset :: u32
  packOffset :: u32
  tableLenght :: u32
  packLenght :: u32

record s_file_rec =
  fr_flags :: u32
  fr_offset :: u32
  fr_lenght :: u32
  fr_name :: "u8 list"

text \<open>The bytes of the structures, and their sizes.\<close>

definition main_head_bytes :: "s_main_head \<Rightarrow> u8 list" where
  "main_head_bytes h = bytes_of (modelID h) @ replicate 12 0 @ mh_version h @ bytes_of (mh_cksum h)
     @ bytes_of (firstOffset h) @ bytes_of (secondOffset h) @ bytes_of 0"

definition pack_head_bytes :: "s_pack_head \<Rightarrow> u8 list" where
  "pack_head_bytes p = bytes_of (ph_cksum p) @ bytes_of (rec_num p) @ bytes_of (tableOffset p)
     @ bytes_of (packOffset p) @ bytes_of (tableLenght p) @ bytes_of (packLenght p)"

definition file_rec_bytes :: "s_file_rec \<Rightarrow> u8 list" where
  "file_rec_bytes r = bytes_of (fr_flags r) @ bytes_of (fr_offset r) @ bytes_of (fr_lenght r) @ fr_name r"

definition sizeof_main_head :: nat where "sizeof_main_head = 48"
definition sizeof_pack_head :: nat where "sizeof_pack_head = 24"
definition sizeof_file_rec :: nat where "sizeof_file_rec = 40"

text \<open>Overwrites the start of a field with a string and its terminator.\<close>

definition strcpy_field :: "u8 list \<Rightarrow> string \<Rightarrow> u8 list" where
  "strcpy_field field s = map of_char s @ [0] @ drop (length s + 1) field"

definition f_cksum :: "u8 list \<Rightarrow> u32" where
  "f_cksum p = foldl (\<lambda>sm b. sm + ucast b) 0 p"

text \<open>Copies a file in chunks of 256 bytes; a short read sets the end-of-file mark.\<close>

function filecpy_loop :: "u8 list \<Rightarrow> u32 \<Rightarrow> u32 \<Rightarrow> u8 list \<Rightarrow> u32 \<times> u32 \<times> u8 list" where
  "filecpy_loop inp sm len out =
     (let buf = take 256 inp;
          out = out @ buf;
          sm = sm + f_cksum buf;
          len = len + of_nat (length buf)
      in if length buf < 256 then (sm, len, out) else filecpy_loop (drop 256 inp) sm len out)"
  by pat_completeness auto
termination by (relation "measure (\<lambda>(inp, sm, len, out). length inp)") auto

declare filecpy_loop.simps [simp del]

definition f_filecpy :: "s_file_rec \<Rightarrow> u8 list \<Rightarrow> u8 list \<Rightarrow> u32 \<times> s_file_rec \<times> u8 list" where
  "f_filecpy r out inp = (let (sm, len, out) = filecpy_loop inp 0 0 out in (sm, r\<lparr>fr_lenght := len\<rparr>, out))"

text \<open>The argument \<open>flags\<close> of the C function is not used.\<close>

definition f_add ::
  "u32 \<Rightarrow> s_file_rec \<Rightarrow> u8 list \<Rightarrow> u32 \<Rightarrow> u8 list option \<Rightarrow> string \<Rightarrow> u32 \<times> u32 \<times> s_file_rec \<times> u8 list" where
  "f_add cksum r out flags infile nm =
     (case infile of
        None \<Rightarrow> (0, cksum, r, out)
      | Some inp \<Rightarrow>
          let (sm, r, out) = f_filecpy r out inp;
              r = r\<lparr>fr_name := strcpy_field (fr_name r) nm\<rparr>
          in (fr_lenght r, cksum + sm, r, out))"

definition clear_rec :: s_file_rec where
  "clear_rec = \<lparr>fr_flags = 0, fr_offset = 0, fr_lenght = 0, fr_name = replicate 28 0\<rparr>"

record pack_state =
  pk_cksum :: u32
  pk_rec :: "s_file_rec list"
  pk_i :: nat
  pk_file :: "u8 list"

definition pack_add :: "u8 list option \<Rightarrow> string \<Rightarrow> pack_state \<Rightarrow> pack_state" where
  "pack_add infile nm s =
     (let (n, cksum, r, out) = f_add (pk_cksum s) (pk_rec s ! pk_i s) (pk_file s) 8 infile nm
      in \<lparr>pk_cksum = cksum, pk_rec = (pk_rec s)[pk_i s := r],
          pk_i = (if n \<noteq> 0 then pk_i s + 1 else pk_i s), pk_file = out\<rparr>)"

text \<open>The table loop: the offset of each record, the length of the pack and the checksum.\<close>

fun table_loop :: "u32 \<Rightarrow> s_file_rec list \<Rightarrow> u32 \<Rightarrow> u32 \<Rightarrow> s_file_rec list \<times> u32 \<times> u32" where
  "table_loop packOff [] packLen cksum = ([], packLen, cksum)"
| "table_loop packOff (r # rs) packLen cksum =
     (let r = r\<lparr>fr_offset := packLen + packOff\<rparr>;
          (rs, packLen, cksum) = table_loop packOff rs (packLen + fr_lenght r) (cksum + f_cksum (file_rec_bytes r))
      in (r # rs, packLen, cksum))"

definition pack_table :: "pack_state \<Rightarrow> s_pack_head \<times> s_file_rec list" where
  "pack_table s =
     (let n = pk_i s;
          p = \<lparr>ph_cksum = 0, rec_num = of_nat n, tableOffset = of_nat sizeof_pack_head,
               packOffset = of_nat (n * sizeof_file_rec + sizeof_pack_head),
               tableLenght = of_nat (n * sizeof_file_rec), packLenght = 0\<rparr>;
          (recs, packLen, cksum) = table_loop (packOffset p) (take n (pk_rec s)) 0 (pk_cksum s);
          p = p\<lparr>packLenght := packLen\<rparr>
      in (p\<lparr>ph_cksum := CK (cksum + f_cksum (pack_head_bytes p))\<rparr>, recs))"

definition pack_main :: "u8 list option \<Rightarrow> u8 list option \<Rightarrow> u8 list option \<Rightarrow> string option \<Rightarrow> u8 list" where
  "pack_main firm ver loader version =
     (let s = \<lparr>pk_cksum = 0, pk_rec = replicate 20 clear_rec, pk_i = 0, pk_file = []\<rparr>;
          s = pack_add ver ''FirmwareVersion'' (pack_add firm ''MAIN_FIRMWARE'' s);
          (phead, recs) = pack_table s;
          mhead = \<lparr>modelID = 0x80000250,
             mh_version = strcpy_field (replicate 16 0) (case version of None \<Rightarrow> ''eos test firm1'' | Some v \<Rightarrow> v),
             mh_cksum = 0, firstOffset = of_nat sizeof_main_head, secondOffset = 0\<rparr>;
          out = main_head_bytes mhead;
          (len, cksum, frec, out) = f_add 0 clear_rec out 0 loader ''LOADER'';
          mhead = mhead\<lparr>secondOffset := firstOffset mhead + len\<rparr>;
          out = out @ pack_head_bytes phead @ concat (map file_rec_bytes recs);
          (sm, frec, out) = f_filecpy frec out (pk_file s);
          cksum = cksum + sm;
          mhead = mhead\<lparr>mh_cksum := CK (cksum + f_cksum (main_head_bytes mhead) + f_cksum (pack_head_bytes phead)
             + f_cksum (concat (map file_rec_bytes recs)))\<rparr>
      in main_head_bytes mhead @ drop sizeof_main_head out)"

subsection \<open>Checksums and copies\<close>

lemma f_cksum_sum: "f_cksum p = sum_list (map ucast p)"
proof -
  have "foldl (\<lambda>sm (b :: u8). sm + ucast b) a p = a + sum_list (map ucast p)" for a :: u32
    by (induction p arbitrary: a) (simp_all add: add.assoc)
  then show ?thesis by (simp add: f_cksum_def)
qed

lemma f_cksum_append [simp]: "f_cksum (xs @ ys) = f_cksum xs + f_cksum ys"
  by (simp add: f_cksum_sum)

lemma f_cksum_Nil [simp]: "f_cksum [] = 0"
  by (simp add: f_cksum_def)

lemma filecpy_loop_all:
  "filecpy_loop inp sm len out = (sm + f_cksum inp, len + of_nat (length inp), out @ inp)"
proof (induction inp sm len out rule: filecpy_loop.induct)
  case (1 inp sm len out)
  show ?case
  proof (cases "length (take 256 inp) < 256")
    case True
    then have "length inp < 256" by (simp add: min_def split: if_splits)
    then show ?thesis by (subst filecpy_loop.simps) (simp add: Let_def)
  next
    case False
    then have l: "256 \<le> length inp" by simp
    have "f_cksum inp = f_cksum (take 256 inp) + f_cksum (drop 256 inp)"
      by (metis append_take_drop_id f_cksum_append)
    moreover have "(of_nat (length inp) :: u32) = 256 + of_nat (length inp - 256)"
      using l by (simp add: of_nat_diff)
    ultimately show ?thesis
      using False l 1 [OF refl refl refl refl False] by (subst filecpy_loop.simps) (simp add: Let_def min_absorb2 add.assoc)
  qed
qed

lemma f_filecpy_all: "f_filecpy r out inp = (f_cksum inp, r\<lparr>fr_lenght := of_nat (length inp)\<rparr>, out @ inp)"
  by (simp add: f_filecpy_def filecpy_loop_all)

lemma length_bytes:
  "length (main_head_bytes h) = 32 + length (mh_version h)" "length (pack_head_bytes p) = 24"
  "length (file_rec_bytes r) = 12 + length (fr_name r)"
  by (simp_all add: main_head_bytes_def pack_head_bytes_def file_rec_bytes_def)

subsection \<open>The files in the pack\<close>

text \<open>The files the tool packs: those that can be opened and are not empty.\<close>

definition packed_files :: "u8 list option \<Rightarrow> u8 list option \<Rightarrow> (string \<times> u8 list) list" where
  "packed_files firm ver =
     (case firm of None \<Rightarrow> [] | Some d \<Rightarrow> if d = [] then [] else [(''MAIN_FIRMWARE'', d)])
     @ (case ver of None \<Rightarrow> [] | Some d \<Rightarrow> if d = [] then [] else [(''FirmwareVersion'', d)])"

definition file_entry :: "string \<times> u8 list \<Rightarrow> s_file_rec" where
  "file_entry f = clear_rec\<lparr>fr_lenght := of_nat (length (snd f)), fr_name := strcpy_field (replicate 28 0) (fst f)\<rparr>"

definition contents :: "u8 list option \<Rightarrow> u8 list" where
  "contents f = (case f of None \<Rightarrow> [] | Some d \<Rightarrow> d)"

lemma of_nat_length_0: "length (d :: u8 list) < 2 ^ 32 \<Longrightarrow> (of_nat (length d) :: u32) = 0 \<longleftrightarrow> d = []"
  using unat_of_nat_u32 [of "length d"] by auto

lemma pack_add_file:
  assumes "pk_i s < length (pk_rec s)" and "length (contents f) < 2 ^ 32"
  shows "pack_add f nm s =
    (case f of None \<Rightarrow> s | Some d \<Rightarrow>
       s\<lparr>pk_cksum := pk_cksum s + f_cksum d,
         pk_rec := (pk_rec s)[pk_i s := (pk_rec s ! pk_i s)\<lparr>fr_lenght := of_nat (length d),
            fr_name := strcpy_field (fr_name (pk_rec s ! pk_i s)) nm\<rparr>],
         pk_i := (if d = [] then pk_i s else pk_i s + 1), pk_file := pk_file s @ d\<rparr>)"
  using assms
  by (cases f) (simp_all add: pack_add_def f_add_def f_filecpy_all Let_def contents_def of_nat_length_0)

lemma renamed: "strcpy_field (strcpy_field (replicate 28 0) ''MAIN_FIRMWARE'') ''FirmwareVersion''
    = strcpy_field (replicate 28 0) ''FirmwareVersion''"
  by (simp add: strcpy_field_def numeral_eq_Suc)

lemma clear_name: "fr_name clear_rec = replicate 28 0"
  by (simp add: clear_rec_def)

definition empty_pack :: pack_state where
  "empty_pack = \<lparr>pk_cksum = 0, pk_rec = replicate 20 clear_rec, pk_i = 0, pk_file = []\<rparr>"

lemma pack_files:
  assumes "length (contents firm) < 2 ^ 32" and "length (contents ver) < 2 ^ 32"
  defines "s \<equiv> pack_add ver ''FirmwareVersion'' (pack_add firm ''MAIN_FIRMWARE'' empty_pack)"
  shows "pk_i s = length (packed_files firm ver)"
    and "take (pk_i s) (pk_rec s) = map file_entry (packed_files firm ver)"
    and "pk_cksum s = f_cksum (pk_file s)" and "pk_file s = concat (map snd (packed_files firm ver))"
proof -
  have r: "replicate 20 clear_rec = clear_rec # clear_rec # replicate 18 clear_rec" by (simp add: numeral_eq_Suc)
  note defs = s_def pack_add_file empty_pack_def r packed_files_def file_entry_def renamed clear_name
  have a: "length (contents firm) < 2 ^ 32" "length (contents ver) < 2 ^ 32" by fact+
  show "pk_i s = length (packed_files firm ver)" "pk_cksum s = f_cksum (pk_file s)"
    "pk_file s = concat (map snd (packed_files firm ver))"
    using a by (auto simp: defs split: option.splits)
  show "take (pk_i s) (pk_rec s) = map file_entry (packed_files firm ver)"
    using a by (auto simp: defs split: option.splits)
qed

lemma table_loop_spec:
  "table_loop off rs len ck = (rs', len', ck') \<Longrightarrow>
     length rs' = length rs \<and> len' = len + sum_list (map fr_lenght rs)
     \<and> ck' = ck + f_cksum (concat (map file_rec_bytes rs'))
     \<and> (\<forall>j < length rs. rs' ! j = (rs ! j)\<lparr>fr_offset := len + sum_list (map fr_lenght (take j rs)) + off\<rparr>)"
proof (induction off rs len ck arbitrary: rs' len' ck' rule: table_loop.induct)
  case (1 off len ck)
  then show ?case by simp
next
  case (2 off r rs len ck)
  let ?r = "r\<lparr>fr_offset := len + off\<rparr>"
  obtain rs1 where rs1: "table_loop off rs (len + fr_lenght r) (ck + f_cksum (file_rec_bytes ?r)) = (rs1, len', ck')"
    "rs' = ?r # rs1"
    using 2(2) by (auto simp: Let_def split: prod.splits)
  from 2(1) [OF refl, of rs1 len' ck'] rs1(1)
  have IH: "length rs1 = length rs" "len' = len + fr_lenght r + sum_list (map fr_lenght rs)"
    "ck' = ck + f_cksum (file_rec_bytes ?r) + f_cksum (concat (map file_rec_bytes rs1))"
    "\<forall>j < length rs. rs1 ! j = (rs ! j)\<lparr>fr_offset := len + fr_lenght r + sum_list (map fr_lenght (take j rs)) + off\<rparr>"
    by simp_all
  have "rs' ! j = ((r # rs) ! j)\<lparr>fr_offset := len + sum_list (map fr_lenght (take j (r # rs))) + off\<rparr>"
    if "j < length (r # rs)" for j
    using that IH(4) rs1(2) by (cases j) (simp_all add: add.assoc)
  then show ?case using IH(1-3) rs1(2) by (simp add: add.assoc)
qed

subsection \<open>The image\<close>

lemma length_strcpy_field: "length s < length field \<Longrightarrow> length (strcpy_field field s) = length field"
  by (simp add: strcpy_field_def)

definition version_text :: "string option \<Rightarrow> string" where
  "version_text version = (case version of None \<Rightarrow> ''eos test firm1'' | Some v \<Rightarrow> v)"

text \<open>What the image consists of.\<close>

definition image_parts ::
  "s_main_head \<Rightarrow> s_pack_head \<Rightarrow> s_file_rec list \<Rightarrow> u8 list \<Rightarrow> (string \<times> u8 list) list \<Rightarrow> bool" where
  "image_parts h p recs ld fs \<longleftrightarrow>
     length (mh_version h) = 16 \<and> secondOffset h = 48 + of_nat (length ld)
     \<and> rec_num p = of_nat (length fs) \<and> tableOffset p = 24 \<and> packOffset p = of_nat (length fs * 40 + 24)
     \<and> length recs = length fs
     \<and> (\<forall>j < length fs. recs ! j = (file_entry (fs ! j))
          \<lparr>fr_offset := sum_list (map (\<lambda>f. of_nat (length (snd f))) (take j fs)) + packOffset p\<rparr>)
     \<and> ph_cksum p = CK (f_cksum (concat (map snd fs)) + f_cksum (concat (map file_rec_bytes recs))
          + f_cksum (pack_head_bytes (p\<lparr>ph_cksum := 0\<rparr>)))
     \<and> mh_cksum h = CK (f_cksum ld + f_cksum (concat (map snd fs)) + f_cksum (main_head_bytes (h\<lparr>mh_cksum := 0\<rparr>))
          + f_cksum (pack_head_bytes p) + f_cksum (concat (map file_rec_bytes recs)))"

lemma pack_table_parts:
  assumes "length (contents firm) < 2 ^ 32" and "length (contents ver) < 2 ^ 32"
  defines "s \<equiv> pack_add ver ''FirmwareVersion'' (pack_add firm ''MAIN_FIRMWARE'' empty_pack)"
    and "fs \<equiv> packed_files firm ver"
  obtains p recs where "pack_table s = (p, recs)"
    and "rec_num p = of_nat (length fs)" "tableOffset p = 24" "packOffset p = of_nat (length fs * 40 + 24)"
    and "length recs = length fs"
    and "\<forall>j < length fs. recs ! j = (file_entry (fs ! j))
          \<lparr>fr_offset := sum_list (map (\<lambda>f. of_nat (length (snd f))) (take j fs)) + packOffset p\<rparr>"
    and "ph_cksum p = CK (f_cksum (concat (map snd fs)) + f_cksum (concat (map file_rec_bytes recs))
          + f_cksum (pack_head_bytes (p\<lparr>ph_cksum := 0\<rparr>)))"
proof -
  note pf = pack_files [OF assms(1,2), folded s_def fs_def]
  obtain recs pl ck where t: "table_loop (of_nat (length fs * 40 + 24)) (map file_entry fs) 0 (f_cksum (concat (map snd fs))) = (recs, pl, ck)"
    by (metis prod_cases3)
  note ts = table_loop_spec [OF t]
  define q where "q = \<lparr>ph_cksum = 0, rec_num = of_nat (length fs), tableOffset = of_nat sizeof_pack_head,
      packOffset = of_nat (length fs * sizeof_file_rec + sizeof_pack_head),
      tableLenght = of_nat (length fs * sizeof_file_rec), packLenght = pl\<rparr>"
  have run: "pack_table s = (q\<lparr>ph_cksum := CK (ck + f_cksum (pack_head_bytes q))\<rparr>, recs)"
    using t pf(2) [unfolded pf(1)] unfolding pack_table_def Let_def pf(1,3,4)
    by (simp add: q_def sizeof_file_rec_def sizeof_pack_head_def)
  have e: "fr_lenght \<circ> file_entry = (\<lambda>f. of_nat (length (snd f)))" by (simp add: file_entry_def fun_eq_iff)
  show thesis
    by (rule that [OF run]) (use ts in \<open>simp_all add: q_def sizeof_file_rec_def sizeof_pack_head_def take_map e\<close>)
qed

lemma pack_main_parts:
  assumes "length (contents firm) < 2 ^ 32" and "length (contents ver) < 2 ^ 32" and "length (version_text version) < 16"
  obtains h p recs where
    "pack_main firm ver loader version = main_head_bytes h @ contents loader @ pack_head_bytes p
       @ concat (map file_rec_bytes recs) @ concat (map snd (packed_files firm ver))"
    and "image_parts h p recs (contents loader) (packed_files firm ver)"
proof -
  let ?fs = "packed_files firm ver"
  obtain p recs where pr: "pack_table (pack_add ver ''FirmwareVersion'' (pack_add firm ''MAIN_FIRMWARE'' empty_pack)) = (p, recs)"
    and parts: "rec_num p = of_nat (length ?fs)" "tableOffset p = 24" "packOffset p = of_nat (length ?fs * 40 + 24)"
      "length recs = length ?fs"
      "\<forall>j < length ?fs. recs ! j = (file_entry (?fs ! j))
          \<lparr>fr_offset := sum_list (map (\<lambda>f. of_nat (length (snd f))) (take j ?fs)) + packOffset p\<rparr>"
      "ph_cksum p = CK (f_cksum (concat (map snd ?fs)) + f_cksum (concat (map file_rec_bytes recs))
          + f_cksum (pack_head_bytes (p\<lparr>ph_cksum := 0\<rparr>)))"
    by (rule pack_table_parts [OF assms(1,2)])
  have pk: "pk_file (pack_add ver ''FirmwareVersion'' (pack_add firm ''MAIN_FIRMWARE'' empty_pack)) = concat (map snd ?fs)"
    by (rule pack_files(4) [OF assms(1,2)])
  define g where "g = \<lparr>modelID = 0x80000250, mh_version = strcpy_field (replicate 16 0) (version_text version),
      mh_cksum = 0, firstOffset = of_nat sizeof_main_head, secondOffset = 0\<rparr>"
  define g2 where "g2 = g\<lparr>secondOffset := firstOffset g + of_nat (length (contents loader))\<rparr>"
  have v: "length (mh_version g) = 16" "length (mh_version g2) = 16"
    using assms(3) by (simp_all add: g_def g2_def length_strcpy_field)
  define c where "c = CK (f_cksum (contents loader) + f_cksum (concat (map snd ?fs)) + f_cksum (main_head_bytes g2)
      + f_cksum (pack_head_bytes p) + f_cksum (concat (map file_rec_bytes recs)))"
  obtain r where add: "f_add 0 clear_rec (main_head_bytes g) 0 loader ''LOADER'' =
      (of_nat (length (contents loader)), f_cksum (contents loader), r, main_head_bytes g @ contents loader)"
    by (cases loader) (simp_all add: f_add_def f_filecpy_all contents_def Let_def)
  have h: "drop sizeof_main_head (main_head_bytes g @ xs) = xs" for xs
    using v by (simp add: length_bytes sizeof_main_head_def)
  have "pack_main firm ver loader version = main_head_bytes (g2\<lparr>mh_cksum := c\<rparr>) @ contents loader @ pack_head_bytes p
       @ concat (map file_rec_bytes recs) @ concat (map snd ?fs)"
    unfolding pack_main_def Let_def empty_pack_def [symmetric] version_text_def [symmetric] pr prod.case g_def [symmetric] add
      f_filecpy_all pk append_assoc h
    by (simp add: g2_def c_def)
  moreover have "image_parts (g2\<lparr>mh_cksum := c\<rparr>) p recs (contents loader) ?fs"
    unfolding image_parts_def using parts v by (simp add: c_def g_def g2_def sizeof_main_head_def)
  ultimately show thesis by (rule that)
qed

subsection \<open>Reading the image back\<close>

definition get32 :: "u8 list \<Rightarrow> nat \<Rightarrow> u32" where
  "get32 img off = buf32 (take 4 (drop off img))"

definition zero32 :: "u8 list \<Rightarrow> nat \<Rightarrow> u8 list" where
  "zero32 img off = take off img @ replicate 4 0 @ drop (off + 4) img"

text \<open>File \<open>j\<close> of the pack: the second part starts at the header's word 40; its header gives the
  place of the table, whose entries have 40 bytes.\<close>

definition second_part :: "u8 list \<Rightarrow> nat" where
  "second_part img = unat (get32 img 40)"

definition unpack_file :: "u8 list \<Rightarrow> nat \<Rightarrow> u8 list \<times> u8 list" where
  "unpack_file img j =
     (let second = second_part img;
          entry = second + unat (get32 img (second + 8)) + 40 * j
      in (takeWhile (\<lambda>b. b \<noteq> 0) (take 28 (drop (entry + 12) img)),
          take (unat (get32 img (entry + 8))) (drop (second + unat (get32 img (entry + 4))) img)))"

lemma get32_field: "length xs = off \<Longrightarrow> get32 (xs @ bytes_of v @ ys) off = v"
  by (simp add: get32_def buf32_bytes_of)

lemma zero32_field: "length xs = off \<Longrightarrow> zero32 (xs @ bytes_of v @ ys) off = xs @ bytes_of 0 @ ys"
  by (simp add: zero32_def bytes_of_def byte_of_def numeral_eq_Suc)

lemma get32_drop: "get32 (drop k img) off = get32 img (k + off)"
  by (simp add: get32_def add.commute)

lemma main_head_fields:
  assumes "length (mh_version h) = 16"
  shows "get32 (main_head_bytes h @ ys) 32 = mh_cksum h" "get32 (main_head_bytes h @ ys) 40 = secondOffset h"
    "zero32 (main_head_bytes h @ ys) 32 = main_head_bytes (h\<lparr>mh_cksum := 0\<rparr>) @ ys"
proof -
  let ?a = "bytes_of (modelID h) @ replicate 12 0 @ mh_version h"
  have l: "length ?a = 32" "length (?a @ bytes_of (mh_cksum h) @ bytes_of (firstOffset h)) = 40" using assms by simp_all
  have e: "main_head_bytes h @ ys = ?a @ bytes_of (mh_cksum h) @ (bytes_of (firstOffset h) @ bytes_of (secondOffset h) @ bytes_of 0 @ ys)"
    "main_head_bytes h @ ys = (?a @ bytes_of (mh_cksum h) @ bytes_of (firstOffset h)) @ bytes_of (secondOffset h) @ (bytes_of 0 @ ys)"
    by (simp_all add: main_head_bytes_def)
  show "get32 (main_head_bytes h @ ys) 32 = mh_cksum h" unfolding e(1) by (rule get32_field [OF l(1)])
  show "get32 (main_head_bytes h @ ys) 40 = secondOffset h" unfolding e(2) by (rule get32_field [OF l(2)])
  show "zero32 (main_head_bytes h @ ys) 32 = main_head_bytes (h\<lparr>mh_cksum := 0\<rparr>) @ ys"
    unfolding e(1) zero32_field [OF l(1)] by (simp add: main_head_bytes_def)
qed

lemma pack_head_fields:
  "get32 (pack_head_bytes p @ ys) 0 = ph_cksum p" "get32 (pack_head_bytes p @ ys) 4 = rec_num p"
  "get32 (pack_head_bytes p @ ys) 8 = tableOffset p"
  "zero32 (pack_head_bytes p @ ys) 0 = pack_head_bytes (p\<lparr>ph_cksum := 0\<rparr>) @ ys"
  using get32_field [of "[]" 0 "ph_cksum p"] get32_field [of "bytes_of (ph_cksum p)" 4 "rec_num p"]
    get32_field [of "bytes_of (ph_cksum p) @ bytes_of (rec_num p)" 8 "tableOffset p"] zero32_field [of "[]" 0 "ph_cksum p"]
  by (simp_all add: pack_head_bytes_def)

lemma file_rec_fields:
  "get32 (file_rec_bytes r @ ys) 4 = fr_offset r" "get32 (file_rec_bytes r @ ys) 8 = fr_lenght r"
  "length (fr_name r) = 28 \<Longrightarrow> take 28 (drop 12 (file_rec_bytes r @ ys)) = fr_name r"
  using get32_field [of "bytes_of (fr_flags r)" 4 "fr_offset r"]
    get32_field [of "bytes_of (fr_flags r) @ bytes_of (fr_offset r)" 8 "fr_lenght r"]
  by (simp_all add: file_rec_bytes_def)

lemma second_part_eq:
  assumes "image_parts h p recs ld fs" and "length ld + 48 < 2 ^ 32"
  shows "second_part (main_head_bytes h @ ld @ rest) = length ld + 48"
    and "drop (length ld + 48) (main_head_bytes h @ ld @ rest) = rest"
proof -
  have v: "length (mh_version h) = 16" using assms(1) by (simp add: image_parts_def)
  have "second_part (main_head_bytes h @ ld @ rest) = unat (48 + of_nat (length ld) :: u32)"
    using assms(1) unfolding second_part_def main_head_fields(2) [OF v] by (simp add: image_parts_def)
  moreover have "(48 + of_nat (length ld) :: u32) = of_nat (length ld + 48)" by simp
  ultimately show "second_part (main_head_bytes h @ ld @ rest) = length ld + 48"
    using unat_of_nat_u32 [OF assms(2)] by (simp only:)
  show "drop (length ld + 48) (main_head_bytes h @ ld @ rest) = rest" using v by (simp add: length_bytes)
qed

text \<open>C23: The checksums of the image hold: the bytes of the whole image, and those of its second
  part, each with the checksum field itself as zero, add up to the complement of the field.\<close>

theorem pack_checksums:
  assumes "length (contents firm) < 2 ^ 32" and "length (contents ver) < 2 ^ 32"
    and "length (version_text version) < 16" and "length (contents loader) + 48 < 2 ^ 32"
  shows "let img = pack_main firm ver loader version; second = second_part img
    in get32 img 32 = CK (f_cksum (zero32 img 32)) \<and> get32 img second = CK (f_cksum (zero32 (drop second img) 0))"
proof -
  obtain h p recs where img: "pack_main firm ver loader version = main_head_bytes h @ contents loader @ pack_head_bytes p
       @ concat (map file_rec_bytes recs) @ concat (map snd (packed_files firm ver))"
    and parts: "image_parts h p recs (contents loader) (packed_files firm ver)"
    by (rule pack_main_parts [OF assms(1-3)])
  have v: "length (mh_version h) = 16" using parts by (simp add: image_parts_def)
  note sp = second_part_eq [OF parts assms(4)]
  have "get32 (pack_main firm ver loader version) (length (contents loader) + 48) = ph_cksum p"
    using get32_drop [of "length (contents loader) + 48" "pack_main firm ver loader version" 0]
    unfolding img sp(2) pack_head_fields by simp
  then show ?thesis
    using parts unfolding Let_def img sp pack_head_fields main_head_fields [OF v]
    by (simp add: image_parts_def algebra_simps)
qed

theorem pack_checksums_witness:
  "let img = pack_main (Some [1, 2, 3]) None (Some [9]) None
   in get32 img 32 = CK (f_cksum (zero32 img 32))"
  using pack_checksums [of "Some [1, 2, 3]" None None "Some [9]"]
  by (simp add: contents_def version_text_def Let_def)

lemma take_drop_concat: "j < length xs \<Longrightarrow> take (length (xs ! j)) (drop (sum_list (map length (take j xs))) (concat xs)) = xs ! j"
proof (induction xs arbitrary: j)
  case (Cons x xs)
  then show ?case by (cases j) simp_all
qed simp

lemma drop_records:
  "\<forall>r \<in> set recs. length (file_rec_bytes r) = 40 \<Longrightarrow> j < length recs \<Longrightarrow>
   drop (40 * j) (concat (map file_rec_bytes recs) @ ys) = file_rec_bytes (recs ! j) @ concat (map file_rec_bytes (drop (Suc j) recs)) @ ys"
proof (induction recs arbitrary: j)
  case (Cons r recs)
  then show ?case by (cases j) simp_all
qed simp

lemma sum_lengths: "sum_list (map (\<lambda>f. of_nat (length (snd f))) fs) = (of_nat (sum_list (map (\<lambda>f. length (snd f)) fs)) :: u32)"
  by (induction fs) simp_all

text \<open>The records of the table, one by one.\<close>

lemma parts_record:
  assumes "image_parts h p recs ld fs" and "j < length fs"
  shows "recs ! j = (file_entry (fs ! j))\<lparr>fr_offset := sum_list (map (\<lambda>f. of_nat (length (snd f))) (take j fs)) + packOffset p\<rparr>"
    and "length recs = length fs" and "tableOffset p = 24" and "packOffset p = of_nat (length fs * 40 + 24)"
  using assms by (simp_all add: image_parts_def)

lemma record_length:
  assumes parts: "image_parts h p recs ld fs" and nm: "\<forall>f \<in> set fs. length (fst f) < 28"
  shows "j < length fs \<Longrightarrow> length (fr_name (recs ! j)) = 28"
    and "\<forall>r \<in> set recs. length (file_rec_bytes r) = 40"
proof -
  have *: "length (fr_name (recs ! i)) = 28" if "i < length fs" for i
    using parts_record(1) [OF parts that] that nm by (simp add: file_entry_def length_strcpy_field)
  then show "j < length fs \<Longrightarrow> length (fr_name (recs ! j)) = 28" .
  have "length recs = length fs" using parts by (simp add: image_parts_def)
  with * show "\<forall>r \<in> set recs. length (file_rec_bytes r) = 40"
    by (auto simp: in_set_conv_nth length_bytes)
qed

lemma record_values:
  assumes parts: "image_parts h p recs ld fs" and j: "j < length fs"
    and size: "sum_list (map (\<lambda>f. length (snd f)) fs) + 40 * length fs + 24 < 2 ^ 32"
  shows "unat (fr_lenght (recs ! j)) = length (snd (fs ! j))"
    and "unat (fr_offset (recs ! j)) = sum_list (map (\<lambda>f. length (snd f)) (take j fs)) + (24 + 40 * length fs)"
proof -
  have "length (snd (fs ! j)) \<le> sum_list (map (\<lambda>f. length (snd f)) fs)"
    using j by (intro member_le_sum_list) auto
  then show "unat (fr_lenght (recs ! j)) = length (snd (fs ! j))"
    using parts_record(1) [OF parts j] size unat_of_nat_u32 by (simp add: file_entry_def)
  let ?before = "sum_list (map (\<lambda>f. length (snd f)) (take j fs))"
  have "?before \<le> sum_list (map (\<lambda>f. length (snd f)) fs)"
    using sum_list_append [of "map (\<lambda>f. length (snd f)) (take j fs)" "map (\<lambda>f. length (snd f)) (drop j fs)"]
    by (simp flip: map_append)
  then show "unat (fr_offset (recs ! j)) = ?before + (24 + 40 * length fs)"
    using unat_of_nat_u32 [of "?before + (length fs * 40 + 24)"] size parts_record(1,4) [OF parts j]
    by (simp add: sum_lengths)
qed

text \<open>One file of the second part, at the place its record names.\<close>

lemma unpack_one:
  assumes parts: "image_parts h p recs ld fs" and j: "j < length fs"
    and size: "length ld + 48 < 2 ^ 32" "sum_list (map (\<lambda>f. length (snd f)) fs) + 40 * length fs + 24 < 2 ^ 32"
    and nm: "length (fst (fs ! j)) < 28" "\<forall>f \<in> set fs. length (fst f) < 28" "\<forall>c \<in> set (fst (fs ! j)). (of_char c :: u8) \<noteq> 0"
    and img: "img = main_head_bytes h @ ld @ pack_head_bytes p @ concat (map file_rec_bytes recs) @ concat (map snd fs)"
  shows "unpack_file img j = (map of_char (fst (fs ! j)), snd (fs ! j))"
proof -
  let ?r = "recs ! j" and ?data = "concat (map snd fs)" and ?at = "length ld + 48"
  let ?rest = "pack_head_bytes p @ concat (map file_rec_bytes recs) @ ?data"
  let ?entry = "file_rec_bytes ?r @ concat (map file_rec_bytes (drop (Suc j) recs)) @ ?data"
  note sp = second_part_eq [OF parts size(1), of ?rest, folded img]
  note l28 = record_length(1) [OF parts nm(2) j] and l40 = record_length(2) [OF parts nm(2)]
  note rec = parts_record [OF parts j] record_values [OF parts j size(2)]
  have tbl: "unat (get32 img (?at + 8)) = 24"
    using rec(3) by (simp only: get32_drop [symmetric] sp(2) pack_head_fields) simp
  have entry: "drop (?at + 24 + 40 * j + k) img = drop k ?entry" for k
  proof -
    have "drop (?at + 24 + 40 * j + k) img = drop k (drop (24 + 40 * j) (drop ?at img))" by (simp add: ac_simps)
    also have "drop (24 + 40 * j) (drop ?at img) = ?entry"
      using drop_records [OF l40, of j ?data] j rec(2) by (simp only: sp(2)) (simp add: length_bytes flip: drop_drop)
    finally show ?thesis .
  qed
  have field: "get32 img (?at + 24 + 40 * j + k) = get32 ?entry k" for k
    using entry [of k] by (simp add: get32_def)
  have "length (concat (map file_rec_bytes recs)) = 40 * length fs"
    using l40 rec(2) by (simp add: length_concat o_def sum_list_triv map_eq_conv cong: map_cong)
  moreover have "drop (?at + unat (fr_offset ?r)) img
      = drop (sum_list (map (\<lambda>f. length (snd f)) (take j fs))) (drop (24 + 40 * length fs) (drop ?at img))"
    unfolding rec(6) by (simp add: ac_simps)
  ultimately have data: "take (length (snd (fs ! j))) (drop (?at + unat (fr_offset ?r)) img) = snd (fs ! j)"
    using take_drop_concat [of j "map snd fs"] j by (simp only: sp(2)) (simp add: length_bytes take_map o_def)
  have "takeWhile (\<lambda>b. b \<noteq> 0) (fr_name ?r) = map of_char (fst (fs ! j))"
    using rec(1) j nm(3) by (simp add: file_entry_def strcpy_field_def takeWhile_append_stop)
  with data show ?thesis
    by (simp only: unpack_file_def Let_def sp(1) tbl field entry file_rec_fields(1,2) file_rec_fields(3) [OF l28] rec(5))
qed

text \<open>C8: What is packed can be unpacked: reading the image by its headers and its table gives, for
  every file that could be opened and was not empty, its name and exactly its bytes.\<close>

theorem pack_unpacks:
  assumes "length (contents firm) + length (contents ver) + length (contents loader) + 200 < 2 ^ 32"
    and "length (version_text version) < 16"
  shows "let img = pack_main firm ver loader version
    in get32 img (second_part img + 4) = of_nat (length (packed_files firm ver))
      \<and> map (unpack_file img) [0..<length (packed_files firm ver)]
          = map (\<lambda>(nm, d). (map of_char nm, d)) (packed_files firm ver)"
proof -
  let ?ld = "contents loader" and ?fs = "packed_files firm ver"
  have a: "length (contents firm) < 2 ^ 32" "length (contents ver) < 2 ^ 32" "length ?ld + 48 < 2 ^ 32" using assms(1) by simp_all
  obtain h p recs where img: "pack_main firm ver loader version = main_head_bytes h @ ?ld @ pack_head_bytes p
       @ concat (map file_rec_bytes recs) @ concat (map snd ?fs)"
    and parts: "image_parts h p recs ?ld ?fs"
    by (rule pack_main_parts [OF a(1,2) assms(2)])
  have names: "f \<in> set ?fs \<Longrightarrow> fst f = ''MAIN_FIRMWARE'' \<or> fst f = ''FirmwareVersion''" for f
    by (auto simp: packed_files_def split: option.splits if_splits)
  have size: "sum_list (map (\<lambda>f. length (snd f)) ?fs) + 40 * length ?fs + 24 < 2 ^ 32"
    using assms(1) by (auto simp: packed_files_def contents_def split: option.splits)
  have "unpack_file (pack_main firm ver loader version) j = (map of_char (fst (?fs ! j)), snd (?fs ! j))" if j: "j < length ?fs" for j
  proof (rule unpack_one [OF parts j a(3) size _ _ _ img])
    show "length (fst (?fs ! j)) < 28" "\<forall>c \<in> set (fst (?fs ! j)). (of_char c :: u8) \<noteq> 0"
      using names [OF nth_mem [OF j]] by auto
    show "\<forall>f \<in> set ?fs. length (fst f) < 28" using names by fastforce
  qed
  then have "map (unpack_file (pack_main firm ver loader version)) [0..<length ?fs] = map (\<lambda>(nm, d). (map of_char nm, d)) ?fs"
    by (intro nth_equalityI) (simp_all add: case_prod_beta)
  moreover note sp = second_part_eq [OF parts a(3)]
  have "get32 (pack_main firm ver loader version) (length ?ld + 48 + 4) = rec_num p"
    unfolding img get32_drop [symmetric] sp(2) pack_head_fields ..
  then have "get32 (pack_main firm ver loader version) (second_part (pack_main firm ver loader version) + 4) = of_nat (length ?fs)"
    unfolding img sp(1) using parts by (simp add: image_parts_def)
  ultimately show ?thesis by (simp add: Let_def)
qed

theorem pack_unpacks_witness:
  "let img = pack_main None (Some [50, 46, 48]) (Some [1, 2]) (Some ''1.0'')
   in map (unpack_file img) [0..<1] = [(map of_char ''FirmwareVersion'', [50, 46, 48])]"
  using pack_unpacks [of None "Some [50, 46, 48]" "Some [1, 2]" "Some ''1.0''"]
  by (simp add: contents_def version_text_def packed_files_def Let_def)

end
