(* ===== verification/Bootflags.thy ===== *)
theory Bootflags
  imports Debug Memory
begin

text \<open>
  \<open>bootflags.c\<close>: the flag that makes the camera boot from the card, the boot block that carries
  the two magic strings, and the power-saving setting.  The NVRAM copy of the flags and the
  buffers are memory of the camera; the sector that the card's driver reads is an argument.  The
  state extends that of \<open>Debug\<close>, so that both can be initialised in one run of the program.
\<close>

record bootflags_state = debug_state +
  cam_mem :: memory
  disable_powersave :: u32

definition NVRAM_BOOTFLAGS :: addr where "NVRAM_BOOTFLAGS = 0xF8000000"

text \<open>\<open>boot_flags->bootdisk\<close>.\<close>

definition bootdisk :: "memory \<Rightarrow> u32" where
  "bootdisk m = load_word m (NVRAM_BOOTFLAGS + 0x04)"

definition EM_ALLOW :: int where "EM_ALLOW = 1"
definition EM_PROHIBIT :: int where "EM_PROHIBIT = 2"
definition PROP_TERMINATE_SHUT_REQ :: u32 where "PROP_TERMINATE_SHUT_REQ = 0x80010001"

subsection \<open>The boot flag and the boot block\<close>

definition bootflag_toggle :: "'a bootflags_state_scheme \<Rightarrow> 'a bootflags_state_scheme" where
  "bootflag_toggle s =
     emit (Sys (Call_function (if bootdisk (cam_mem s) \<noteq> 0 then ''DisableBootDisk'' else ''EnableBootDisk''))) s"

definition bootflag_display :: "u32 \<Rightarrow> u32 \<Rightarrow> int \<Rightarrow> 'a bootflags_state_scheme \<Rightarrow> 'a bootflags_state_scheme" where
  "bootflag_display x y selected s =
     emit (Draw (Bmp_printf (menu_font selected) x y
       (''Autoboot    '' @ (if bootdisk (cam_mem s) \<noteq> 0 then ''ON '' else ''OFF'')))) s"

fun my_memcpy :: "addr \<Rightarrow> u8 list \<Rightarrow> memory \<Rightarrow> memory" where
  "my_memcpy dest [] m = m"
| "my_memcpy dest (b # src) m = my_memcpy (dest + 1) src (m(dest := b))"

definition ascii_bytes :: "string \<Rightarrow> u8 list" where
  "ascii_bytes = map of_char"

text \<open>\<open>sector\<close> is what the driver leaves in the buffer, whatever it answers.\<close>

definition bootflag_write_bootblock ::
  "answers \<Rightarrow> addr \<Rightarrow> u8 list \<Rightarrow> 'a bootflags_state_scheme \<Rightarrow> 'a bootflags_state_scheme" where
  "bootflag_write_bootblock orc read_block sector s =
     (let s = gui_stop_menu s;
          (block, s) = ask orc (Sys (Alloc_dma_memory 0x200)) s;
          s = emit (Draw (Bmp_printf FONT_MED 0 40 (''mem='' @ fmt_0x 8 block @ '' read='' @ fmt_0x 8 read_block))) s;
          (rc, s) = ask orc (Sys (Read_block 0)) s;
          s = s\<lparr>cam_mem := my_memcpy block sector (cam_mem s)\<rparr>;
          s = emits [Sys (Msleep 100),
                     Draw (Bmp_printf FONT_MED 600 40 (''read='' @ fmt_d 0 (sint rc))),
                     Draw (Bmp_hexdump FONT_SMALL 0 60 block 0x100)] s;
          m = my_memcpy (block + 0x47) (ascii_bytes ''EOS_DEVELOP'') (cam_mem s);
          m = my_memcpy (block + 0x5C) (ascii_bytes ''BOOTDISK'') m;
          s = s\<lparr>cam_mem := m\<rparr>;
          (rc, s) = ask orc (Sys (Write_block (map (\<lambda>k. cam_mem s (block + of_nat k)) [0..<0x200]))) s
      in emits [Draw (Bmp_printf FONT_MED 600 60 (''write='' @ fmt_d 0 (sint rc))),
                Sys (Free_dma_memory block)] s)"

subsection \<open>Power saving and power off\<close>

definition powersave_display :: "u32 \<Rightarrow> u32 \<Rightarrow> int \<Rightarrow> 'a bootflags_state_scheme \<Rightarrow> 'a bootflags_state_scheme" where
  "powersave_display x y selected s =
     emit (Draw (Bmp_printf (menu_font selected) x y
       (''Powersave   '' @ (if disable_powersave s = 0 then ''ON '' else ''OFF'') @ [CHR 0x0A]))) s"

definition powersave_toggle :: "'a bootflags_state_scheme \<Rightarrow> 'a bootflags_state_scheme" where
  "powersave_toggle s =
     (let s = s\<lparr>disable_powersave := c_not (disable_powersave s)\<rparr>
      in emit (Prop (Prop_request_icu_auto_poweroff (if disable_powersave s \<noteq> 0 then EM_PROHIBIT else EM_ALLOW))) s)"

definition poweroff :: "'a world_scheme \<Rightarrow> 'a world_scheme" where
  "poweroff w =
     emit (Prop (Prop_request_change PROP_TERMINATE_SHUT_REQ (bytes_of 0)))
       (emit (Draw (Bmp_printf FONT_SMALL 0 300 ''SHUTDOWN'')) w)"

text \<open>\<open>boot_menus\<close> is the address of the four entries.\<close>

definition bootflags_init :: "answers \<Rightarrow> addr \<Rightarrow> 'a bootflags_state_scheme \<Rightarrow> 'a bootflags_state_scheme option" where
  "bootflags_init orc boot_menus s =
     map_option (\<lambda>s. if disable_powersave s \<noteq> 0 then emit (Prop (Prop_request_icu_auto_poweroff EM_PROHIBIT)) s else s)
       (menu_add orc ''Boot'' boot_menus 4 s)"

subsection \<open>Copies\<close>

lemma my_memcpy_row: "my_memcpy dest src m = write_row dest (length src) ((!) src) m"
proof (induction src rule: rev_induct)
  case (snoc b src)
  have "my_memcpy dest (xs @ [b]) m = (my_memcpy dest xs m)(dest + of_nat (length xs) := b)" for xs
    by (induction xs arbitrary: dest m) (simp_all add: add.assoc)
  moreover have "write_row dest (length src) ((!) (src @ [b])) m = write_row dest (length src) ((!) src) m"
    unfolding write_row_def by (intro fold_cong) (simp_all add: nth_append)
  ultimately show ?case using snoc by (simp add: write_row_def)
qed (simp add: write_row_def)

lemma my_memcpy_block:
  assumes "off + length src \<le> 2 ^ 32" and "k < 2 ^ 32"
  shows "my_memcpy (block + of_nat off) src m (block + of_nat k) =
    (if off \<le> k \<and> k < off + length src then src ! (k - off) else m (block + of_nat k))"
proof (cases "src = []")
  case False
  then have off: "off < 2 ^ 32" using assms(1) by (cases src) simp_all
  have "block + of_nat k - (block + of_nat off) = of_nat k - (of_nat off :: u32)" by simp
  then have "unat (block + of_nat k - (block + of_nat off)) = (if off \<le> k then k - off else k + 2 ^ 32 - off)"
    using unat_diff_of_nat [OF off, of "of_nat k"] unat_of_nat_u32 [OF assms(2)] by simp
  then show ?thesis
    unfolding my_memcpy_row using assms by (auto simp: write_row_eq)
qed (auto simp: my_memcpy_row write_row_def)

subsection \<open>The boot block\<close>

text \<open>The blocks written to the card.\<close>

fun blocks_written :: "fw_event list \<Rightarrow> u8 list list" where
  "blocks_written [] = []"
| "blocks_written (Sys (Write_block b) # es) = b # blocks_written es"
| "blocks_written (e # es) = blocks_written es"

lemma blocks_written_append [simp]: "blocks_written (xs @ ys) = blocks_written xs @ blocks_written ys"
  by (induction xs rule: blocks_written.induct) auto

text \<open>A sector with the two strings in their places.\<close>

definition boot_sector :: "u8 list \<Rightarrow> u8 list" where
  "boot_sector sector = take 0x47 sector @ ascii_bytes ''EOS_DEVELOP'' @ take 10 (drop 0x52 sector)
     @ ascii_bytes ''BOOTDISK'' @ drop 0x64 sector"

lemma length_ascii_bytes [simp]: "length (ascii_bytes t) = length t"
  by (simp add: ascii_bytes_def)

lemma boot_sector_nth:
  assumes "length sector = 0x200" and "k < 0x200"
  shows "boot_sector sector ! k =
    (if 0x47 \<le> k \<and> k < 0x52 then ascii_bytes ''EOS_DEVELOP'' ! (k - 0x47)
     else if 0x5C \<le> k \<and> k < 0x64 then ascii_bytes ''BOOTDISK'' ! (k - 0x5C) else sector ! k)"
  using assms by (auto simp: boot_sector_def nth_append)

lemma boot_sector_again: "length sector = 0x200 \<Longrightarrow> boot_sector (boot_sector sector) = boot_sector sector"
  by (simp add: boot_sector_def)

lemma block_bytes:
  assumes "length sector = 0x200"
  shows "map (\<lambda>k. my_memcpy (block + 0x5C) (ascii_bytes ''BOOTDISK'')
      (my_memcpy (block + 0x47) (ascii_bytes ''EOS_DEVELOP'') (my_memcpy block sector m)) (block + of_nat k)) [0..<0x200]
    = boot_sector sector"
proof (rule nth_equalityI)
  fix k assume "k < length (map (\<lambda>k. my_memcpy (block + 0x5C) (ascii_bytes ''BOOTDISK'')
      (my_memcpy (block + 0x47) (ascii_bytes ''EOS_DEVELOP'') (my_memcpy block sector m)) (block + of_nat k)) [0..<0x200])"
  then have k: "k < 0x200" by simp
  note at = my_memcpy_block [where k = k and block = block]
  show "map (\<lambda>k. my_memcpy (block + 0x5C) (ascii_bytes ''BOOTDISK'')
      (my_memcpy (block + 0x47) (ascii_bytes ''EOS_DEVELOP'') (my_memcpy block sector m)) (block + of_nat k)) [0..<0x200] ! k
    = boot_sector sector ! k"
    using k assms at [where off = "0x5C"] at [where off = "0x47"] at [where off = 0 and src = sector]
    by (simp add: boot_sector_nth del: upt_rec_numeral)
qed (use assms in \<open>simp add: boot_sector_def del: upt_rec_numeral\<close>)

text \<open>C22: Writing the boot block writes exactly one sector, once: the one the driver delivered with
  the two magic strings in their places and every other byte kept, and returns its buffer; writing
  it again changes nothing more.  The answer of the read is not consulted.\<close>

theorem bootblock_written:
  assumes "length sector = 0x200"
  shows "blocks_written (trace (bootflag_write_bootblock orc read_block sector s)) = blocks_written (trace s) @ [boot_sector sector]
    \<and> blocks_written (trace (bootflag_write_bootblock orc' read_block (boot_sector sector) s')) =
      blocks_written (trace s') @ [boot_sector sector]
    \<and> (\<exists>es buf. trace (bootflag_write_bootblock orc read_block sector s) = trace s @ es
      \<and> set (dma_allocated orc (trace s) es) \<subseteq> {buf} \<and> dma_freed es = [buf])"
proof (intro conjI)
  have *: "blocks_written (trace (bootflag_write_bootblock orc read_block sec s)) = blocks_written (trace s) @ [boot_sector sec]"
    if "length sec = 0x200" for orc sec and s :: "'c bootflags_state_scheme"
    using block_bytes [OF that]
    by (simp add: bootflag_write_bootblock_def gui_stop_menu_def menu_area_def ask_def Let_def emits_eq emit_def del: upt_rec_numeral)
  show "blocks_written (trace (bootflag_write_bootblock orc read_block sector s)) = blocks_written (trace s) @ [boot_sector sector]"
    using assms by (rule *)
  have "length (boot_sector sector) = 0x200" using assms by (simp add: boot_sector_def)
  then show "blocks_written (trace (bootflag_write_bootblock orc' read_block (boot_sector sector) s')) =
      blocks_written (trace s') @ [boot_sector sector]"
    using * [of "boot_sector sector"] boot_sector_again [OF assms] by simp
  show "\<exists>es buf. trace (bootflag_write_bootblock orc read_block sector s) = trace s @ es
      \<and> set (dma_allocated orc (trace s) es) \<subseteq> {buf} \<and> dma_freed es = [buf]"
    by (auto simp add: bootflag_write_bootblock_def gui_stop_menu_def menu_area_def ask_def Let_def emits_eq emit_def del: upt_rec_numeral)
qed

theorem bootblock_written_witness:
  "blocks_written (trace (bootflag_write_bootblock (\<lambda>es. 0x4000) 0xFF000000 (replicate 0x200 7)
      \<lparr>trace = [], menus = 0, menu_heap = \<lambda>_. undefined, entry_heap = \<lambda>_. undefined, menu_damage = 0, menu_hidden = 0,
       menu_timeout = 0, gui_menu_task = 0, draw_event = 0, menu_timeout_time = 0,
       qscale = 0, efic_temp = 0, draw_prop = 0, debug_token = 0, debug_y = 0, timed_dump = 0, timed_start = 0, cam_mem = \<lambda>_. 0, disable_powersave = 1\<rparr>))
    = [replicate 71 7 @ ascii_bytes ''EOS_DEVELOP'' @ replicate 10 7 @ ascii_bytes ''BOOTDISK'' @ replicate 412 7]"
proof -
  have "boot_sector (replicate 0x200 7) =
      replicate 71 7 @ ascii_bytes ''EOS_DEVELOP'' @ replicate 10 7 @ ascii_bytes ''BOOTDISK'' @ replicate 412 7"
    by (simp add: boot_sector_def)
  then show ?thesis by (subst bootblock_written [THEN conjunct1]) simp_all
qed

end
