(* ===== verification/Spotmeter.thy ===== *)
theory Spotmeter
  imports Zebra Menu
begin

text \<open>
  \<open>spotmeter.c\<close>: the light meter that averages a square of pixels in the middle of the image.
  The image is memory of the camera, an argument; the two loops run on machine words, so they are
  \<open>partial_function\<close>s that need not end.
\<close>

record spotmeter_state = menu_state +
  spotmeter_size :: int
  spotmeter_draw :: int

definition spotmeter_menu_display :: "int \<Rightarrow> u32 \<Rightarrow> u32 \<Rightarrow> int \<Rightarrow> 'a world_scheme \<Rightarrow> 'a world_scheme" where
  "spotmeter_menu_display draw_ptr x y selected w =
     emit (Draw (Bmp_printf (menu_font selected) x y (''Spotmeter:  '' @ (if draw_ptr \<noteq> 0 then ''ON '' else ''OFF'')))) w"

definition spotmeter_clear_display :: "'a menu_state_scheme \<Rightarrow> 'a menu_state_scheme" where
  "spotmeter_clear_display s = emit (Draw (Bmp_fill 0x0 0 0 1080 480)) (gui_stop_menu s)"

subsection \<open>The task\<close>

text \<open>\<open>vram->vram[ x + y * pitch ]\<close>, a pixel of two bytes.\<close>

definition spot_pixel :: "memory \<Rightarrow> vram_info \<Rightarrow> u32 \<Rightarrow> u32 \<Rightarrow> u16" where
  "spot_pixel m v y x = le16 (\<lambda>k. m (vram v + 2 * (x + y * vram_pitch v) + of_nat k)) 0"

partial_function (option) sum_row :: "(u32 \<Rightarrow> u16) \<Rightarrow> u32 \<Rightarrow> u32 \<Rightarrow> u32 \<Rightarrow> u32 option" where
  "sum_row pixel x x_end sm =
     (if x \<le> x_end then sum_row pixel (x + 1) x_end (sm + ucast (pixel x)) else Some sm)"

partial_function (option) sum_rows ::
  "(u32 \<Rightarrow> u32 \<Rightarrow> u16) \<Rightarrow> u32 \<Rightarrow> u32 \<Rightarrow> u32 \<Rightarrow> u32 \<Rightarrow> u32 \<Rightarrow> u32 option" where
  "sum_rows pixel x x_end y y_end sm =
     (if y \<le> y_end
      then Option.bind (sum_row (pixel y) x x_end sm) (\<lambda>sm. sum_rows pixel x x_end (y + 1) y_end sm)
      else Some sm)"

definition spotmeter_start :: "answers \<Rightarrow> addr \<Rightarrow> 'a menu_state_scheme \<Rightarrow> 'a menu_state_scheme option" where
  "spotmeter_start orc menu s = map_option (emit (Sys (Msleep 1000))) (menu_add orc ''Video'' menu 2 s)"

text \<open>One turn of the task's loop.\<close>

definition spotmeter_step :: "memory \<Rightarrow> vram_info \<Rightarrow> 'a spotmeter_state_scheme \<Rightarrow> 'a spotmeter_state_scheme option" where
  "spotmeter_step m v s =
     (if spotmeter_draw s = 0 then Some (emit (Sys (Msleep 1000)) s)
      else
        let s = emit (Sys (Msleep 100)) s
        in if vram v = 0 then Some s
           else
             let width = vram_width v; height = vram_height v;
                 dx = word_of_int (spotmeter_size s) :: u32;
                 s = emits [Draw (Bmp_fill 0xA (width div 2 - dx) (height div 2 - dx) (2 * dx + 1) 4),
                            Draw (Bmp_fill 0xA (width div 2 - dx) (height div 2 + dx) (2 * dx + 1) 4)] s
             in map_option (\<lambda>sm.
                  let sm = sm div ((2 * dx + 1) * (2 * dx + 1));
                      scaled = (100 * sm) div 65536
                  in emit (Draw (Bmp_printf FONT_MED 300 400 (fmt_d 3 (sint scaled) @ ''%''))) s)
                (sum_rows (spot_pixel m v) (width div 2 - dx) (width div 2 + dx) (height div 2 - dx) (height div 2 + dx) 0))"

subsection \<open>The loops\<close>

declare sum_row.simps [code] sum_rows.simps [code]

lemma upt_head: "map f [0..<Suc n] = f 0 # map (\<lambda>k. f (Suc k)) [0..<n]"
  by (simp add: upt_conv_Cons del: upt_Suc flip: map_Suc_upt)

lemma sum_row_sum:
  "unat x + n < 2 ^ 32 \<Longrightarrow> unat x_end + 1 = unat x + n \<Longrightarrow>
   sum_row pixel x x_end sm = Some (sm + sum_list (map (\<lambda>k. ucast (pixel (x + of_nat k))) [0..<n]))"
proof (induction n arbitrary: x sm)
  case 0
  then have "\<not> x \<le> x_end" by (simp add: word_le_nat_alt)
  then show ?case by (subst sum_row.simps) simp
next
  case (Suc n)
  have u: "unat (x + 1) = unat x + 1" using Suc.prems by (subst unat_add_small) simp_all
  have le: "x \<le> x_end" using Suc.prems by (simp add: word_le_nat_alt)
  have "sum_row pixel (x + 1) x_end (sm + ucast (pixel x)) =
      Some (sm + ucast (pixel x) + sum_list (map (\<lambda>k. ucast (pixel (x + 1 + of_nat k))) [0..<n]))"
    using Suc.prems u by (intro Suc.IH) simp_all
  then show ?case using le
    by (subst sum_row.simps) (simp add: upt_head add.assoc del: upt_Suc)
qed

lemma sum_rows_sum:
  assumes "unat x + w < 2 ^ 32" and "unat x_end + 1 = unat x + w"
  shows "unat y + n < 2 ^ 32 \<Longrightarrow> unat y_end + 1 = unat y + n \<Longrightarrow>
   sum_rows pixel x x_end y y_end sm =
     Some (sm + sum_list (map (\<lambda>j. sum_list (map (\<lambda>k. ucast (pixel (y + of_nat j) (x + of_nat k))) [0..<w])) [0..<n]))"
proof (induction n arbitrary: y sm)
  case 0
  then have "\<not> y \<le> y_end" by (simp add: word_le_nat_alt)
  then show ?case by (subst sum_rows.simps) simp
next
  case (Suc n)
  have u: "unat (y + 1) = unat y + 1" using Suc.prems by (subst unat_add_small) simp_all
  have le: "y \<le> y_end" using Suc.prems by (simp add: word_le_nat_alt)
  let ?row = "\<lambda>y. sum_list (map (\<lambda>k. ucast (pixel y (x + of_nat k))) [0..<w]) :: u32"
  have "sum_rows pixel x x_end (y + 1) y_end (sm + ?row y) =
      Some (sm + ?row y + sum_list (map (\<lambda>j. ?row (y + 1 + of_nat j)) [0..<n]))"
    using Suc.prems u by (intro Suc.IH) simp_all
  then show ?case using le sum_row_sum [OF assms]
    by (subst sum_rows.simps) (simp add: upt_head add.assoc del: upt_Suc)
qed

text \<open>The divisor is a product of odd numbers, so it is never zero, whatever the setting.\<close>

lemma divisor_nonzero: "(2 * dx + 1) * (2 * dx + 1) \<noteq> (0 :: u32)"
proof -
  have "odd ((2 * dx + 1) * (2 * dx + 1))" by simp
  then show ?thesis by (metis dvd_0_right)
qed

subsection \<open>The reading\<close>

text \<open>The pixels of the square, and their average in exact arithmetic.\<close>

definition spot_square :: "memory \<Rightarrow> vram_info \<Rightarrow> nat \<Rightarrow> nat list" where
  "spot_square m v dx = concat (map (\<lambda>j. map (\<lambda>k. unat (spot_pixel m v
       (vram_height v div 2 - of_nat dx + of_nat j) (vram_width v div 2 - of_nat dx + of_nat k))) [0..<2 * dx + 1]) [0..<2 * dx + 1])"

lemma sum_words:
  "(\<Sum>x\<leftarrow>xs. unat (f x)) < 2 ^ 32 \<Longrightarrow> unat (\<Sum>x\<leftarrow>xs. f x :: u32) = (\<Sum>x\<leftarrow>xs. unat (f x))"
  by (induction xs) (simp_all add: unat_add_small)

lemma sum_bound: "\<forall>x \<in> set xs. f x \<le> b \<Longrightarrow> (\<Sum>x\<leftarrow>xs. f x) \<le> length xs * (b :: nat)"
  by (induction xs) auto

lemma unat_pixel: "unat (ucast (p :: u16) :: u32) = unat p" "unat (p :: u16) \<le> 65535"
proof -
  have "unat p < 2 ^ 16" using unsigned_less [of p] by simp
  then show "unat p \<le> 65535" by simp
  then show "unat (ucast p :: u32) = unat p" by (simp add: unsigned_ucast_eq take_bit_nat_eq_self)
qed

lemma sum_list_concat: "sum_list (concat xss) = (\<Sum>xs\<leftarrow>xss. sum_list xs :: nat)"
  by (induction xss) simp_all

text \<open>The two loops over the square.\<close>

lemma square_sum:
  fixes v :: vram_info and dx :: nat
  defines "x \<equiv> vram_width v div 2 - of_nat dx" and "y \<equiv> vram_height v div 2 - of_nat dx"
  assumes dx: "dx \<le> 127" "dx \<le> unat (vram_width v) div 2" "dx \<le> unat (vram_height v) div 2"
  obtains sm where "sum_rows (spot_pixel m v) x (vram_width v div 2 + of_nat dx) y (vram_height v div 2 + of_nat dx) 0 = Some sm"
    and "unat sm = sum_list (spot_square m v dx)" "sum_list (spot_square m v dx) \<le> (2 * dx + 1) * (2 * dx + 1) * 65535"
proof -
  have n: "unat (of_nat dx :: u32) = dx" using dx(1) by (intro unat_of_nat_u32) simp
  have e: "unat (c div 2 - of_nat dx) + (2 * dx + 1) < 2 ^ 32 \<and>
      unat (c div 2 + of_nat dx) + 1 = unat (c div 2 - of_nat dx) + (2 * dx + 1)" if "dx \<le> unat c div 2" for c :: u32
  proof -
    have "unat c < 2 ^ 32" using unsigned_less [of c] by simp
    moreover have "unat (c div 2) = unat c div 2" by (simp add: unat_div)
    ultimately show ?thesis
      using that dx(1) unat_diff_of_nat [of dx "c div 2"] unat_add_small [of "c div 2" "of_nat dx"] n by simp
  qed
  let ?px = "\<lambda>j k. spot_pixel m v (y + of_nat j) (x + of_nat k)" and ?is = "[0..<2 * dx + 1]"
  let ?sm = "\<Sum>j\<leftarrow>?is. \<Sum>k\<leftarrow>?is. ucast (?px j k) :: u32"
  have sq: "sum_list (spot_square m v dx) = (\<Sum>j\<leftarrow>?is. \<Sum>k\<leftarrow>?is. unat (?px j k))"
    by (simp add: spot_square_def x_def y_def sum_list_concat o_def del: upt_Suc)
  have row: "(\<Sum>k\<leftarrow>?is. unat (?px j k)) \<le> (2 * dx + 1) * 65535" for j
    using sum_bound [of ?is "\<lambda>k. unat (?px j k)" 65535] unat_pixel(2) by simp
  then have b: "sum_list (spot_square m v dx) \<le> (2 * dx + 1) * ((2 * dx + 1) * 65535)"
    unfolding sq using sum_bound [of ?is "\<lambda>j. \<Sum>k\<leftarrow>?is. unat (?px j k)" "(2 * dx + 1) * 65535"] by simp
  have "(2 * dx + 1) * 65535 \<le> 255 * 65535" using dx(1) by simp
  then have small: "(2 * dx + 1) * ((2 * dx + 1) * 65535) \<le> 255 * (255 * 65535)"
    using dx(1) by (intro mult_mono) simp_all
  have rows: "unat (\<Sum>k\<leftarrow>?is. ucast (?px j k) :: u32) = (\<Sum>k\<leftarrow>?is. unat (?px j k))" for j
  proof -
    have "(\<Sum>k\<leftarrow>?is. unat (?px j k)) < 2 ^ 32"
      using order_trans [OF row [of j] \<open>(2 * dx + 1) * 65535 \<le> 255 * 65535\<close>] by (simp del: upt_Suc)
    then show ?thesis by (subst sum_words) (simp_all only: unat_pixel(1))
  qed
  have "unat ?sm = sum_list (spot_square m v dx)"
  proof -
    have "(\<Sum>j\<leftarrow>?is. \<Sum>k\<leftarrow>?is. unat (?px j k)) < 2 ^ 32"
      using order_trans [OF b small] unfolding sq by (simp del: upt_Suc)
    with rows show ?thesis by (subst sum_words) (simp_all only: sq)
  qed
  moreover have "sum_rows (spot_pixel m v) x (vram_width v div 2 + of_nat dx) y (vram_height v div 2 + of_nat dx) 0 = Some ?sm"
    using sum_rows_sum [of x "2 * dx + 1" "vram_width v div 2 + of_nat dx" y "2 * dx + 1" "vram_height v div 2 + of_nat dx" "spot_pixel m v" 0]
      e [OF dx(2)] e [OF dx(3)] by (simp add: x_def y_def del: upt_Suc)
  ultimately show thesis using b by (intro that) (simp_all only: mult.assoc)
qed


definition sample_frame :: vram_info where
  "sample_frame = \<lparr>vram = 0x40000000, vram_width = 720, vram_pitch = 960, vram_height = 480, vram_number = 0\<rparr>"

definition sample_meter :: spotmeter_state where
  "sample_meter = \<lparr>trace = [], menus = 0, menu_heap = \<lambda>_. undefined, entry_heap = \<lambda>_. undefined, menu_damage = 0,
     menu_hidden = 0, menu_timeout = 0, gui_menu_task = 0, draw_event = 0, menu_timeout_time = 0,
     spotmeter_size = 1, spotmeter_draw = 1\<rparr>"


end
