(* ===== verification/Script.thy ===== *)
theory Script
  imports Menu Config
begin

text \<open>
  \<open>script.c\<close>: listing the files of the card and running a script.  What a directory entry holds
  is an answer of the firmware, a function of the calls so far; the Python interpreter is not
  part of the sources, its calls are events.
\<close>

text \<open>\<open>struct fio_file\<close> of \<open>dryos.h\<close>; the name ends at its NUL.\<close>

record fio_file =
  ff_mode :: u32
  ff_off_0x04 :: u32
  ff_timestamp :: u32
  ff_off_0x0c :: u32
  ff_name :: string

type_synonym directory = "fw_event list \<Rightarrow> fio_file"

definition IS_ERROR :: "addr \<Rightarrow> bool" where
  "IS_ERROR ptr \<longleftrightarrow> 1 AND ptr \<noteq> 0"

subsection \<open>Listing\<close>

definition file_line :: "fio_file \<Rightarrow> string" where
  "file_line f = fmt_0x 2 (ff_mode f) @ '' '' @ fmt_0x 8 (ff_off_0x04 f) @ '' '' @ fmt_0x 8 (ff_timestamp f)
     @ '' '' @ fmt_0x 8 (ff_off_0x0c f) @ '' '' @ [CHR 0x27] @ ff_name f @ [CHR 0x27]"

text \<open>The \<open>do\<close> loop: a directory that never ends is the result \<open>None\<close>.\<close>

partial_function (option) list_loop ::
  "answers \<Rightarrow> directory \<Rightarrow> u32 \<Rightarrow> addr \<Rightarrow> u32 \<Rightarrow> 'a world_scheme \<Rightarrow> 'a world_scheme option" where
  "list_loop orc dir height dirent y w =
     (let file = dir (trace w);
          w' = emit (Draw (Bmp_printf FONT_SMALL 0 (y + height) (file_line file))) w;
          (rc, w'') = ask orc (Fio (FIO_FindNextEx dirent)) w'
      in if rc = 0 then list_loop orc dir height dirent (y + height) w'' else Some w'')"

definition list_files :: "answers \<Rightarrow> directory \<Rightarrow> fonts \<Rightarrow> 'a world_scheme \<Rightarrow> 'a world_scheme option" where
  "list_files orc dir fs w =
     (let (dirent, w) = ask orc (Fio (FIO_FindFirstEx ''A:/'')) w
      in if IS_ERROR dirent
         then Some (emit (Draw (Bmp_printf FONT_LARGE 40 40 (''list_files: dirent='' @ fmt_0x 8 dirent @ ''!''))) w)
         else list_loop orc dir (fontspec_height fs FONT_SMALL) dirent 40
                (emit (Draw (Bmp_printf FONT_SMALL 0 40 (''Dirent: '' @ fmt_0x 8 dirent))) w))"

subsection \<open>Running a script\<close>

text \<open>\<open>sz\<close> is the length \<open>FIO_GetFileSize\<close> reports.  The buffer stays with the interpreter.\<close>

definition run_script :: "answers \<Rightarrow> u32 \<Rightarrow> 'a menu_state_scheme \<Rightarrow> 'a menu_state_scheme" where
  "run_script orc sz s =
     (let s = emit (Sys (Msleep 500)) (gui_stop_menu s);
          filename = ''A:/test.pym'';
          (rc, s) = ask orc (Fio (FIO_GetFileSize filename)) s
      in if rc \<noteq> 0 then s
         else
           let (buf, s) = ask orc (Sys (Malloc (unat sz))) s
           in if buf = 0 then s
              else
                let (rc, s) = read_file orc filename sz s
                in if rc = - 1 then emit (Sys (Free buf)) s
                   else emits [Sys (Python ''img_appendToPath'' buf),
                               Draw (Bmp_printf FONT_SMALL 0 300 ''Starting script''),
                               Sys (Python ''pm_run test'' 0)] s)"

text \<open>\<open>file_menus\<close> is the address of the two entries, \<open>usrlib_img\<close> of the library image.\<close>

definition script_init :: "answers \<Rightarrow> addr \<Rightarrow> addr \<Rightarrow> 'a menu_state_scheme \<Rightarrow> 'a menu_state_scheme option" where
  "script_init orc file_menus usrlib_img s =
     map_option (emits [Sys (Python ''pm_init'' usrlib_img), Sys (Python ''pm_run main'' 0)])
       (menu_add orc ''Script'' file_menus 2 s)"

subsection \<open>The listing ends with the directory\<close>

text \<open>The lines printed in the small font, each with its row.\<close>

fun small_lines :: "fw_event list \<Rightarrow> (u32 \<times> string) list" where
  "small_lines [] = []"
| "small_lines (Draw (Bmp_printf f x y t) # es) = (if f = FONT_SMALL then (y, t) # small_lines es else small_lines es)"
| "small_lines (e # es) = small_lines es"

lemma small_lines_append [simp]: "small_lines (xs @ ys) = small_lines xs @ small_lines ys"
  by (induction xs rule: small_lines.induct) auto

text \<open>What \<open>FIO_FindFirstEx\<close> and \<open>FIO_FindNextEx\<close> do on a directory of these files: each call
  fills in the next one, and the call after the last reports the end.\<close>

fun nexts :: "addr \<Rightarrow> fw_event list \<Rightarrow> nat" where
  "nexts dirent [] = 0"
| "nexts dirent (Fio (FIO_FindNextEx d) # es) = (if d = dirent then 1 else 0) + nexts dirent es"
| "nexts dirent (e # es) = nexts dirent es"

lemma nexts_append [simp]: "nexts dirent (xs @ ys) = nexts dirent xs + nexts dirent ys"
  by (induction xs rule: nexts.induct) auto

definition serves :: "answers \<Rightarrow> directory \<Rightarrow> addr \<Rightarrow> fio_file list \<Rightarrow> bool" where
  "serves orc dir dirent files \<longleftrightarrow>
     (\<forall>es. orc (es @ [Fio (FIO_FindNextEx dirent)]) = 0 \<longleftrightarrow> nexts dirent es + 1 < length files)
     \<and> (\<forall>es. nexts dirent es < length files \<longrightarrow> dir es = files ! nexts dirent es)"

lemma list_loop_lists:
  assumes "serves orc dir dirent files" and "nexts dirent (trace w) + length fs = length files"
    and "fs = drop (nexts dirent (trace w)) files" and "fs \<noteq> []"
  shows "\<exists>w'. list_loop orc dir height dirent y w = Some w' \<and> small_lines (trace w') =
     small_lines (trace w) @ map (\<lambda>k. (y + of_nat (Suc k) * height, file_line (fs ! k))) [0..<length fs]"
  using assms(2-)
proof (induction fs arbitrary: y w)
  case (Cons f fs)
  let ?k = "nexts dirent (trace w)"
  let ?w = "emits [Draw (Bmp_printf FONT_SMALL 0 (y + height) (file_line f)), Fio (FIO_FindNextEx dirent)] w"
  have f: "dir (trace w) = f"
    using assms(1) Cons.prems by (metis serves_def add_less_same_cancel1 hd_drop_conv_nth length_Cons less_add_same_cancel1 list.sel(1) zero_less_Suc)
  have go: "orc (trace ?w) = 0 \<longleftrightarrow> fs \<noteq> []"
    using assms(1) Cons.prems(1) unfolding serves_def
    by (cases fs) (auto dest!: spec [of _ "trace w @ [Draw (Bmp_printf FONT_SMALL 0 (y + height) (file_line f))]"])
  have run: "list_loop orc dir height dirent y w = (if fs \<noteq> [] then list_loop orc dir height dirent (y + height) ?w else Some ?w)"
    using go by (subst list_loop.simps) (simp add: Let_def ask_def f)
  have rows: "map (\<lambda>k. (y + of_nat (Suc k) * height, file_line ((f # fs) ! k))) [0..<length (f # fs)] =
      (y + height, file_line f) # map (\<lambda>k. (y + height + of_nat (Suc k) * height, file_line (fs ! k))) [0..<length fs]"
    by (simp add: upt_conv_Cons o_def algebra_simps del: upt_Suc flip: map_Suc_upt)
  show ?case
  proof (cases "fs = []")
    case True
    then show ?thesis using run rows by simp
  next
    case False
    have "fs = drop (nexts dirent (trace ?w)) files"
      using Cons.prems(2) by (simp add: drop_Suc [symmetric]) (metis drop_Suc list.sel(3) tl_drop)
    then obtain w' where "list_loop orc dir height dirent (y + height) ?w = Some w'"
      "small_lines (trace w') = small_lines (trace ?w)
         @ map (\<lambda>k. (y + height + of_nat (Suc k) * height, file_line (fs ! k))) [0..<length fs]"
      using Cons.IH [of ?w "y + height"] Cons.prems(1) False by auto
    then show ?thesis using run rows False by simp
  qed
qed simp

text \<open>C24: Listing the card returns, and prints each file of the directory exactly once, in order, one
  line of the small font below the other.\<close>

theorem list_files_lists:
  assumes "dirent = orc (trace w @ [Fio (FIO_FindFirstEx ''A:/'')])" and "\<not> IS_ERROR dirent"
    and "serves orc dir dirent files" and "files \<noteq> []" and "nexts dirent (trace w) = 0"
  shows "\<exists>w'. list_files orc dir fs w = Some w' \<and> small_lines (trace w') =
     small_lines (trace w) @ [(40, ''Dirent: '' @ fmt_0x 8 dirent)]
     @ map (\<lambda>k. (40 + of_nat (Suc k) * fontspec_height fs FONT_SMALL, file_line (files ! k))) [0..<length files]"
proof -
  let ?w = "emits [Fio (FIO_FindFirstEx ''A:/''), Draw (Bmp_printf FONT_SMALL 0 40 (''Dirent: '' @ fmt_0x 8 dirent))] w"
  have "\<exists>w'. list_loop orc dir (fontspec_height fs FONT_SMALL) dirent 40 ?w = Some w' \<and> small_lines (trace w') = small_lines (trace ?w)
     @ map (\<lambda>k. (40 + of_nat (Suc k) * fontspec_height fs FONT_SMALL, file_line (files ! k))) [0..<length files]"
    using assms(4,5) by (intro list_loop_lists [OF assms(3)]) simp_all
  moreover have "list_files orc dir fs w = list_loop orc dir (fontspec_height fs FONT_SMALL) dirent 40 ?w"
    using assms(1,2) by (simp add: list_files_def ask_def)
  ultimately show ?thesis by simp
qed

definition sample_files :: "fio_file list" where
  "sample_files = [\<lparr>ff_mode = 0x10, ff_off_0x04 = 0, ff_timestamp = 1, ff_off_0x0c = 2, ff_name = ''DCIM''\<rparr>,
     \<lparr>ff_mode = 0x22, ff_off_0x04 = 0, ff_timestamp = 3, ff_off_0x0c = 4, ff_name = ''AUTOEXEC.BIN''\<rparr>]"

theorem list_files_lists_witness:
  "\<exists>w'. list_files (\<lambda>es. case last es of Fio (FIO_FindNextEx d) \<Rightarrow> if nexts 0x1000 es < 2 then 0 else 1 | _ \<Rightarrow> 0x1000)
      (\<lambda>es. sample_files ! nexts 0x1000 es) sample_fonts idle_world = Some w'
    \<and> map snd (small_lines (trace w')) = (''Dirent: '' @ fmt_0x 8 0x1000) # map file_line sample_files"
proof -
  let ?orc = "(\<lambda>es. case last es of Fio (FIO_FindNextEx d) \<Rightarrow> if nexts 0x1000 es < 2 then 0 else 1 | _ \<Rightarrow> 0x1000) :: answers"
  have "serves ?orc (\<lambda>es. sample_files ! nexts 0x1000 es) 0x1000 sample_files"
    by (simp add: serves_def sample_files_def)
  then show ?thesis
    using list_files_lists [where dirent = "0x1000" and orc = ?orc and w = idle_world and dir = "\<lambda>es. sample_files ! nexts 0x1000 es" and files = sample_files and fs = sample_fonts]
    by (auto simp: idle_world_def IS_ERROR_def sample_files_def)
qed

subsection \<open>The script's buffer\<close>

text \<open>The buffers given to the interpreter, and the scripts started.\<close>

fun on_path :: "fw_event list \<Rightarrow> addr list" where
  "on_path [] = []"
| "on_path (Sys (Python f a) # es) = (if f = ''img_appendToPath'' then [a] else []) @ on_path es"
| "on_path (e # es) = on_path es"

fun scripts_run :: "fw_event list \<Rightarrow> string list" where
  "scripts_run [] = []"
| "scripts_run (Sys (Python f a) # es) = (if take 6 f = ''pm_run'' then [drop 7 f] else []) @ scripts_run es"
| "scripts_run (e # es) = scripts_run es"


end
