(* ===== verification/Liveview.thy ===== *)
theory Liveview
  imports Boot
begin

text \<open>
  \<open>liveview.c\<close>: replacing the live-view dialog's handler by a relocated and patched copy of it.
  The addresses of the firmware and of the buffer, and the dialogs in the camera's memory, are
  what the code reads; a call to a firmware function by its address is an event.
\<close>

definition DlgLiveViewApp :: addr where "DlgLiveViewApp = 0xffa96b1c"
definition reloc_end :: addr where "reloc_end = 0xFFA97FF8"
definition reloc_len :: u32 where "reloc_len = reloc_end - DlgLiveViewApp"

text \<open>Offsets in \<open>struct gui_task\<close>, \<open>struct gui_task_list\<close> and \<open>struct dialog\<close>.\<close>

definition task_handler :: addr where "task_handler = 0x00"
definition task_priv :: addr where "task_priv = 0x04"
definition list_current :: addr where "list_current = 0x08"
definition dialog_handler_field :: addr where "dialog_handler_field = 0x60"

lemmas field_defs = task_handler_def task_priv_def list_current_def dialog_handler_field_def

definition change_hdmi_size :: "answers \<Rightarrow> 'a world_scheme \<Rightarrow> 'a world_scheme" where
  "change_hdmi_size orc w =
     (let (t, w) = ask orc (Sys (Call_function ''GUI_GetDisplayType'')) w
      in emits [Draw (Bmp_printf FONT_SMALL 0 40 (''change_hdmi_size: gui type '' @ fmt_d 0 (sint t) @ ''!'')),
                Draw (Bmp_hexdump FONT_SMALL 0 52 0x37080 0x20)] w)"

definition reloc_branch :: "addr \<Rightarrow> addr \<Rightarrow> memory \<Rightarrow> memory" where
  "reloc_branch pc dest m = store_word pc (BL_INSTR pc dest) m"

subsection \<open>The task\<close>

text \<open>The copy with its four calls taken out, and its entry point.\<close>

definition nop_at :: "addr \<Rightarrow> u32 \<Rightarrow> addr \<Rightarrow> memory \<Rightarrow> memory" where
  "nop_at reloc_buf offset a m = store_word (reloc_buf + (a + offset)) NOP_INSTR m"

definition patched_copy :: "addr \<Rightarrow> memory \<Rightarrow> (addr \<times> memory) option" where
  "patched_copy reloc_buf m =
     map_option (\<lambda>(new_DlgLiveViewApp, m).
       let offset = (new_DlgLiveViewApp - reloc_buf) - DlgLiveViewApp;
           m = nop_at reloc_buf offset 0xFFA97FAC m;
           m = nop_at reloc_buf offset 0xFFA97F28 m;
           m = nop_at reloc_buf offset 0xFFA97D5C m;
           m = nop_at reloc_buf offset 0xFFA97D60 m
       in (new_DlgLiveViewApp, m))
     (reloc 0 0 DlgLiveViewApp reloc_end reloc_buf m)"

text \<open>One turn of the search for the dialog; \<open>dialog_handler\<close> is the address of the firmware's
  handler of dialogs.\<close>

definition search_dialog :: "addr \<Rightarrow> addr \<Rightarrow> addr \<Rightarrow> 'a display_scheme \<Rightarrow> 'a display_scheme" where
  "search_dialog dialog_handler gui_task_list new_DlgLiveViewApp s =
     (let s = emit (Sys (Msleep 1000)) s;
          current = load_word (mem s) (gui_task_list + list_current);
          s = emit (Draw (Bmp_printf FONT_SMALL 400 162 (''current '' @ fmt_0x 8 current))) s
      in if current = 0 then s
         else
           let handler = load_word (mem s) (current + task_handler);
               priv = load_word (mem s) (current + task_priv);
               s = emit (Draw (Bmp_printf FONT_SMALL 400 174
                     (''handler '' @ fmt_0x 8 handler @ [CHR 0x0A] @ ''priv '' @ fmt_0x 8 priv))) s
           in if handler \<noteq> dialog_handler then s
              else
                let dialog = priv; dhandler = load_word (mem s) (dialog + dialog_handler_field);
                    s = emit (Draw (Bmp_printf FONT_SMALL 400 186 (''dialog '' @ fmt_0x 8 dhandler))) s
                in if dhandler = DlgLiveViewApp
                   then emits [Draw (Bmp_printf FONT_SMALL 400 198 (''new '' @ fmt_0x 8 new_DlgLiveViewApp)),
                               Draw (Bmp_hexdump FONT_SMALL 0 300 new_DlgLiveViewApp 128)]
                          (s\<lparr>mem := store_word (dialog + dialog_handler_field) new_DlgLiveViewApp (mem s)\<rparr>)
                   else s)"

text \<open>The task up to its loop: the new handler, or \<open>0\<close> when the task returns at once.\<close>

definition reloc_dlgliveviewapp :: "int \<Rightarrow> addr \<Rightarrow> 'a display_scheme \<Rightarrow> (addr \<times> 'a display_scheme) option" where
  "reloc_dlgliveviewapp reloc_enabled reloc_buf s =
     (if reloc_enabled = 0 then Some (0, s)
      else map_option (\<lambda>(new, m). (new, emit (Sys (Msleep 4000)) (s\<lparr>mem := m\<rparr>))) (patched_copy reloc_buf (mem s)))"

subsection \<open>The patched copy\<close>

text \<open>The instructions of the function, and those that are taken out.\<close>

definition live_instrs :: nat where "live_instrs = 1336"
definition taken_out :: "nat set" where "taken_out = {1168, 1169, 1283, 1316}"

lemma live_function:
  "reloc_end = DlgLiveViewApp + of_nat (4 * (live_instrs - 1))" "unat DlgLiveViewApp + 4 * live_instrs < 2 ^ 32"
  "unat reloc_len + 4 = 4 * live_instrs"
  by (simp_all add: reloc_end_def reloc_len_def DlgLiveViewApp_def live_instrs_def)

text \<open>What is left of a finished copy when the instructions in \<open>S\<close> have been overwritten.\<close>

definition copied_except :: "addr \<Rightarrow> addr \<Rightarrow> addr \<Rightarrow> addr \<Rightarrow> nat \<Rightarrow> memory \<Rightarrow> nat set \<Rightarrow> memory \<Rightarrow> bool" where
  "copied_except base lo hi d n m0 S m \<longleftrightarrow>
     (\<forall>a. apart d (16 + 4 * n) a \<longrightarrow> load_word m a = load_word m0 a)
     \<and> (\<forall>i < n. i \<notin> S \<longrightarrow> relocated base lo hi m0 m (lo + of_nat (4 * i)) (d + of_nat (16 + 4 * i)))
     \<and> (\<forall>i < n. i \<notin> S \<longrightarrow> lit base lo hi m0 i \<longrightarrow> (\<exists>j < 4.
          load_dest (d + of_nat (16 + 4 * i)) (load_word m (d + of_nat (16 + 4 * i))) = d + of_nat (4 * j)))"

lemma copied_all:
  assumes "copied base lo hi d n m0 n m fixups" and "relocatable base lo hi d n m0"
  shows "copied_except base lo hi d n m0 {} m"
proof -
  have "card {i. i < n \<and> lit base lo hi m0 i} \<le> 4" using assms(2) by (simp add: relocatable_def)
  then show ?thesis using assms(1) unfolding copied_def copied_except_def by (meson order_less_le_trans)
qed

lemma copied_except_patch:
  assumes c: "copied_except base lo hi d n m0 S m" and n: "n \<le> 2 ^ 20" and k: "k < n"
  shows "copied_except base lo hi d n m0 (insert k S) (store_word (d + of_nat (16 + 4 * k)) v m)"
proof -
  let ?m = "store_word (d + of_nat (16 + 4 * k)) v m"
  have frame: "load_word ?m a = load_word m0 a" if "apart d (16 + 4 * n) a" for a
    using c that k by (subst load_store_apart [where l = "16 + 4 * n"]) (auto simp: copied_except_def)
  have code: "load_word ?m (d + of_nat (16 + 4 * i)) = load_word m (d + of_nat (16 + 4 * i))" if "i < n" "i \<noteq> k" for i
    using that k n by (subst load_store_at) auto
  have literals: "load_word ?m (d + of_nat (4 * j)) = load_word m (d + of_nat (4 * j))" if "j < 4" for j
    using that k n by (subst load_store_at) auto
  have "relocated base lo hi m0 ?m (lo + of_nat (4 * i)) (d + of_nat (16 + 4 * i))" if i: "i < n" "i \<notin> insert k S" for i
  proof -
    have r: "relocated base lo hi m0 m (lo + of_nat (4 * i)) (d + of_nat (16 + 4 * i))" using c i by (simp add: copied_except_def)
    have ci: "load_word ?m (d + of_nat (16 + 4 * i)) = load_word m (d + of_nat (16 + 4 * i))" using i code by simp
    show ?thesis
    proof (cases "lit base lo hi m0 i")
      case True
      then obtain j where "j < 4" and
        "load_dest (d + of_nat (16 + 4 * i)) (load_word m (d + of_nat (16 + 4 * i))) = d + of_nat (4 * j)"
        using c i unfolding copied_except_def by blast
      then have e: "load_word ?m (load_dest (d + of_nat (16 + 4 * i)) (load_word m (d + of_nat (16 + 4 * i))))
        = load_word m (load_dest (d + of_nat (16 + 4 * i)) (load_word m (d + of_nat (16 + 4 * i))))"
        using literals by simp
      show ?thesis using r unfolding relocated_def Let_def ci by (simp only: e)
    next
      case False
      then show ?thesis using r unfolding relocated_def Let_def ci lit_def by (simp only: if_False)
    qed
  qed
  then show ?thesis using c frame code unfolding copied_except_def by simp
qed

lemma nop_at_index:
  "nop_at buf (16 - DlgLiveViewApp) 0xFFA97FAC m = store_word (buf + of_nat (16 + 4 * 1316)) NOP_INSTR m"
  "nop_at buf (16 - DlgLiveViewApp) 0xFFA97F28 m = store_word (buf + of_nat (16 + 4 * 1283)) NOP_INSTR m"
  "nop_at buf (16 - DlgLiveViewApp) 0xFFA97D5C m = store_word (buf + of_nat (16 + 4 * 1168)) NOP_INSTR m"
  "nop_at buf (16 - DlgLiveViewApp) 0xFFA97D60 m = store_word (buf + of_nat (16 + 4 * 1169)) NOP_INSTR m"
  by (simp_all add: nop_at_def DlgLiveViewApp_def)

text \<open>C11: When the live-view handler can be relocated, the task's copy has no-operations at the four
  chosen instructions and is faithful at every other one (branches and literals reach what the
  original reaches); but the copy has one word more than the buffer, and that word, just behind
  the buffer, is overwritten.\<close>

theorem live_copy_patched:
  assumes "relocatable 0 DlgLiveViewApp reloc_end buf live_instrs m"
  shows "\<exists>m'. patched_copy buf m = Some (buf + 16, m')
    \<and> (\<forall>k < live_instrs. if k \<in> taken_out then load_word m' (buf + of_nat (16 + 4 * k)) = NOP_INSTR
         else relocated 0 DlgLiveViewApp reloc_end m m' (DlgLiveViewApp + of_nat (4 * k)) (buf + of_nat (16 + 4 * k)))
    \<and> (\<forall>a. apart buf (16 + 4 * live_instrs) a \<longrightarrow> load_word m' a = load_word m a)
    \<and> buf + of_nat (16 + 4 * (live_instrs - 1)) = buf + (reloc_len + 16)"
proof -
  have n: "live_instrs \<le> 2 ^ 20" "0 < live_instrs" by (simp_all add: live_instrs_def)
  have "copied 0 DlgLiveViewApp reloc_end buf live_instrs m 0 m buf" by (simp add: copied_def)
  from reloc_loop_copies [OF assms live_function(1) n(2) live_function(2) this]
  obtain m1 f where loop: "reloc_loop 0 DlgLiveViewApp reloc_end DlgLiveViewApp (buf + 16) (m, buf) = Some (m1, f)"
    and c: "copied 0 DlgLiveViewApp reloc_end buf live_instrs m live_instrs m1 f"
    by auto
  let ?p = "\<lambda>k. store_word (buf + of_nat (16 + 4 * k)) NOP_INSTR"
  let ?m = "?p 1169 (?p 1168 (?p 1283 (?p 1316 m1)))"
  have "reloc 0 0 DlgLiveViewApp reloc_end buf m = Some (buf + 16, m1)" using loop by (simp add: reloc_def)
  moreover have "buf + 16 - buf - DlgLiveViewApp = 16 - DlgLiveViewApp" by simp
  ultimately have run: "patched_copy buf m = Some (buf + 16, ?m)"
    unfolding patched_copy_def Let_def by (simp only: option.map prod.case nop_at_index)
  have "copied_except 0 DlgLiveViewApp reloc_end buf live_instrs m {1169, 1168, 1283, 1316} ?m"
    by (intro copied_except_patch copied_all [OF c assms] n(1)) (simp_all add: live_instrs_def)
  then have ce: "copied_except 0 DlgLiveViewApp reloc_end buf live_instrs m taken_out ?m"
    by (simp add: taken_out_def insert_commute)
  have nop: "load_word ?m (buf + of_nat (16 + 4 * k)) = NOP_INSTR" if "k \<in> taken_out" for k
    using that unfolding taken_out_def by (auto simp only: insert_iff empty_iff) (simp_all add: load_store_at del: of_nat_numeral of_nat_add of_nat_mult)
  have "buf + of_nat (16 + 4 * (live_instrs - 1)) = buf + (reloc_len + 16)"
    by (simp add: live_instrs_def reloc_len_def reloc_end_def DlgLiveViewApp_def)
  with run nop ce show ?thesis unfolding copied_except_def by auto
qed

lemma zero_relocatable: "relocatable 0 DlgLiveViewApp reloc_end 0x100000 live_instrs (\<lambda>a. 0)"
proof -
  have w: "load_word (\<lambda>a. 0) a = 0" for a by (simp add: load_word_def)
  have nl: "\<not> lit 0 DlgLiveViewApp reloc_end (\<lambda>a. 0) k" for k
    by (simp add: lit_def literal_def w is_pc_load_def instr_defs)
  have "apart 0x100000 (16 + 4 * live_instrs) (0 + (DlgLiveViewApp + of_nat (4 * k)))" if "k < live_instrs" for k
  proof -
    have "unat (of_nat (4 * k) :: u32) = 4 * k" using that by (intro unat_of_nat_u32) (simp add: live_instrs_def)
    moreover have "unat (0xff996b1c :: u32) = 0xff996b1c" by simp
    ultimately have "unat (0xff996b1c + of_nat (4 * k) :: u32) = 0xff996b1c + 4 * k"
      using that by (subst unat_add_small) (simp_all add: live_instrs_def)
    moreover have "0 + (DlgLiveViewApp + of_nat (4 * k)) - 0x100000 = 0xff996b1c + of_nat (4 * k)"
      by (simp add: DlgLiveViewApp_def)
    ultimately show ?thesis using that unfolding apart_def live_instrs_def by (simp only:) simp
  qed
  moreover have "4 dvd unat (0x100000 - DlgLiveViewApp)" by (simp add: DlgLiveViewApp_def)
  moreover have "live_instrs \<le> 2 ^ 20" by (simp add: live_instrs_def)
  ultimately show ?thesis
    unfolding relocatable_def using nl by (intro conjI) simp_all
qed

theorem live_copy_patched_witness:
  "\<exists>m'. patched_copy 0x100000 (\<lambda>a. 0) = Some (0x100010, m') \<and> load_word m' (0x100000 + of_nat (16 + 4 * 1168)) = NOP_INSTR"
  using live_copy_patched [OF zero_relocatable]
  by (elim exE conjE) (rule exI, rule conjI, simp, drule spec [of _ 1168], simp add: live_instrs_def taken_out_def)

subsection \<open>The dialog\<close>

text \<open>The handler of the dialog on top, where the search looks for it.\<close>

definition top_task :: "memory \<Rightarrow> addr \<Rightarrow> addr" where
  "top_task m gui_task_list = load_word m (gui_task_list + list_current)"

definition top_handler :: "memory \<Rightarrow> addr \<Rightarrow> addr" where
  "top_handler m gui_task_list = load_word m (top_task m gui_task_list + task_priv) + dialog_handler_field"

lemma search_dialog_mem:
  "mem (search_dialog h l new s) =
     (if top_task (mem s) l \<noteq> 0 \<and> load_word (mem s) (top_task (mem s) l + task_handler) = h
         \<and> load_word (mem s) (top_handler (mem s) l) = DlgLiveViewApp
      then store_word (top_handler (mem s) l) new (mem s) else mem s)"
  by (simp add: search_dialog_def top_task_def top_handler_def Let_def emit_def emits_eq)

text \<open>The search replaces the handler of a live-view dialog on top of the stack at its first turn, and
  no later turn changes the memory again, provided the dialog's handler word is not one of the
  words that lead to it.\<close>

theorem live_dialog_replaced:
  fixes s :: "'a display_scheme"
  assumes hw: "hw = top_handler (mem s) l" and task: "task = top_task (mem s) l" and "task \<noteq> 0" and "load_word (mem s) (task + task_handler) = h" and "load_word (mem s) hw = DlgLiveViewApp"
    and "new \<noteq> DlgLiveViewApp"
    and "apart hw 4 (l + list_current)" and "apart hw 4 (task + task_priv)"
  shows "load_word (mem ((search_dialog h l new ^^ Suc n) s)) hw = new
    \<and> mem ((search_dialog h l new ^^ Suc n) s) = store_word hw new (mem s)"
proof -
  let ?m = "store_word hw new (mem s)"
  have keep: "load_word ?m a = load_word (mem s) a" if "apart hw 4 a" for a
    using load_store_apart [OF that, of 0] by simp
  have t: "top_task ?m l = task" unfolding top_task_def using keep [OF assms(7)] by (simp add: task top_task_def)
  have "top_handler ?m l = hw" unfolding top_handler_def t using keep [OF assms(8)] by (simp add: hw top_handler_def task)
  then have stop: "mem (search_dialog h l new s') = ?m" if "mem s' = ?m" for s' :: "'a display_scheme"
    unfolding search_dialog_mem that using assms(6) by (simp add: load_store_same)
  have "mem ((search_dialog h l new ^^ Suc n) s) = ?m"
  proof (induction n)
    case 0
    show ?case using assms(3-5) by (simp add: search_dialog_mem hw task)
  next
    case (Suc n)
    then show ?case using stop by simp
  qed
  then show ?thesis by (simp add: load_store_same)
qed

definition live_dialog :: display where
  "live_dialog = \<lparr>trace = [], mem = store_word 0x3060 DlgLiveViewApp (store_word 0x2004 0x3000 (store_word 0x2000 0xFFA00000
     (store_word 0x1008 0x2000 (\<lambda>a. 0)))), bmp_vram = 0\<rparr>"

theorem live_dialog_replaced_witness:
  "load_word (mem ((search_dialog 0xFFA00000 0x1000 0x100010 ^^ Suc 1) live_dialog)) 0x3060 = 0x100010"
proof -
  have w: "load_word (mem live_dialog) 0x1008 = 0x2000" "load_word (mem live_dialog) 0x2000 = 0xFFA00000"
    "load_word (mem live_dialog) 0x2004 = 0x3000" "load_word (mem live_dialog) 0x3060 = DlgLiveViewApp"
    by (simp_all add: live_dialog_def load_word_def store_word_def byte_of_def DlgLiveViewApp_def)
  have t: "top_task (mem live_dialog) 0x1000 = 0x2000" "top_handler (mem live_dialog) 0x1000 = 0x3060"
    by (simp_all add: top_task_def top_handler_def field_defs w)
  show ?thesis
    using live_dialog_replaced [of "0x3060" live_dialog "0x1000" "0x2000" "0xFFA00000" "0x100010" 1] t w
    by (simp add: field_defs apart_def DlgLiveViewApp_def load_store_same del: funpow.simps)
qed

end
