(* ===== verification/Dumper.thy ===== *)
theory Dumper
  imports Prelude
begin

text \<open>
  \<open>dumper.c\<close>: the program that copies the two ROMs of the camera to its card.  It runs in the
  flasher and not in the firmware, so its calls have a trace of their own; \<open>orc\<close> is what the
  flasher's functions and the coprocessor answer.  Numbers in the log file are the lines of the
  source that were reached.
\<close>

definition ROM0_ADDRESS :: addr where "ROM0_ADDRESS = 0xF8000000"
definition ROM0_SIZE :: u32 where "ROM0_SIZE = 0x7FFFF0"
definition ROM1_ADDRESS :: addr where "ROM1_ADDRESS = 0xF0000000"
definition ROM1_SIZE :: u32 where "ROM1_SIZE = 0x800000"

definition O_WRONLY :: u32 where "O_WRONLY = 0x001"
definition O_CREAT :: u32 where "O_CREAT = 0x200"
definition INVALID_HANDLE :: addr where "INVALID_HANDLE = 0xFFFFFFFF"

datatype flasher_call =
  Fl_open string u32 u32
| Fl_creat string u32
| Fl_write addr addr u32
| Fl_write_word addr u32
| Fl_close addr
| Fl_shutdown
| Fl_abort_firmup1
| Fl_abort_firmup2
| Fl_reboot_icu u32 addr u32
| Fl_mrc nat nat nat

type_synonym flasher = "flasher_call list \<Rightarrow> u32"

definition fl_ask :: "flasher \<Rightarrow> flasher_call \<Rightarrow> flasher_call list \<Rightarrow> u32 \<times> flasher_call list" where
  "fl_ask orc c tr = (orc (tr @ [c]), tr @ [c])"

text \<open>\<open>LOG()\<close> at a line of the source.\<close>

definition LOG :: "addr \<Rightarrow> u32 \<Rightarrow> flasher_call list \<Rightarrow> flasher_call list" where
  "LOG logfile line tr = (if logfile \<noteq> INVALID_HANDLE then tr @ [Fl_write_word logfile line] else tr)"

definition writelog_mrc :: "flasher \<Rightarrow> addr \<Rightarrow> nat \<times> nat \<times> nat \<Rightarrow> flasher_call list \<Rightarrow> flasher_call list" where
  "writelog_mrc orc logfile r tr =
     (let (cn, cm, arg) = r; (value, tr) = fl_ask orc (Fl_mrc cn cm arg) tr
      in tr @ [Fl_write_word logfile value])"

definition open_log :: "flasher \<Rightarrow> flasher_call list \<Rightarrow> addr \<times> flasher_call list" where
  "open_log orc tr =
     (let (logfile, tr) = fl_ask orc (Fl_open ''A:/ROM0.log'' (O_WRONLY OR O_CREAT) 438) tr;
          (logfile, tr) = (if logfile = INVALID_HANDLE then fl_ask orc (Fl_creat ''A:/ROM0.log'' O_WRONLY) tr else (logfile, tr))
      in (logfile, if logfile = INVALID_HANDLE then tr @ [Fl_shutdown] else tr))"

text \<open>Opening a ROM file: \<open>creat\<close> when \<open>open\<close> fails, \<open>shutdown\<close> when both do; the lines are those of
  the two logs.\<close>

definition open_rom :: "flasher \<Rightarrow> addr \<Rightarrow> string \<Rightarrow> u32 \<Rightarrow> u32 \<Rightarrow> flasher_call list \<Rightarrow> addr \<times> flasher_call list" where
  "open_rom orc logfile fname line1 line2 tr =
     (let (f, tr) = fl_ask orc (Fl_open fname (O_CREAT OR O_WRONLY) 420) tr;
          (f, tr) = (if f = INVALID_HANDLE then fl_ask orc (Fl_creat fname O_WRONLY) (LOG logfile line1 tr) else (f, tr));
          tr = (if f = INVALID_HANDLE then LOG logfile line2 tr @ [Fl_shutdown] else tr)
      in (f, tr))"

definition log_registers :: "(nat \<times> nat \<times> nat) list" where
  "log_registers =
     [(1, 0, 0), (2, 0, 0), (2, 0, 1), (3, 0, 0), (3, 0, 1), (5, 0, 2), (5, 0, 3),
      (6, 0, 0), (6, 1, 0), (6, 2, 0), (6, 3, 0), (6, 4, 0), (6, 5, 0), (6, 6, 0), (6, 7, 0),
      (9, 0, 0), (9, 0, 1), (9, 1, 0), (9, 2, 1)]"

text \<open>The program; on another camera it loops forever, the result \<open>None\<close>.\<close>

definition dumper_main :: "flasher \<Rightarrow> u32 \<Rightarrow> flasher_call list option" where
  "dumper_main orc model_id =
     (if model_id \<noteq> 0x80000218 then None
      else
        let (logfile, tr) = open_log orc [];
            tr = tr @ [Fl_write_word logfile model_id];
            (f, tr) = open_rom orc logfile ''A:/ROM0.bin'' 127 132 tr;
            tr = tr @ [Fl_write f ROM0_ADDRESS ROM0_SIZE, Fl_close f];
            tr = (if ROM1_SIZE = 0 then LOG logfile 141 tr @ [Fl_shutdown] else tr);
            (f, tr) = open_rom orc logfile ''A:/ROM1.bin'' 150 155 tr;
            tr = LOG logfile 159 tr @ [Fl_write f ROM1_ADDRESS ROM1_SIZE, Fl_close f];
            tr = writelog_mrc orc logfile (0, 0, 0) tr;
            tr = fold (writelog_mrc orc logfile) log_registers (LOG logfile 210 tr);
            tr = LOG logfile 236 tr @ [Fl_abort_firmup1];
            tr = LOG logfile 238 tr @ [Fl_abort_firmup2];
            tr = LOG logfile 240 tr @ [Fl_reboot_icu 0x80010003 0 4];
            tr = LOG logfile 245 (LOG logfile 243 tr)
        in Some (tr @ [Fl_close logfile]))"

subsection \<open>What is on the card\<close>

text \<open>The calls that do not only log.\<close>

fun logs :: "flasher_call \<Rightarrow> bool" where
  "logs (Fl_write_word f v) \<longleftrightarrow> True"
| "logs (Fl_mrc cn cm arg) \<longleftrightarrow> True"
| "logs c \<longleftrightarrow> False"

definition core :: "flasher_call list \<Rightarrow> flasher_call list" where
  "core tr = filter (\<lambda>c. \<not> logs c) tr"

lemma core_append [simp]: "core (xs @ ys) = core xs @ core ys"
  by (simp add: core_def)

lemma core_Cons [simp]: "core [] = []" "core (c # cs) = (if logs c then core cs else c # core cs)"
  by (simp_all add: core_def)

lemma core_LOG [simp]: "core (LOG logfile line tr) = core tr"
  by (simp add: LOG_def)

lemma core_writelog [simp]: "core (writelog_mrc orc logfile r tr) = core tr"
  by (simp add: writelog_mrc_def fl_ask_def split: prod.split)

lemma core_registers [simp]: "core (fold (writelog_mrc orc logfile) rs tr) = core tr"
  by (induction rs arbitrary: tr) simp_all

lemma core_open_rom:
  assumes "open_rom orc logfile fname line1 line2 tr = (f, tr')"
  shows "\<exists>es. core tr' = core tr @ Fl_open fname (O_CREAT OR O_WRONLY) 420 # es
    \<and> set es \<subseteq> {Fl_creat fname O_WRONLY, Fl_shutdown} \<and> (Fl_shutdown \<in> set es \<longleftrightarrow> f = INVALID_HANDLE)"
  using assms by (auto simp: open_rom_def fl_ask_def Let_def LOG_def split: if_splits)

lemma core_open_log:
  assumes "open_log orc [] = (f, tr)"
  shows "\<exists>es. core tr = Fl_open ''A:/ROM0.log'' (O_WRONLY OR O_CREAT) 438 # es
    \<and> set es \<subseteq> {Fl_creat ''A:/ROM0.log'' O_WRONLY, Fl_shutdown} \<and> (Fl_shutdown \<in> set es \<longleftrightarrow> f = INVALID_HANDLE)"
  using assms by (auto simp: open_log_def fl_ask_def Let_def split: if_splits)

text \<open>C26: On a camera of the right model the dumper returns after exactly these calls that are not for
  its log: it opens each ROM's file, writes exactly that ROM to it and closes it, then restarts the
  camera; a file's handle is invalid only after the camera was told to shut down.  On another
  model it never returns.\<close>

theorem dumper_roms:
  "case dumper_main orc model_id of None \<Rightarrow> model_id \<noteq> 0x80000218
   | Some tr \<Rightarrow> model_id = 0x80000218 \<and> (\<exists>lf f0 f1 esl es0 es1.
     core tr = [Fl_open ''A:/ROM0.log'' (O_WRONLY OR O_CREAT) 438] @ esl
         @ [Fl_open ''A:/ROM0.bin'' (O_CREAT OR O_WRONLY) 420] @ es0 @ [Fl_write f0 ROM0_ADDRESS ROM0_SIZE, Fl_close f0]
         @ [Fl_open ''A:/ROM1.bin'' (O_CREAT OR O_WRONLY) 420] @ es1 @ [Fl_write f1 ROM1_ADDRESS ROM1_SIZE, Fl_close f1]
         @ [Fl_abort_firmup1, Fl_abort_firmup2, Fl_reboot_icu 0x80010003 0 4, Fl_close lf]
     \<and> set esl \<subseteq> {Fl_creat ''A:/ROM0.log'' O_WRONLY, Fl_shutdown} \<and> (Fl_shutdown \<in> set esl \<longleftrightarrow> lf = INVALID_HANDLE)
     \<and> set es0 \<subseteq> {Fl_creat ''A:/ROM0.bin'' O_WRONLY, Fl_shutdown} \<and> (Fl_shutdown \<in> set es0 \<longleftrightarrow> f0 = INVALID_HANDLE)
     \<and> set es1 \<subseteq> {Fl_creat ''A:/ROM1.bin'' O_WRONLY, Fl_shutdown} \<and> (Fl_shutdown \<in> set es1 \<longleftrightarrow> f1 = INVALID_HANDLE))"
proof (cases "model_id = 0x80000218")
  case True
  obtain lf trl where l: "open_log orc [] = (lf, trl)" by (rule prod.exhaust)
  let ?trl = "trl @ [Fl_write_word lf 0x80000218]"
  obtain f0 tr0 where r0: "open_rom orc lf ''A:/ROM0.bin'' 127 132 ?trl = (f0, tr0)" by (rule prod.exhaust)
  let ?tr0 = "tr0 @ [Fl_write f0 ROM0_ADDRESS ROM0_SIZE, Fl_close f0]"
  obtain f1 tr1 where r1: "open_rom orc lf ''A:/ROM1.bin'' 150 155 ?tr0 = (f1, tr1)" by (rule prod.exhaust)
  obtain tr where run: "dumper_main orc 0x80000218 = Some tr" "core tr = core tr1 @ [Fl_write f1 ROM1_ADDRESS ROM1_SIZE, Fl_close f1,
      Fl_abort_firmup1, Fl_abort_firmup2, Fl_reboot_icu 0x80010003 0 4, Fl_close lf]"
    by (simp add: dumper_main_def Let_def l r0 r1 ROM1_SIZE_def)
  from core_open_log [OF l] obtain esl where "core trl = Fl_open ''A:/ROM0.log'' (O_WRONLY OR O_CREAT) 438 # esl"
    "set esl \<subseteq> {Fl_creat ''A:/ROM0.log'' O_WRONLY, Fl_shutdown}" "Fl_shutdown \<in> set esl \<longleftrightarrow> lf = INVALID_HANDLE"
    by blast
  moreover from core_open_rom [OF r0] obtain es0 where "core tr0 = core trl @ Fl_open ''A:/ROM0.bin'' (O_CREAT OR O_WRONLY) 420 # es0"
    "set es0 \<subseteq> {Fl_creat ''A:/ROM0.bin'' O_WRONLY, Fl_shutdown}" "Fl_shutdown \<in> set es0 \<longleftrightarrow> f0 = INVALID_HANDLE"
    by auto
  moreover from core_open_rom [OF r1] obtain es1 where "core tr1 = core ?tr0 @ Fl_open ''A:/ROM1.bin'' (O_CREAT OR O_WRONLY) 420 # es1"
    "set es1 \<subseteq> {Fl_creat ''A:/ROM1.bin'' O_WRONLY, Fl_shutdown}" "Fl_shutdown \<in> set es1 \<longleftrightarrow> f1 = INVALID_HANDLE"
    by auto
  ultimately show ?thesis
    using run True by (simp, intro exI [of _ lf] exI [of _ f0] exI [of _ f1] exI [of _ esl] exI [of _ es0] exI [of _ es1]) simp
qed (simp add: dumper_main_def)

end
