(* ===== verification/MenuTables.thy ===== *)
theory MenuTables
  imports Menu
begin

text \<open>
  The tables of menu entries that the features register: for each entry what its \<open>priv\<close> points
  to and which functions draw and select it, by the names they have in the sources.  A table is
  an array of structures in the camera's memory; \<open>loaded\<close> says that the structures at the entry
  addresses hold what the initialisers of the table say, at the addresses the linker chose.
\<close>

type_synonym symbol = string

datatype entry_priv = No_priv | Label string | Var symbol

record entry_init =
  ei_priv :: entry_priv
  ei_select :: "symbol option"
  ei_display :: "symbol option"

abbreviation entry :: "entry_priv \<Rightarrow> symbol option \<Rightarrow> symbol \<Rightarrow> entry_init" where
  "entry p sel disp \<equiv> \<lparr>ei_priv = p, ei_select = sel, ei_display = Some disp\<rparr>"

subsection \<open>The tables\<close>

definition draw_prop_menus :: "entry_init list" where
  "draw_prop_menus = [entry (Label ''Toggle draw-event'') (Some ''toggle_draw_event'') ''menu_print'']"

definition audio_menu_table :: "entry_init list" where
  "audio_menu_table =
    [entry (Var ''lovl'') (Some ''audio_3bit_toggle'') ''audio_lovl_display'',
     entry (Var ''mgain'') (Some ''audio_mgain_toggle'') ''audio_mgain_display'',
     entry (Var ''dgain_l'') (Some ''audio_dgain_toggle'') ''audio_dgain_display'',
     entry (Var ''dgain_r'') (Some ''audio_dgain_toggle'') ''audio_dgain_display'',
     entry (Var ''alc_enable'') (Some ''audio_binary_toggle'') ''audio_alc_display'',
     entry (Var ''mic_in'') (Some ''audio_binary_toggle'') ''audio_mic_in_display'',
     entry (Var ''loopback'') (Some ''audio_binary_toggle'') ''audio_loopback_display'']"

definition zebra_menus :: "entry_init list" where
  "zebra_menus =
    [entry (Var ''zebra_draw'') (Some ''menu_binary_toggle'') ''zebra_draw_display'',
     entry (Var ''zebra_level'') (Some ''zebra_toggle'') ''zebra_display'',
     entry (Var ''crop_draw'') (Some ''menu_binary_toggle'') ''crop_display'',
     entry (Var ''edge_draw'') (Some ''menu_binary_toggle'') ''edge_display'',
     entry (Var ''hist_draw'') (Some ''menu_binary_toggle'') ''hist_display'',
     entry (Var ''waveform_draw'') (Some ''menu_binary_toggle'') ''waveform_display'',
     entry (Var ''enable_liveview'') (Some ''menu_binary_toggle'') ''liveview_display'']"

definition spotmeter_menus :: "entry_init list" where
  "spotmeter_menus =
    [entry (Label ''Clear screen'') (Some ''spotmeter_clear_display'') ''menu_print'',
     entry (Var ''spotmeter_draw'') (Some ''menu_binary_toggle'') ''spotmeter_menu_display'']"

definition bracket_menu :: "entry_init list" where
  "bracket_menu =
    [entry (Label ''Test bracket'') (Some ''bracket_start'') ''menu_print'',
     entry (Var ''ae_count'') (Some ''ae_adjust_count'') ''ae_display'',
     entry (Var ''ae_step'') (Some ''ae_adjust_step'') ''ae_display'']"

definition focus_menu :: "entry_init list" where
  "focus_menu =
    [entry (Var ''focus_dir'') (Some ''menu_binary_toggle'') ''focus_dir_display'',
     entry No_priv (Some ''focus_reset_a'') ''focus_show_a'',
     entry No_priv (Some ''focus_rack_speed_increment'') ''focus_rack_speed_display'',
     entry (Label ''Rack focus'') (Some ''focus_toggle'') ''menu_print'',
     entry (Label ''Run Stack focus'') (Some ''focus_stack_unlock'') ''menu_print'',
     entry No_priv None ''display_lens_hyperfocal'']"

definition timecode_menu :: "entry_init list" where
  "timecode_menu = [entry (Label ''Jam timecode'') (Some ''timecode_unlock'') ''menu_print'']"

definition debug_menus :: "entry_init list" where
  "debug_menus =
    [entry No_priv None ''efic_temp_display'',
     entry (Label ''Save config'') (Some ''save_config'') ''menu_print'',
     entry No_priv (Some ''set_vbr'') ''print_vbr'',
     entry (Label ''Print mvr_config'') (Some ''call_setprintmovielog'') ''menu_print'',
     entry (Label ''Draw palette'') (Some ''bmp_draw_palette'') ''menu_print'',
     entry (Label ''Toggle draw_prop'') (Some ''draw_prop_select'') ''menu_print'',
     entry (Label ''Dump dmlog'') (Some ''dumpf'') ''menu_print'',
     entry (Label ''Screenshot'') (Some ''call_dispcheck'') ''menu_print'']"

definition boot_menus :: "entry_init list" where
  "boot_menus =
    [entry (Label ''Write MBR'') (Some ''bootflag_write_bootblock'') ''menu_print'',
     entry No_priv (Some ''bootflag_toggle'') ''bootflag_display'',
     entry No_priv (Some ''powersave_toggle'') ''powersave_display'',
     entry (Label ''Power off now'') (Some ''poweroff'') ''menu_print'']"

definition ptp_menus :: "entry_init list" where
  "ptp_menus = [entry No_priv (Some ''ptp_state_toggle'') ''ptp_state_display'']"

definition file_menus :: "entry_init list" where
  "file_menus =
    [entry (Label ''List files'') (Some ''list_files'') ''menu_print'',
     entry (Label ''Run test'') (Some ''run_script'') ''menu_print'']"

lemmas menu_tables = draw_prop_menus_def audio_menu_table_def zebra_menus_def spotmeter_menus_def bracket_menu_def
  focus_menu_def timecode_menu_def debug_menus_def boot_menus_def ptp_menus_def file_menus_def

subsection \<open>In memory\<close>

text \<open>Where the linker puts the symbols and the text of the labels.\<close>

record linkage =
  lk_symbol :: "symbol \<Rightarrow> addr"
  lk_text :: "string \<Rightarrow> addr"

definition linked_symbols :: "linkage \<Rightarrow> bool" where
  "linked_symbols lk \<longleftrightarrow> (\<forall>f. lk_symbol lk f \<noteq> 0)"

fun priv_addr :: "linkage \<Rightarrow> entry_priv \<Rightarrow> addr" where
  "priv_addr lk No_priv = 0"
| "priv_addr lk (Label t) = lk_text lk t"
| "priv_addr lk (Var v) = lk_symbol lk v"

definition fn_addr :: "linkage \<Rightarrow> symbol option \<Rightarrow> addr" where
  "fn_addr lk f = (case f of None \<Rightarrow> 0 | Some f \<Rightarrow> lk_symbol lk f)"

text \<open>What the menu code never changes of an entry.\<close>

definition code_of :: "menu_entry \<Rightarrow> addr \<times> addr \<times> addr" where
  "code_of e = (me_priv e, me_select e, me_display e)"

definition init_code :: "linkage \<Rightarrow> entry_init \<Rightarrow> addr \<times> addr \<times> addr" where
  "init_code lk i = (priv_addr lk (ei_priv i), fn_addr lk (ei_select i), fn_addr lk (ei_display i))"

definition loaded :: "linkage \<Rightarrow> entry_init list \<Rightarrow> addr list \<Rightarrow> 'a menu_state_scheme \<Rightarrow> bool" where
  "loaded lk is as s \<longleftrightarrow> map (\<lambda>a. code_of (entry_heap s a)) as = map (init_code lk) is"

lemma loadedD:
  assumes "loaded lk is as s" and "j < length is"
  shows "code_of (entry_heap s (as ! j)) = init_code lk (is ! j)"
proof -
  have "length as = length is" using assms(1) map_eq_imp_length_eq unfolding loaded_def by blast
  moreover have "map (\<lambda>a. code_of (entry_heap s a)) as ! j = map (init_code lk) is ! j"
    using assms(1) by (simp add: loaded_def)
  ultimately show ?thesis using assms(2) by simp
qed

definition same_code :: "'a menu_state_scheme \<Rightarrow> 'a menu_state_scheme \<Rightarrow> bool" where
  "same_code s s' \<longleftrightarrow> (\<forall>a. code_of (entry_heap s' a) = code_of (entry_heap s a))"

lemma same_code_refl [simp, intro]: "same_code s s"
  by (simp add: same_code_def)

lemma same_code_trans [trans]: "same_code s s1 \<Longrightarrow> same_code s1 s2 \<Longrightarrow> same_code s s2"
  by (simp add: same_code_def)

lemma same_code_heap: "entry_heap s' = entry_heap s \<Longrightarrow> same_code s s'"
  by (simp add: same_code_def)

lemma same_code_simps [simp]:
  "same_code s (emit e s') = same_code s s'" "same_code s (set_menu a f s') = same_code s s'"
  "same_code s (s'\<lparr>menus := m\<rparr>) = same_code s s'" "same_code s (s'\<lparr>gui_menu_task := t\<rparr>) = same_code s s'"
  "same_code s (s'\<lparr>menu_damage := d\<rparr>) = same_code s s'"
  by (simp_all add: same_code_def set_menu_def)

lemma same_code_set_entry:
  "same_code s s' \<Longrightarrow> (\<And>e. code_of (f e) = code_of e) \<Longrightarrow> same_code s (set_entry a f s')"
  by (simp add: same_code_def set_entry_def)

lemma loaded_same: "loaded lk is as s \<Longrightarrow> same_code s s' \<Longrightarrow> loaded lk is as s'"
  by (simp add: loaded_def same_code_def)

subsection \<open>Adding entries keeps their code\<close>

lemma same_code_append: "same_code s s' \<Longrightarrow> same_code s (append_entries n new head s')"
proof (induction n arbitrary: new head s')
  case (Suc n)
  then show ?case by (simp add: Let_def same_code_set_entry code_of_def)
qed simp

lemma same_code_attach:
  assumes "menu_attach m new n s = Some s'"
  shows "same_code s s'"
  using assms unfolding menu_attach_def Let_def
  by (auto split: option.splits simp: same_code_append same_code_set_entry code_of_def)

lemma same_code_find:
  assumes "menu_find_by_name orc nm s = Some (m, s')"
  shows "same_code s s'"
  using assms unfolding menu_find_by_name_def Let_def ask_def
  by (auto split: option.splits prod.splits bool.splits if_splits)

lemma same_code_add:
  assumes "menu_add orc nm new n s = Some s'"
  shows "same_code s s'"
  using assms same_code_find [of orc nm s] same_code_attach [of _ new n]
  unfolding menu_add_def by (auto split: option.splits prod.splits if_splits intro: same_code_trans)

lemma find_all_none: "fold (\<lambda>nm r. Option.bind r (\<lambda>s. map_option snd (menu_find_by_name orc nm s))) nms None = None"
  by (induction nms) simp_all

lemma same_code_init:
  assumes "menu_init orc s = Some s'"
  shows "same_code s s'"
proof -
  have step: "fold (\<lambda>nm r. Option.bind r (\<lambda>s. map_option snd (menu_find_by_name orc nm s))) nms (Some s1) = Some s' \<Longrightarrow>
      same_code s1 s'" for nms s1
  proof (induction nms arbitrary: s1)
    case (Cons nm nms)
    show ?case
      using Cons same_code_find [of orc nm s1]
      by (cases "menu_find_by_name orc nm s1") (auto simp: find_all_none intro: same_code_trans)
  qed simp
  let ?s = "emit (Sem (Create_named_semaphore Gui_sem ''gui'' 0)) (emit (Sem (Create_named_semaphore Menu_sem ''menus'' 1))
      (s\<lparr>menus := 0, gui_menu_task := 0\<rparr>))"
  have "same_code ?s s'" using assms unfolding menu_init_def Let_def by (rule step)
  then show ?thesis by (simp add: same_code_def)
qed

end
