(* ===== verification/MenuSpec.thy ===== *)
theory MenuSpec
  imports Boot MenuTables
begin

text \<open>
  An abstract specification of the menus: an ordered table of names with their entries.  The
  linked structures of \<open>Menu\<close> represent such a table, and adding entries to a named menu, with
  its search, its allocation and its list surgery, refines an update of the table.  The features
  of the program register their menus in this way, so what the user sees after startup is the
  table of all registrations.
\<close>

subsection \<open>The table\<close>

type_synonym menu_table = "(string \<times> addr list) list"

fun add_group :: "string \<Rightarrow> addr list \<Rightarrow> menu_table \<Rightarrow> menu_table" where
  "add_group nm es [] = [(nm, es)]"
| "add_group nm es ((nm', es') # t) =
     (if nm' = nm then (nm', es' @ es) # t else (nm', es') # add_group nm es t)"

lemma add_group_absent: "nm \<notin> fst ` set t \<Longrightarrow> add_group nm es t = t @ [(nm, es)]"
  by (induction t) auto

lemma add_group_present:
  "nm \<notin> fst ` set xs \<Longrightarrow> add_group nm es (xs @ (nm, es') # ys) = xs @ (nm, es' @ es) # ys"
  by (induction xs) auto

lemma entries_of_add_group: "set (concat (map snd (add_group nm es t))) = set es \<union> set (concat (map snd t))"
  by (induction nm es t rule: add_group.induct) auto

text \<open>One menu of the table, and the whole table; any one entry of a menu may be the selected one.\<close>

definition group_at :: "'a menu_state_scheme \<Rightarrow> addr \<Rightarrow> string \<times> addr list \<Rightarrow> bool" where
  "group_at s m g \<longleftrightarrow> mn_name (menu_heap s m) = fst g \<and> plain_name (fst g)
     \<and> (if snd g = [] then mn_children (menu_heap s m) = 0 else \<exists>i. entries_ring m (snd g) i s)"

text \<open>Exactly one of the menus is selected, once there are any.\<close>

definition one_selected :: "addr list \<Rightarrow> 'a menu_state_scheme \<Rightarrow> bool" where
  "one_selected ms s \<longleftrightarrow> ms \<noteq> [] \<longrightarrow>
     (\<exists>i < length ms. \<forall>j < length ms. mn_selected (menu_heap s (ms ! j)) = (if j = i then 1 else 0))"

definition represents :: "addr list \<Rightarrow> menu_table \<Rightarrow> 'a menu_state_scheme \<Rightarrow> bool" where
  "represents ms t s \<longleftrightarrow> menu_list ms s \<and> one_selected ms s \<and> list_all2 (group_at s) ms t \<and> distinct (concat (map snd t))"

lemma one_selected_frame:
  "one_selected ms s \<Longrightarrow> \<forall>a \<in> set ms. mn_selected (menu_heap s' a) = mn_selected (menu_heap s a) \<Longrightarrow> one_selected ms s'"
  by (simp add: one_selected_def)

lemma one_selected_snoc:
  assumes "one_selected ms s" and "\<forall>a \<in> set ms. mn_selected (menu_heap s' a) = mn_selected (menu_heap s a)"
    and "mn_selected (menu_heap s' new) = (if ms = [] then 1 else 0)"
  shows "one_selected (ms @ [new]) s'"
proof (cases "ms = []")
  case False
  then obtain i where "i < length ms" "\<forall>j < length ms. mn_selected (menu_heap s (ms ! j)) = (if j = i then 1 else 0)"
    using assms(1) by (auto simp: one_selected_def)
  then show ?thesis
    using assms(2,3) False by (auto simp: one_selected_def nth_append less_Suc_eq intro!: exI [of _ i])
qed (use assms(3) in \<open>simp add: one_selected_def\<close>)

definition same_menus :: "'a menu_state_scheme \<Rightarrow> 'a menu_state_scheme \<Rightarrow> bool" where
  "same_menus s s' \<longleftrightarrow> menus s' = menus s \<and> menu_heap s' = menu_heap s \<and> entry_heap s' = entry_heap s"

lemma entries_ring_frame:
  assumes "entries_ring m as i s" and "mn_children (menu_heap s' m) = mn_children (menu_heap s m)"
    and "\<forall>a \<in> set as. entry_heap s' a = entry_heap s a"
  shows "entries_ring m as i s'"
  using assms unfolding entries_ring_def dlist_def by (simp add: enext_def eprev_def)

lemma group_at_frame:
  assumes "group_at s m g" and "menu_heap s' m = menu_heap s m" and "\<forall>a \<in> set (snd g). entry_heap s' a = entry_heap s a"
  shows "group_at s' m g"
proof -
  have "entries_ring m (snd g) i s \<Longrightarrow> entries_ring m (snd g) i s'" for i
    by (rule entries_ring_frame [where s = s]) (use assms(2,3) in simp_all)
  then show ?thesis using assms(1,2) unfolding group_at_def by (simp split: if_splits) blast
qed

lemma represents_same:
  assumes "represents ms t s" and "same_menus s s'"
  shows "represents ms t s'"
proof -
  have "menu_list ms s'" using assms by (auto simp: represents_def same_menus_def intro: menu_list_mono)
  moreover have "one_selected ms s'" using assms by (auto simp: represents_def same_menus_def one_selected_def)
  moreover have "list_all2 (group_at s') ms t"
  proof (rule list.rel_mono_strong)
    show "list_all2 (group_at s) ms t" using assms(1) by (simp add: represents_def)
    show "group_at s m g \<Longrightarrow> group_at s' m g" for m g
      by (erule group_at_frame) (use assms(2) in \<open>simp_all add: same_menus_def\<close>)
  qed
  ultimately show ?thesis using assms(1) by (simp add: represents_def)
qed

subsection \<open>Attaching entries\<close>

lemma represents_attach:
  fixes s s' :: "'a menu_state_scheme"
  assumes rep: "represents (ms1 @ m # ms2) (t1 @ (nm, as) # t2) s" and len: "length ms1 = length t1"
    and new: "distinct (as @ es)" "set es \<inter> set (concat (map snd (t1 @ (nm, as) # t2))) = {}"
    and s': "entries_ring m (as @ es) i s'" "attached m (as @ es) s s'" "es \<noteq> []"
  shows "represents (ms1 @ m # ms2) (t1 @ (nm, as @ es) # t2) s'"
proof -
  have all: "list_all2 (group_at s) ms1 t1" "group_at s m (nm, as)" "list_all2 (group_at s) ms2 t2"
    using rep len by (auto simp: represents_def list_all2_append list_all2_Cons1)
  have dm: "m \<notin> set ms1" "m \<notin> set ms2" using rep by (auto simp: represents_def menu_list_def dlist_def)
  have mh: "menu_heap s' a = menu_heap s a" if "a \<noteq> m" for a
    using s'(2) that unfolding attached_def by (metis fun_upd_apply)
  have mm: "mn_name (menu_heap s' m) = mn_name (menu_heap s m)" "mn_next (menu_heap s' m) = mn_next (menu_heap s m)"
    "mn_prev (menu_heap s' m) = mn_prev (menu_heap s m)" "mn_selected (menu_heap s' m) = mn_selected (menu_heap s m)"
    using s'(2) unfolding attached_def by (metis fun_upd_same menu.select_convs(3) menu.surjective menu.update_convs(4),
      metis fun_upd_same menu.select_convs(1) menu.surjective menu.update_convs(4),
      metis fun_upd_same menu.select_convs(2) menu.surjective menu.update_convs(4),
      metis fun_upd_same menu.select_convs(5) menu.surjective menu.update_convs(4))
  have "mnext s' a = mnext s a \<and> mprev s' a = mprev s a" for a
    using mh [of a] mm by (cases "a = m") (simp_all add: mnext_def mprev_def)
  then have "mnext s' = mnext s" "mprev s' = mprev s" by auto
  then have ml: "menu_list (ms1 @ m # ms2) s'"
    using rep s'(2) by (simp add: represents_def menu_list_def attached_def)
  have "mn_selected (menu_heap s' a) = mn_selected (menu_heap s a)" for a using mh [of a] mm by (cases "a = m") simp_all
  then have os: "one_selected (ms1 @ m # ms2) s'" using rep by (auto simp: represents_def intro: one_selected_frame)
  have other: "group_at s' a g" if "group_at s a g" "a \<noteq> m" "set (snd g) \<inter> set (as @ es) = {}" for a g
    using that mh s'(2) by (intro group_at_frame [OF that(1)]) (auto simp: attached_def)
  have dis: "set (snd g) \<inter> set (as @ es) = {}" if "g \<in> set t1 \<union> set t2" for g
    using rep new(2) that by (fastforce simp: represents_def)
  have "list_all2 (group_at s') ms1 t1"
    by (rule list.rel_mono_strong [OF all(1)], rule other) (use dm(1) dis in auto)
  moreover have "list_all2 (group_at s') ms2 t2"
    by (rule list.rel_mono_strong [OF all(3)], rule other) (use dm(2) dis in auto)
  moreover have "group_at s' m (nm, as @ es)"
    using all(2) s'(1,3) mm by (auto simp: group_at_def)
  moreover have "distinct (concat (map snd (t1 @ (nm, as @ es) # t2)))"
    using rep new by (auto simp: represents_def)
  ultimately show ?thesis using ml os len by (simp add: represents_def list_all2_append)
qed

text \<open>The menu of a name in the table.\<close>

lemma streq_plain: "plain_name a \<Longrightarrow> plain_name b \<Longrightarrow> streq a b \<longleftrightarrow> a = b"
  by (simp add: streq_cstr cstr_id plain_name_def)

lemma find_absent:
  assumes "list_all2 (group_at s) ms t" and "plain_name nm" and "nm \<notin> fst ` set t"
  shows "find (\<lambda>a. streq (mn_name (menu_heap s a)) nm) ms = None"
  using assms(1,3)
proof (induction ms t rule: list_all2_induct)
  case (Cons m ms g t)
  then show ?case using streq_plain [of "fst g" nm] assms(2) by (auto simp: group_at_def)
qed simp

lemma find_present:
  assumes "list_all2 (group_at s) ms t" and "plain_name nm" and "nm \<in> fst ` set t"
  shows "\<exists>ms1 m ms2 t1 as t2. ms = ms1 @ m # ms2 \<and> t = t1 @ (nm, as) # t2 \<and> length ms1 = length t1
    \<and> nm \<notin> fst ` set t1 \<and> find (\<lambda>a. streq (mn_name (menu_heap s a)) nm) ms = Some m"
  using assms(1,3)
proof (induction ms t rule: list_all2_induct)
  case (Cons m ms g t)
  show ?case
  proof (cases "fst g = nm")
    case True
    then have "find (\<lambda>a. streq (mn_name (menu_heap s a)) nm) (m # ms) = Some m"
      using Cons(1) streq_plain [of "fst g" nm] assms(2) by (simp add: group_at_def)
    moreover have "g # t = [] @ (nm, snd g) # t" using True by (cases g) simp
    ultimately show ?thesis by (intro exI [of _ "[]"] exI [of _ m] exI [of _ ms] exI [of _ "[]"] exI [of _ "snd g"] exI [of _ t]) simp
  next
    case False
    then have ne: "\<not> streq (mn_name (menu_heap s m)) nm"
      using Cons(1) streq_plain [of "fst g" nm] assms(2) by (simp add: group_at_def)
    obtain ms1 m' ms2 t1 as t2 where r: "ms = ms1 @ m' # ms2" "t = t1 @ (nm, as) # t2" "length ms1 = length t1"
      "nm \<notin> fst ` set t1" "find (\<lambda>a. streq (mn_name (menu_heap s a)) nm) ms = Some m'"
      using Cons.IH Cons.prems False by (metis (no_types, lifting) image_insert insertE list.simps(15))
    then show ?thesis using False ne
      by (intro exI [of _ "m # ms1"] exI [of _ m'] exI [of _ ms2] exI [of _ "g # t1"] exI [of _ as] exI [of _ t2]) simp
  qed
qed simp

text \<open>Attaching to the menu of a name, in the table.\<close>

lemma attach_represents:
  assumes rep: "represents (ms1 @ m # ms2) (t1 @ (nm, as) # t2) s" and len: "length ms1 = length t1"
    and fresh: "\<forall>j < n. entry_addr new j \<noteq> 0" "0 < n"
    and dis: "distinct (concat (map snd (t1 @ (nm, as) # t2)) @ map (entry_addr new) [0..<n])"
  shows "\<exists>s'. menu_attach m new n s = Some s'
    \<and> represents (ms1 @ m # ms2) (t1 @ (nm, as @ map (entry_addr new) [0..<n]) # t2) s'
    \<and> trace s' = trace s @ [Sem (Take_semaphore Menu_sem 0), Sem (Give_semaphore Menu_sem)]"
proof -
  let ?es = "map (entry_addr new) [0..<n]"
  have g: "group_at s m (nm, as)" using rep len by (auto simp: represents_def list_all2_append list_all2_Cons1)
  have "dlist (mnext s) (mprev s) (ms1 @ m # ms2)" using rep by (simp add: represents_def menu_list_def)
  from dlist_nth(1) [OF this, of "length ms1"] have m0: "m \<noteq> 0" by simp
  have d: "distinct (as @ ?es)" "set ?es \<inter> set (concat (map snd (t1 @ (nm, as) # t2))) = {}" "?es \<noteq> []"
    using dis fresh(2) by auto
  obtain s' i where "menu_attach m new n s = Some s'" "entries_ring m (as @ ?es) i s'" "attached m (as @ ?es) s s'"
  proof (cases "as = []")
    case True
    then have "mn_children (menu_heap s m) = 0" using g by (simp add: group_at_def)
    from menu_attach_empty [OF m0 this fresh(1) _ fresh(2)] d(1) True show thesis using that by auto
  next
    case False
    then obtain i where "entries_ring m as i s" using g by (auto simp: group_at_def)
    from menu_attach_nonempty [OF this fresh(1) d(1)] show thesis using that by auto
  qed
  then show ?thesis using represents_attach [OF rep len d(1,2) _ _ d(3)] by (auto simp: attached_def)
qed

subsection \<open>Adding to a menu\<close>

definition menu_malloc :: "fw_event list \<Rightarrow> fw_event list" where
  "menu_malloc es = es @ [Sem (Take_semaphore Menu_sem 0), Sys (Malloc sizeof_menu)]"

lemma represents_new:
  assumes rep: "represents ms t s" and nm: "plain_name nm" "nm \<notin> fst ` set t"
    and new: "new = orc (menu_malloc (trace s))" "new \<noteq> 0" "new \<notin> set ms"
  shows "\<exists>s1. menu_find_by_name orc nm s = Some (new, s1) \<and> represents (ms @ [new]) (t @ [(nm, [])]) s1
    \<and> trace s1 = trace s @ find_block"
proof -
  have ml: "menu_list ms s" and la: "list_all2 (group_at s) ms t" using rep by (simp_all add: represents_def)
  obtain s1 where s1: "menu_find_by_name orc nm s = Some (new, s1)" "menu_list (ms @ [new]) s1"
    "mn_name (menu_heap s1 new) = nm" "mn_children (menu_heap s1 new) = 0"
    "\<forall>a \<in> set ms. mn_name (menu_heap s1 a) = mn_name (menu_heap s a) \<and> mn_children (menu_heap s1 a) = mn_children (menu_heap s a)"
    "trace s1 = trace s @ find_block" "entry_heap s1 = entry_heap s"
    "\<forall>a \<in> set ms. mn_selected (menu_heap s1 a) = mn_selected (menu_heap s a)"
    "mn_selected (menu_heap s1 new) = (if ms = [] then 1 else 0)"
    using menu_find_new [where orc = orc and new = new, OF ml find_absent [OF la nm] new(1) [unfolded menu_malloc_def] new(2,3)]
    unfolding find_block_def by blast
  have "group_at s1 m g" if "group_at s m g" "m \<in> set ms" for m g
  proof -
    have "entries_ring m (snd g) i s \<Longrightarrow> entries_ring m (snd g) i s1" for i
      by (rule entries_ring_frame [where s = s]) (use s1(5,7) that(2) in simp_all)
    then show ?thesis using that s1(5) unfolding group_at_def by (simp split: if_splits) blast
  qed
  then have "list_all2 (group_at s1) ms t" by (intro list.rel_mono_strong [OF la]) simp
  moreover have "group_at s1 new (nm, [])" using s1(3,4) nm(1) by (simp add: group_at_def)
  ultimately have "represents (ms @ [new]) (t @ [(nm, [])]) s1"
    using s1(2) rep one_selected_snoc [OF _ s1(8,9)] by (simp add: represents_def list_all2_append list_all2_lengthD)
  then show ?thesis using s1(1,6) by blast
qed

text \<open>The table after \<open>menu_add\<close>, the menus it may have made and the calls it made.\<close>

lemma menu_add_represents:
  assumes rep: "represents ms t s" and nm: "plain_name nm"
    and fresh: "\<forall>j < n. entry_addr new j \<noteq> 0" "0 < n" "distinct (concat (map snd t) @ map (entry_addr new) [0..<n])"
    and alloc: "orc (menu_malloc (trace s)) \<notin> set ms" "nm \<in> fst ` set t \<or> orc (menu_malloc (trace s)) \<noteq> 0"
  shows "\<exists>s' ms'. menu_add orc nm new n s = Some s'
    \<and> represents ms' (add_group nm (map (entry_addr new) [0..<n]) t) s'
    \<and> set ms' \<subseteq> insert (orc (menu_malloc (trace s))) (set ms)
    \<and> (nm \<in> fst ` set t \<longrightarrow> ms' = ms)
    \<and> trace s' = trace s @ (if nm \<in> fst ` set t then [Sem (Take_semaphore Menu_sem 0), Sem (Give_semaphore Menu_sem)] else find_block)
         @ [Sem (Take_semaphore Menu_sem 0), Sem (Give_semaphore Menu_sem)]"
proof (cases "nm \<in> fst ` set t")
  case True
  let ?s = "emits [Sem (Take_semaphore Menu_sem 0), Sem (Give_semaphore Menu_sem)] s"
  have ml: "menu_list ms s" and la: "list_all2 (group_at s) ms t" using rep by (simp_all add: represents_def)
  from find_present [OF la nm True] obtain ms1 m ms2 t1 as t2 where
    sp: "ms = ms1 @ m # ms2" "t = t1 @ (nm, as) # t2" "length ms1 = length t1" "nm \<notin> fst ` set t1"
    and f: "find (\<lambda>a. streq (mn_name (menu_heap s a)) nm) ms = Some m"
    by blast
  have "represents (ms1 @ m # ms2) (t1 @ (nm, as) # t2) ?s"
    by (rule represents_same [OF rep [unfolded sp(1,2)]]) (simp add: same_menus_def)
  from attach_represents [OF this sp(3) fresh(1,2) fresh(3) [unfolded sp(2)]]
  obtain s' where att: "menu_attach m new n ?s = Some s'"
    and rep': "represents ms (t1 @ (nm, as @ map (entry_addr new) [0..<n]) # t2) s'"
    and tr: "trace s' = trace ?s @ [Sem (Take_semaphore Menu_sem 0), Sem (Give_semaphore Menu_sem)]"
    unfolding sp(1) [symmetric] by blast
  have add: "add_group nm (map (entry_addr new) [0..<n]) t = t1 @ (nm, as @ map (entry_addr new) [0..<n]) # t2"
    unfolding sp(2) by (rule add_group_present [OF sp(4)])
  have "menu_add orc nm new n s = Some s'" by (simp only: menu_add_existing(2) [OF ml f] att)
  with rep' tr True show ?thesis unfolding add by (intro exI [of _ s'] exI [of _ ms] conjI) (simp_all add: subset_insertI)
next
  case False
  let ?new = "orc (menu_malloc (trace s))"
  have n0: "?new \<noteq> 0" using alloc(2) False by simp
  obtain s1 where s1: "menu_find_by_name orc nm s = Some (?new, s1)" "represents (ms @ [?new]) (t @ [(nm, [])]) s1"
    "trace s1 = trace s @ find_block"
    using represents_new [where orc = orc, OF rep nm False refl n0 alloc(1)] by blast
  have len: "length ms = length t" using rep by (auto simp: represents_def list_all2_lengthD)
  from attach_represents [OF s1(2) len fresh(1,2)] fresh(3)
  obtain s' where "menu_attach ?new new n s1 = Some s'"
    "represents (ms @ [?new]) (t @ [(nm, map (entry_addr new) [0..<n])]) s'"
    "trace s' = trace s1 @ [Sem (Take_semaphore Menu_sem 0), Sem (Give_semaphore Menu_sem)]"
    by auto
  then show ?thesis
    using s1(1,3) n0 False add_group_absent [OF False] by (auto simp: menu_add_def)
qed

text \<open>A menu that cannot be allocated leaves everything as it was.\<close>

lemma menu_add_fails:
  assumes "represents ms t s" and "plain_name nm" "nm \<notin> fst ` set t" and "orc (menu_malloc (trace s)) = 0"
  shows "\<exists>s'. menu_add orc nm new n s = Some s' \<and> represents ms t s'"
proof -
  have ml: "menu_list ms s" and la: "list_all2 (group_at s) ms t" using assms(1) by (simp_all add: represents_def)
  have "menu_add orc nm new n s = Some (emits find_block s)"
    using walk_menus [OF ml, of "\<lambda>a. streq (mn_name (menu_heap s a)) nm"] find_absent [OF la assms(2,3)] assms(4)
    by (simp add: menu_add_def menu_find_by_name_def ask_def menu_malloc_def find_block_def)
  moreover have "represents ms t (emits find_block s)"
    using assms(1) by (rule represents_same) (simp add: same_menus_def find_block_def)
  ultimately show ?thesis by blast
qed

text \<open>C5: The menus refine the table: on menus that represent a table, \<open>menu_add\<close> returns menus that
  represent the table with the entries added to the group of that name, which is made at the end
  if there was none; when a new menu is needed and cannot be allocated, the table stays as it was.\<close>

theorem menu_add_refines:
  assumes "represents ms t s" and "plain_name nm"
    and "\<forall>j < n. entry_addr new j \<noteq> 0" "0 < n" "distinct (concat (map snd t) @ map (entry_addr new) [0..<n])"
    and "orc (menu_malloc (trace s)) \<notin> set ms"
  shows "\<exists>s' ms'. menu_add orc nm new n s = Some s'
    \<and> represents ms' (if nm \<notin> fst ` set t \<and> orc (menu_malloc (trace s)) = 0 then t
        else add_group nm (map (entry_addr new) [0..<n]) t) s'"
proof (cases "nm \<notin> fst ` set t \<and> orc (menu_malloc (trace s)) = 0")
  case True
  then obtain s' where "menu_add orc nm new n s = Some s'" "represents ms t s'"
    using menu_add_fails [OF assms(1,2)] by blast
  with True show ?thesis by (intro exI [of _ s'] exI [of _ ms]) simp
next
  case False
  then show ?thesis using menu_add_represents [where orc = orc, OF assms(1-6)] by (simp only: if_False) blast
qed

subsection \<open>Features that register a menu\<close>

text \<open>The allocator returns memory that is not null and not in use, for the first \<open>N\<close> calls of the
  firmware.\<close>

definition heap_fresh :: "answers \<Rightarrow> nat \<Rightarrow> bool" where
  "heap_fresh orc N \<longleftrightarrow>
     (\<forall>es n. length es < N \<longrightarrow> orc (es @ [Sys (Malloc n)]) \<notin> insert 0 (set (allocated orc [] es)))"

definition no_malloc :: "fw_event list \<Rightarrow> bool" where
  "no_malloc es \<longleftrightarrow> (\<forall>n. Sys (Malloc n) \<notin> set es)"

lemma no_malloc_allocated: "no_malloc es \<Longrightarrow> allocated orc past es = []"
  by (induction es arbitrary: past) (auto simp: no_malloc_def split: fw_event.splits sys_call.splits)

text \<open>The state in which menus are registered.\<close>

definition table_state :: "answers \<Rightarrow> addr list \<Rightarrow> menu_table \<Rightarrow> 'a menu_state_scheme \<Rightarrow> bool" where
  "table_state orc ms t s \<longleftrightarrow> represents ms t s \<and> set ms \<subseteq> set (allocated orc [] (trace s))"

lemma table_state_quiet:
  assumes "table_state orc ms t s" and "same_menus s s'" and "trace s' = trace s @ es" "no_malloc es"
  shows "table_state orc ms t s'"
  using assms represents_same [of ms t s s'] by (simp add: table_state_def allocated_append no_malloc_allocated)

lemma menu_malloc_fresh:
  assumes "heap_fresh orc N" and "length (trace s) + 1 < N" and "table_state orc ms t s"
  shows "orc (menu_malloc (trace s)) \<noteq> 0" and "orc (menu_malloc (trace s)) \<notin> set ms"
    and "set (allocated orc [] (menu_malloc (trace s))) = insert (orc (menu_malloc (trace s))) (set (allocated orc [] (trace s)))"
proof -
  let ?es = "trace s @ [Sem (Take_semaphore Menu_sem 0)]"
  have m: "menu_malloc (trace s) = ?es @ [Sys (Malloc sizeof_menu)]" by (simp add: menu_malloc_def)
  have f: "orc (?es @ [Sys (Malloc sizeof_menu)]) \<notin> insert 0 (set (allocated orc [] ?es))"
    using assms(1,2) unfolding heap_fresh_def by (metis length_append_singleton Suc_eq_plus1)
  have a: "allocated orc [] ?es = allocated orc [] (trace s)" by (simp add: allocated_append)
  show "orc (menu_malloc (trace s)) \<noteq> 0" "orc (menu_malloc (trace s)) \<notin> set ms"
    using f assms(3) unfolding m a table_state_def by auto
  show "set (allocated orc [] (menu_malloc (trace s))) = insert (orc (menu_malloc (trace s))) (set (allocated orc [] (trace s)))"
    using f unfolding m by (subst allocated_append) (auto simp: a)
qed

lemma menu_add_table:
  assumes ts: "table_state orc ms t s" and hf: "heap_fresh orc N" "length (trace s) + 1 < N" and nm: "plain_name nm"
    and fresh: "\<forall>j < n. entry_addr new j \<noteq> 0" "0 < n" "distinct (concat (map snd t) @ map (entry_addr new) [0..<n])"
  shows "\<exists>s' ms'. menu_add orc nm new n s = Some s'
    \<and> table_state orc ms' (add_group nm (map (entry_addr new) [0..<n]) t) s' \<and> length (trace s') \<le> length (trace s) + 5"
proof -
  note mf = menu_malloc_fresh [OF hf ts]
  from menu_add_represents [where orc = orc, OF _ nm fresh mf(2)] mf(1) ts
  obtain s' ms' where s': "menu_add orc nm new n s = Some s'"
    "represents ms' (add_group nm (map (entry_addr new) [0..<n]) t) s'"
    "set ms' \<subseteq> insert (orc (menu_malloc (trace s))) (set ms)" "nm \<in> fst ` set t \<longrightarrow> ms' = ms"
    "trace s' = trace s @ (if nm \<in> fst ` set t then [Sem (Take_semaphore Menu_sem 0), Sem (Give_semaphore Menu_sem)] else find_block)
         @ [Sem (Take_semaphore Menu_sem 0), Sem (Give_semaphore Menu_sem)]"
    unfolding table_state_def by blast
  have "set ms' \<subseteq> set (allocated orc [] (trace s'))"
  proof (cases "nm \<in> fst ` set t")
    case True
    then show ?thesis using s'(4,5) ts by (auto simp: table_state_def allocated_append)
  next
    case False
    then have "trace s' = menu_malloc (trace s) @ [Sem (Give_semaphore Menu_sem), Sem (Take_semaphore Menu_sem 0), Sem (Give_semaphore Menu_sem)]"
      using s'(5) by (simp add: find_block_def menu_malloc_def)
    then have "set (allocated orc [] (trace s')) = insert (orc (menu_malloc (trace s))) (set (allocated orc [] (trace s)))"
      using mf(3) by (simp add: allocated_append)
    then show ?thesis using s'(3) ts by (auto simp: table_state_def)
  qed
  moreover have "length (trace s') \<le> length (trace s) + 5" using s'(5) by (simp add: find_block_def)
  ultimately show ?thesis using s'(1,2) unfolding table_state_def by blast
qed

text \<open>A step that leaves the menus alone, allocates nothing and makes at most \<open>c\<close> calls.\<close>

definition aside :: "nat \<Rightarrow> ('a menu_state_scheme \<Rightarrow> 'a menu_state_scheme) \<Rightarrow> bool" where
  "aside c f \<longleftrightarrow> (\<forall>s. same_menus s (f s) \<and> (\<exists>es. trace (f s) = trace s @ es \<and> no_malloc es \<and> length es \<le> c))"

lemma asideI:
  "(\<And>s. same_menus s (f s)) \<Longrightarrow> (\<And>s. \<exists>es. trace (f s) = trace s @ es \<and> no_malloc es \<and> length es \<le> c) \<Longrightarrow> aside c f"
  by (simp add: aside_def)

lemma aside_emits: "no_malloc es \<Longrightarrow> aside (length es) (emits es)"
  by (rule asideI) (simp_all add: same_menus_def emits_eq)

lemma aside_table:
  assumes "aside c f" and "table_state orc ms t s"
  shows "table_state orc ms t (f s)" and "length (trace (f s)) \<le> length (trace s) + c"
proof -
  obtain es where "same_menus s (f s)" "trace (f s) = trace s @ es" "no_malloc es" "length es \<le> c"
    using assms(1) unfolding aside_def by blast
  then show "table_state orc ms t (f s)" "length (trace (f s)) \<le> length (trace s) + c"
    using table_state_quiet [OF assms(2)] by auto
qed

text \<open>The contract of a feature: its start adds its entries to its menu, and besides makes at most
  \<open>cost\<close> other calls and leaves the menus alone.\<close>

locale menu_feature =
  fixes start :: "'a menu_state_scheme \<Rightarrow> 'a menu_state_scheme option" and orc :: answers
    and nm :: string and new :: addr and n :: nat and cost :: nat
  assumes plain: "plain_name nm" and entries: "0 < n"
    and adds: "\<exists>before after cb ca. aside cb before \<and> aside ca after \<and> cb + ca \<le> cost
      \<and> (\<forall>s. start s = map_option after (menu_add orc nm new n (before s)))"
begin

lemma registers:
  assumes ts: "table_state orc ms t s" and hf: "heap_fresh orc N" "length (trace s) + cost + 1 < N"
    and fresh: "\<forall>j < n. entry_addr new j \<noteq> 0" "distinct (concat (map snd t) @ map (entry_addr new) [0..<n])"
  shows "\<exists>s' ms'. start s = Some s' \<and> table_state orc ms' (add_group nm (map (entry_addr new) [0..<n]) t) s'
    \<and> length (trace s') \<le> length (trace s) + cost + 5"
proof -
  obtain before after cb ca where st: "aside cb before" "aside ca after" "cb + ca \<le> cost"
    "start s = map_option after (menu_add orc nm new n (before s))"
    using adds by blast
  note tb = aside_table [OF st(1) ts]
  have l: "length (trace (before s)) + 1 < N" using hf(2) tb(2) st(3) by simp
  from menu_add_table [OF tb(1) hf(1) l plain fresh(1) entries fresh(2)]
  obtain s1 ms' where s1: "menu_add orc nm new n (before s) = Some s1"
    "table_state orc ms' (add_group nm (map (entry_addr new) [0..<n]) t) s1" "length (trace s1) \<le> length (trace (before s)) + 5"
    by blast
  note ta = aside_table [OF st(2) s1(2)]
  show ?thesis using st(3,4) s1 ta tb(2) by auto
qed

lemma keeps_code:
  assumes "start s = Some s'"
  shows "same_code s s'"
proof -
  obtain before after cb ca where st: "aside cb before" "aside ca after"
    "start s = map_option after (menu_add orc nm new n (before s))"
    using adds by blast
  then obtain s1 where s1: "menu_add orc nm new n (before s) = Some s1" "s' = after s1" using assms by (cases "menu_add orc nm new n (before s)") auto
  have "same_code s (before s)" "same_code s1 s'"
    using st(1,2) by (auto simp: aside_def same_menus_def s1(2) intro: same_code_heap)
  then show ?thesis using same_code_add [OF s1(1)] by (blast intro: same_code_trans)
qed

end

subsection \<open>The first menus\<close>

definition start_table :: menu_table where
  "start_table = map (\<lambda>nm. (nm, [])) [''Audio'', ''Video'', ''Brack'', ''Focus'', ''Debug'']"

lemma find_table:
  assumes ts: "table_state orc ms t s" and hf: "heap_fresh orc N" "length (trace s) + 1 < N"
    and nm: "plain_name nm" "nm \<notin> fst ` set t"
  shows "\<exists>s' ms'. map_option snd (menu_find_by_name orc nm s) = Some s' \<and> table_state orc ms' (t @ [(nm, [])]) s'
    \<and> length (trace s') = length (trace s) + 3"
proof -
  note mf = menu_malloc_fresh [OF hf ts]
  obtain s1 where s1: "menu_find_by_name orc nm s = Some (orc (menu_malloc (trace s)), s1)"
    "represents (ms @ [orc (menu_malloc (trace s))]) (t @ [(nm, [])]) s1" "trace s1 = trace s @ find_block"
    using represents_new [where orc = orc, OF _ nm refl mf(1,2)] ts unfolding table_state_def by blast
  have "trace s1 = menu_malloc (trace s) @ [Sem (Give_semaphore Menu_sem)]"
    using s1(3) by (simp add: find_block_def menu_malloc_def)
  then have "set (allocated orc [] (trace s1)) = insert (orc (menu_malloc (trace s))) (set (allocated orc [] (trace s)))"
    using mf(3) by (simp add: allocated_append)
  then have "table_state orc (ms @ [orc (menu_malloc (trace s))]) (t @ [(nm, [])]) s1"
    using s1(2) ts by (auto simp: table_state_def)
  moreover have "length (trace s1) = length (trace s) + 3" using s1(3) by (simp add: find_block_def)
  ultimately show ?thesis using s1(1) by auto
qed

lemma find_all_table:
  "table_state orc ms t s \<Longrightarrow> heap_fresh orc N \<Longrightarrow> length (trace s) + 3 * length nms < N \<Longrightarrow>
   \<forall>nm \<in> set nms. plain_name nm \<Longrightarrow> distinct nms \<Longrightarrow> fst ` set t \<inter> set nms = {} \<Longrightarrow>
   \<exists>s' ms'. fold (\<lambda>nm r. Option.bind r (\<lambda>s. map_option snd (menu_find_by_name orc nm s))) nms (Some s) = Some s'
     \<and> table_state orc ms' (t @ map (\<lambda>nm. (nm, [])) nms) s' \<and> length (trace s') = length (trace s) + 3 * length nms"
proof (induction nms arbitrary: ms t s)
  case (Cons nm nms)
  have l: "length (trace s) + 1 < N" using Cons.prems(3) by simp
  obtain s1 ms1 where s1: "map_option snd (menu_find_by_name orc nm s) = Some s1" "table_state orc ms1 (t @ [(nm, [])]) s1"
    "length (trace s1) = length (trace s) + 3"
    using find_table [OF Cons.prems(1,2) l, of nm] Cons.prems(4-6) by auto
  have "\<exists>s' ms'. fold (\<lambda>nm r. Option.bind r (\<lambda>s. map_option snd (menu_find_by_name orc nm s))) nms (Some s1) = Some s'
     \<and> table_state orc ms' ((t @ [(nm, [])]) @ map (\<lambda>nm. (nm, [])) nms) s' \<and> length (trace s') = length (trace s1) + 3 * length nms"
    by (rule Cons.IH [OF s1(2) Cons.prems(2)]) (use Cons.prems(3-6) s1(3) in auto)
  then show ?case unfolding fold_simps Option.bind.simps s1(1) using s1(3) by (simp add: add.assoc)
qed auto

lemma menu_init_table:
  assumes "heap_fresh orc N" and "length (trace s) + 17 < N"
  shows "\<exists>s' ms. menu_init orc s = Some s' \<and> table_state orc ms start_table s' \<and> length (trace s') = length (trace s) + 17"
proof -
  define s1 where "s1 = emit (Sem (Create_named_semaphore Gui_sem ''gui'' 0)) (emit (Sem (Create_named_semaphore Menu_sem ''menus'' 1))
      (s\<lparr>menus := 0, gui_menu_task := 0\<rparr>))"
  have "table_state orc [] [] s1"
    by (simp add: table_state_def represents_def one_selected_def menu_list_def dlist_def node_at_def s1_def)
  moreover have l: "length (trace s1) = length (trace s) + 2" by (simp add: s1_def emit_def)
  ultimately obtain s' ms where "fold (\<lambda>nm r. Option.bind r (\<lambda>s. map_option snd (menu_find_by_name orc nm s)))
      [''Audio'', ''Video'', ''Brack'', ''Focus'', ''Debug''] (Some s1) = Some s'"
    "table_state orc ms ([] @ start_table) s'" "length (trace s') = length (trace s1) + 3 * 5"
    using find_all_table [of orc "[]" "[]" s1 N "[''Audio'', ''Video'', ''Brack'', ''Focus'', ''Debug'']"] assms
    unfolding start_table_def by (auto simp: plain_name_def NUL_def simp del: fold_simps)
  then show ?thesis unfolding menu_init_def Let_def s1_def [symmetric] using l
    by (intro exI [of _ s'] exI [of _ ms] conjI) simp_all
qed

theorem menu_add_refines_witness:
  "\<exists>s' ms'. menu_add (\<lambda>es. 0x400) ''Focus'' 0x600 2 two_menus = Some s'
    \<and> represents ms' [(''Audio'', [0x300, 0x318]), (''Video'', []), (''Focus'', [0x600, 0x618])] s'"
proof -
  have rep: "represents [0x100, 0x200] [(''Audio'', [0x300, 0x318]), (''Video'', [])] two_menus"
    using two_menus_list two_entries_ring
    by (auto simp: represents_def one_selected_def less_Suc_eq group_at_def plain_name_def NUL_def two_menus_def intro!: exI [of _ 0])
  have m: "map (entry_addr 0x600) [0..<2] = [0x600, 0x618]"
    by (simp add: upt_rec entry_addr_def sizeof_menu_entry_def)
  have z: "\<forall>j < 2. entry_addr 0x600 j \<noteq> 0"
    by (auto simp: entry_addr_def sizeof_menu_entry_def dest!: less_2_cases)
  show ?thesis
    using menu_add_refines [OF rep _ z, of "''Focus''" "\<lambda>es. 0x400"] by (simp only: m) (simp add: plain_name_def NUL_def)
qed

end
