(* ===== verification/MenuUI.thy ===== *)
theory MenuUI
  imports MenuSpec
begin

text \<open>
  The menu as its user sees it: a cursor that moves over the menus and, in each menu, over its
  entries.  The event handler of \<open>menu.c\<close>, which searches the linked structures, moves the marks
  in them and redraws the screen, refines this machine: a key moves the cursor, what is drawn
  are the entries of the selected menu with the selected one marked, and the set button calls the
  function of the selected entry with its argument.
\<close>

subsection \<open>The cursor\<close>

type_synonym ui_group = "string \<times> addr list \<times> nat"

record ui =
  ui_menu :: nat
  ui_groups :: "ui_group list"

datatype ui_key = Key_up | Key_down | Key_left | Key_right | Key_set

fun key_events :: "ui_key \<Rightarrow> gui_event_t list" where
  "key_events Key_up = [PRESS_JOY_UP, ELECTRONIC_SUB_DIAL_LEFT]"
| "key_events Key_down = [PRESS_JOY_DOWN, ELECTRONIC_SUB_DIAL_RIGHT]"
| "key_events Key_left = [PRESS_JOY_LEFT, DIAL_LEFT]"
| "key_events Key_right = [PRESS_JOY_RIGHT, DIAL_RIGHT]"
| "key_events Key_set = [PRESS_SET_BUTTON]"

text \<open>The key that an event belongs to, found among all of them.\<close>

instantiation ui_key :: enum
begin

definition enum_ui_key :: "ui_key list" where
  "enum_ui_key = [Key_up, Key_down, Key_left, Key_right, Key_set]"

definition enum_all_ui_key :: "(ui_key \<Rightarrow> bool) \<Rightarrow> bool" where
  "enum_all_ui_key P \<longleftrightarrow> list_all P [Key_up, Key_down, Key_left, Key_right, Key_set]"

definition enum_ex_ui_key :: "(ui_key \<Rightarrow> bool) \<Rightarrow> bool" where
  "enum_ex_ui_key P \<longleftrightarrow> list_ex P [Key_up, Key_down, Key_left, Key_right, Key_set]"

instance
proof
  have all: "(UNIV :: ui_key set) = set [Key_up, Key_down, Key_left, Key_right, Key_set]"
    using ui_key.exhaust by auto
  then show "(UNIV :: ui_key set) = set enum_class.enum" by (simp only: enum_ui_key_def)
  show "distinct (enum_class.enum :: ui_key list)" by (simp add: enum_ui_key_def)
  show "enum_class.enum_all P = Ball UNIV P" "enum_class.enum_ex P = Bex UNIV P" for P :: "ui_key \<Rightarrow> bool"
    unfolding enum_all_ui_key_def enum_ex_ui_key_def list_all_iff list_ex_iff all by simp_all
qed

end

definition event_key :: "gui_event_t \<Rightarrow> ui_key option" where
  "event_key ev = find (\<lambda>k. ev \<in> set (key_events k)) Enum.enum"

lemma event_keyD: "event_key ev = Some k \<Longrightarrow> ev \<in> set (key_events k)"
  by (auto simp: event_key_def find_Some_iff)

lemma event_key_hd: "event_key (hd (key_events k)) = Some k"
  by (cases k) (simp_all add: event_key_def enum_ui_key_def)

fun move_group :: "int \<Rightarrow> ui_group \<Rightarrow> ui_group" where
  "move_group d (nm, es, i) = (nm, es, if es = [] then i else ring_target d (length es) i)"

definition move_entry :: "int \<Rightarrow> ui \<Rightarrow> ui" where
  "move_entry d u = u\<lparr>ui_groups := (ui_groups u)[ui_menu u := move_group d (ui_groups u ! ui_menu u)]\<rparr>"

definition move_menu :: "int \<Rightarrow> ui \<Rightarrow> ui" where
  "move_menu d u = u\<lparr>ui_menu := ring_target d (length (ui_groups u)) (ui_menu u)\<rparr>"

fun ui_step :: "ui_key \<Rightarrow> ui \<Rightarrow> ui" where
  "ui_step Key_up u = move_entry (- 1) u"
| "ui_step Key_down u = move_entry 1 u"
| "ui_step Key_left u = move_menu (- 1) u"
| "ui_step Key_right u = move_menu 1 u"
| "ui_step Key_set u = u"

text \<open>The entries of the selected menu, and the selected entry.\<close>

definition ui_entries :: "ui \<Rightarrow> addr list" where
  "ui_entries u = fst (snd (ui_groups u ! ui_menu u))"

definition ui_cursor :: "ui \<Rightarrow> nat" where
  "ui_cursor u = snd (snd (ui_groups u ! ui_menu u))"

definition ui_calls :: "(addr \<Rightarrow> menu_entry) \<Rightarrow> ui_key \<Rightarrow> ui \<Rightarrow> (addr \<times> addr) list" where
  "ui_calls h k u =
     (if k = Key_set \<and> ui_entries u \<noteq> [] \<and> me_select (h (ui_entries u ! ui_cursor u)) \<noteq> 0
      then [(me_select (h (ui_entries u ! ui_cursor u)), me_priv (h (ui_entries u ! ui_cursor u)))] else [])"

subsection \<open>What the screen and the entries see\<close>

text \<open>The calls of select functions in a trace, and the entries that are drawn: which function with
  which argument, and whether as the selected one.\<close>

fun calls :: "fw_event list \<Rightarrow> (addr \<times> addr) list" where
  "calls [] = []"
| "calls (Sys (Entry_call f p) # es) = (f, p) # calls es"
| "calls (e # es) = calls es"

fun draws :: "fw_event list \<Rightarrow> (addr \<times> addr \<times> bool) list" where
  "draws [] = []"
| "draws (Sys (Entry_display f p x y sel) # es) = (f, p, sel \<noteq> 0) # draws es"
| "draws (e # es) = draws es"

lemma calls_Cons: "calls (e # es) = calls [e] @ calls es"
  by (induction "[e]" rule: calls.induct) auto

lemma draws_Cons: "draws (e # es) = draws [e] @ draws es"
  by (induction "[e]" rule: draws.induct) auto

lemma calls_append [simp]: "calls (xs @ ys) = calls xs @ calls ys"
proof (induction xs)
  case (Cons e xs)
  then show ?case by (metis append_Cons append_assoc calls_Cons)
qed simp

lemma draws_append [simp]: "draws (xs @ ys) = draws xs @ draws ys"
proof (induction xs)
  case (Cons e xs)
  then show ?case by (metis append_Cons append_assoc draws_Cons)
qed simp

definition silent :: "fw_event list \<Rightarrow> bool" where
  "silent es \<longleftrightarrow> calls es = [] \<and> draws es = []"

lemma silent_simps [simp]:
  "silent []" "silent (Draw d # es) = silent es" "silent (Sem c # es) = silent es" "silent (Gui g # es) = silent es"
  "silent (es @ fs) \<longleftrightarrow> silent es \<and> silent fs"
  by (auto simp: silent_def)

lemma heap_emits [simp]:
  "menu_heap (emits es s) = menu_heap s" "entry_heap (emits es s) = entry_heap s" "menus (emits es s) = menus s"
  "mnext (emits es s) = mnext s" "mprev (emits es s) = mprev s" "enext (emits es s) = enext s" "eprev (emits es s) = eprev s"
  by (induction es arbitrary: s) auto

subsection \<open>Drawing\<close>

text \<open>What drawing a list of entries shows.\<close>

definition drawn :: "(addr \<Rightarrow> menu_entry) \<Rightarrow> addr list \<Rightarrow> (addr \<times> addr \<times> bool) list" where
  "drawn h as = map (\<lambda>a. (me_display (h a), me_priv (h a), me_selected (h a) \<noteq> 0)) as"

lemma menu_display_list:
  "dlist (enext s) (eprev s) as \<Longrightarrow> i \<le> length as \<Longrightarrow>
   \<exists>evs. menu_display h (node_at as i) x y s = Some (emits evs s) \<and> calls evs = []
     \<and> draws evs = drawn (entry_heap s) (drop i as)"
proof (induction "length as - i" arbitrary: i y s)
  case 0
  then show ?case by (intro exI [of _ "[]"]) (simp add: node_at_def menu_display.simps drawn_def)
next
  case (Suc k)
  then have i: "i < length as" by simp
  let ?e = "entry_heap s (as ! i)"
  let ?ev = "Sys (Entry_display (me_display ?e) (me_priv ?e) x y (me_selected ?e))"
  have "me_next ?e = node_at as (Suc i)" using dlist_nth(2) [OF Suc.prems(1) i] by (simp add: node_at_def enext_def)
  moreover have "\<exists>evs. menu_display h (node_at as (Suc i)) x (y + h) (emit ?ev s) = Some (emits evs (emit ?ev s)) \<and> calls evs = []
     \<and> draws evs = drawn (entry_heap s) (drop (Suc i) as)"
    using Suc.hyps(1) [of "Suc i" "emit ?ev s" "y + h"] Suc.hyps(2) Suc.prems i by simp
  then obtain evs where "menu_display h (node_at as (Suc i)) x (y + h) (emit ?ev s) = Some (emits evs (emit ?ev s))"
    "calls evs = []" "draws evs = drawn (entry_heap s) (drop (Suc i) as)" by blast
  moreover have "drop i as = as ! i # drop (Suc i) as" using i by (simp add: Cons_nth_drop_Suc)
  ultimately show ?case using dlist_nth(1) [OF Suc.prems(1) i] i
    by (intro exI [of _ "?ev # evs"]) (simp add: node_at_def menu_display.simps [of h "as ! i"] Let_def drawn_def)
qed

text \<open>The children of a menu are none or a ring.\<close>

definition children :: "'a menu_state_scheme \<Rightarrow> addr \<Rightarrow> addr list \<Rightarrow> bool" where
  "children s m as \<longleftrightarrow> mn_children (menu_heap s m) = node_at as 0 \<and> dlist (enext s) (eprev s) as"

lemma fontspec_width_emits: "\<exists>cw evs. fontspec_width fs f w = (cw, emits evs w) \<and> silent evs"
proof -
  have "\<exists>em evs. canon_char_lookup g c w = (em, emits evs w) \<and> silent evs" for g c
    unfolding canon_char_lookup_def Let_def
    by (intro exI [of _ "fst (canon_char_lookup g c w)"]
        exI [of _ "if magic g \<noteq> CANON_FONT_MAGIC then [Draw (Bmp_printf FONT_SMALL 0 4
              (fmt_0x 0 (font_addr g) @ '' => '' @ fmt_0x 0 (magic g)))] else []"])
      (simp add: canon_char_lookup_def)
  then obtain em evs where "canon_char_lookup (fontspec_font fs f) (of_char CHR ''m'') w = (em, emits evs w)" "silent evs"
    by blast
  then show ?thesis unfolding fontspec_width_def by auto
qed

text \<open>The menus are drawn from the left to the right, and below them the entries of the selected one.\<close>

lemma menus_loop_list:
  "dlist (mnext s) (mprev s) ms \<Longrightarrow> i \<le> length ms \<Longrightarrow> \<forall>k < length ms. children s (ms ! k) (es k) \<Longrightarrow>
   \<exists>evs. menus_loop fs (node_at ms i) ox x y s = Some (emits evs s) \<and> calls evs = []
     \<and> draws evs = concat (map (\<lambda>k. if mn_selected (menu_heap s (ms ! k)) \<noteq> 0 then drawn (entry_heap s) (es k) else []) [i..<length ms])"
proof (induction "length ms - i" arbitrary: i x s)
  case 0
  then show ?case by (intro exI [of _ "[]"]) (simp add: node_at_def menus_loop.simps)
next
  case (Suc n)
  then have i: "i < length ms" by simp
  let ?m = "menu_heap s (ms ! i)" and ?d = "\<lambda>k. if mn_selected (menu_heap s (ms ! k)) \<noteq> 0 then drawn (entry_heap s) (es k) else []"
  define f where "f = FONT FONT_MED COLOR_YELLOW (if mn_selected ?m \<noteq> 0 then 0x7F else COLOR_BG)"
  let ?ev = "Draw (Bmp_printf f x y (fmt_s 6 (mn_name ?m)))"
  obtain cw ev1 where w: "fontspec_width fs f (emit ?ev s) = (cw, emits ev1 (emit ?ev s))" "silent ev1"
    using fontspec_width_emits by blast
  let ?s1 = "emits ev1 (emit ?ev s)" and ?h = "ucast (font_height (font_mono_24 fs))" and ?y = "y + fontspec_height fs f + 4"
  have ch: "children s (ms ! i) (es i)" using Suc.prems(3) i by simp
  obtain ev2 where d: "(if mn_selected ?m \<noteq> 0 then menu_display ?h (mn_children ?m) ox ?y ?s1 else Some ?s1) = Some (emits ev2 ?s1)"
    "calls ev2 = []" "draws ev2 = ?d i"
  proof (cases "mn_selected ?m \<noteq> 0")
    case True
    have "dlist (enext ?s1) (eprev ?s1) (es i)" using ch by (simp add: children_def)
    from menu_display_list [OF this, of 0 ?h ox ?y] show ?thesis
      using that True ch by (auto simp: children_def)
  next
    case False
    then show ?thesis using that [of "[]"] by simp
  qed
  let ?s2 = "emits ev2 ?s1"
  have nx: "mn_next ?m = node_at ms (Suc i)" using dlist_nth(2) [OF Suc.prems(1) i] by (simp add: node_at_def mnext_def)
  have "\<exists>evs. menus_loop fs (node_at ms (Suc i)) ox (x + cw * 6) y ?s2 = Some (emits evs ?s2) \<and> calls evs = []
     \<and> draws evs = concat (map ?d [Suc i..<length ms])"
    using Suc.hyps(1) [of "Suc i" ?s2 "x + cw * 6"] Suc.hyps(2) Suc.prems i by (simp add: children_def cong: if_cong)
  then obtain ev3 where r: "menus_loop fs (node_at ms (Suc i)) ox (x + cw * 6) y ?s2 = Some (emits ev3 ?s2)"
    "calls ev3 = []" "draws ev3 = concat (map ?d [Suc i..<length ms])" by blast
  have u: "[i..<length ms] = i # [Suc i..<length ms]" using i by (rule upt_conv_Cons)
  have n0: "ms ! i \<noteq> 0" by (rule dlist_nth(1) [OF Suc.prems(1) i])
  have "menus_loop fs (ms ! i) ox x y s =
      (case (if mn_selected ?m \<noteq> 0 then menu_display ?h (mn_children ?m) ox ?y ?s1 else Some ?s1) of
         None \<Rightarrow> None | Some s \<Rightarrow> menus_loop fs (mn_next ?m) ox (x + cw * 6) y s)"
    by (subst menus_loop.simps) (simp only: n0 if_False Let_def w(1) prod.case flip: f_def)
  then have "menus_loop fs (node_at ms i) ox x y s = Some (emits (?ev # ev1 @ ev2 @ ev3) s)"
    unfolding d(1) option.case nx r(1) using i by (simp add: node_at_def emits_append)
  then show ?case
    using w(2) d(2,3) r(2,3) unfolding u by (intro exI [of _ "?ev # ev1 @ ev2 @ ev3"]) (simp add: silent_def)
qed


subsection \<open>The cursor in the structures\<close>

definition group_ui :: "'a menu_state_scheme \<Rightarrow> addr \<Rightarrow> ui_group \<Rightarrow> bool" where
  "group_ui s m g \<longleftrightarrow> (case g of (nm, es, i) \<Rightarrow> mn_name (menu_heap s m) = nm
     \<and> (if es = [] then mn_children (menu_heap s m) = 0 else entries_ring m es i s))"

definition ui_shows :: "addr list \<Rightarrow> ui \<Rightarrow> 'a menu_state_scheme \<Rightarrow> bool" where
  "ui_shows ms u s \<longleftrightarrow> menus_ring ms (ui_menu u) s \<and> list_all2 (group_ui s) ms (ui_groups u)
     \<and> distinct (concat (map (\<lambda>g. fst (snd g)) (ui_groups u)))"

lemma ui_showsD:
  assumes "ui_shows ms u s"
  shows "menus_ring ms (ui_menu u) s" "ui_menu u < length ms" "length (ui_groups u) = length ms"
    "k < length ms \<Longrightarrow> group_ui s (ms ! k) (ui_groups u ! k)" "k < length ms \<Longrightarrow> ms ! k \<noteq> 0"
  using assms dlist_nth(1) [of "mnext s" "mprev s" ms k]
  by (auto simp: ui_shows_def menus_ring_def list_all2_conv_all_nth)

lemma group_children: "group_ui s m g \<Longrightarrow> children s m (fst (snd g))"
  by (auto simp: group_ui_def children_def entries_ring_def node_at_def dlist_def split: prod.splits if_splits)

lemma group_ui_frame:
  assumes "group_ui s m g" and "mn_name (menu_heap s' m) = mn_name (menu_heap s m)"
    and "mn_children (menu_heap s' m) = mn_children (menu_heap s m)"
    and "\<forall>a \<in> set (fst (snd g)). entry_heap s' a = entry_heap s a"
  shows "group_ui s' m g"
  using assms entries_ring_frame [of m "fst (snd g)" "snd (snd g)" s s']
  by (auto simp: group_ui_def split: prod.splits if_splits)

text \<open>What a step makes visible: the functions called and the entries drawn; it keeps the entries'
  functions, and whether the menu is on the screen.\<close>

definition seen ::
  "'a menu_state_scheme \<Rightarrow> (addr \<times> addr) list \<Rightarrow> (addr \<times> addr \<times> bool) list \<Rightarrow> 'a menu_state_scheme \<Rightarrow> bool" where
  "seen s cs ds s' \<longleftrightarrow> same_code s s' \<and> menu_hidden s' = menu_hidden s \<and> gui_menu_task s' = gui_menu_task s
     \<and> (\<exists>evs. trace s' = trace s @ evs \<and> calls evs = cs \<and> draws evs = ds)"

lemma seen_trans: "seen s cs ds s1 \<Longrightarrow> seen s1 cs' ds' s2 \<Longrightarrow> seen s (cs @ cs') (ds @ ds') s2"
  unfolding seen_def by (auto intro: same_code_trans)

lemma seenI:
  "same_code s s' \<Longrightarrow> menu_hidden s' = menu_hidden s \<Longrightarrow> gui_menu_task s' = gui_menu_task s \<Longrightarrow>
   trace s' = trace s @ evs \<Longrightarrow> calls evs = cs \<Longrightarrow> draws evs = ds \<Longrightarrow> seen s cs ds s'"
  unfolding seen_def by blast

definition on_screen :: "'a menu_state_scheme \<Rightarrow> bool" where
  "on_screen s \<longleftrightarrow> menu_hidden s = 0 \<and> gui_menu_task s \<noteq> 0"

definition ui_screen :: "(addr \<Rightarrow> menu_entry) \<Rightarrow> ui \<Rightarrow> (addr \<times> addr \<times> bool) list" where
  "ui_screen h u = map (\<lambda>j. (me_display (h (ui_entries u ! j)), me_priv (h (ui_entries u ! j)), j = ui_cursor u))
     [0..<length (ui_entries u)]"

lemma screen_same_code: "same_code s s' \<Longrightarrow> ui_screen (entry_heap s') u = ui_screen (entry_heap s) u"
  by (simp add: ui_screen_def same_code_def code_of_def)

lemma drawn_screen:
  assumes "ui_shows ms u s"
  shows "drawn (entry_heap s) (ui_entries u) = ui_screen (entry_heap s) u"
proof -
  obtain nm es i where g: "ui_groups u ! ui_menu u = (nm, es, i)" by (cases "ui_groups u ! ui_menu u")
  have "es = [] \<or> (\<forall>j < length es. me_selected (entry_heap s (es ! j)) = (if j = i then 1 else 0))"
    using ui_showsD(4) [OF assms ui_showsD(2) [OF assms]] g by (auto simp: group_ui_def entries_ring_def)
  then show ?thesis
    unfolding drawn_def ui_screen_def ui_entries_def ui_cursor_def g
    by (intro nth_equalityI) (auto split: if_splits)
qed

lemma concat_single: "i < n \<Longrightarrow> concat (map (\<lambda>k. if k = i then f k else []) [0..<n]) = f i"
  by (induction n) (auto simp: less_Suc_eq)

lemma display_shows:
  assumes "ui_shows ms u s"
  shows "\<exists>evs. menus_display fs (menus s) x y s = Some (emits evs s) \<and> calls evs = []
    \<and> draws evs = ui_screen (entry_heap s) u"
proof -
  note d = ui_showsD [OF assms]
  let ?es = "\<lambda>k. fst (snd (ui_groups u ! k))" and ?s = "emit (Sem (Take_semaphore Menu_sem 0)) s"
  have "\<forall>k < length ms. children ?s (ms ! k) (?es k)"
    using group_children [OF d(4)] by (simp add: children_def)
  moreover have "dlist (mnext ?s) (mprev ?s) ms" using d(1) by (simp add: menus_ring_def)
  ultimately obtain evs where evs: "menus_loop fs (node_at ms 0) x x y ?s = Some (emits evs ?s)" "calls evs = []"
    "draws evs = concat (map (\<lambda>k. if mn_selected (menu_heap s (ms ! k)) \<noteq> 0 then drawn (entry_heap s) (?es k) else []) [0..<length ms])"
    using menus_loop_list [of ?s ms 0 ?es fs x x y] by (auto cong: if_cong)
  have "map (\<lambda>k. if mn_selected (menu_heap s (ms ! k)) \<noteq> 0 then drawn (entry_heap s) (?es k) else []) [0..<length ms]
      = map (\<lambda>k. if k = ui_menu u then drawn (entry_heap s) (?es k) else []) [0..<length ms]"
    using d(1) by (simp add: menus_ring_def)
  then have "draws evs = drawn (entry_heap s) (?es (ui_menu u))" by (simp only: evs(3) concat_single [OF d(2)])
  then have dr: "draws evs = ui_screen (entry_heap s) u"
    using drawn_screen [OF assms] by (simp add: ui_entries_def)
  have "menus s = node_at ms 0" using d(1) by (auto simp: menus_ring_def node_at_def)
  then have "menus_display fs (menus s) x y s
      = Some (emits (Sem (Take_semaphore Menu_sem 0) # evs @ [Sem (Give_semaphore Menu_sem)]) s)"
    using evs(1) by (simp add: menus_display_def emits_append)
  then show ?thesis using evs(2) dr
    by (intro exI [of _ "Sem (Take_semaphore Menu_sem 0) # evs @ [Sem (Give_semaphore Menu_sem)]"]) simp
qed

lemma ui_shows_simps [simp]:
  "ui_shows ms u (emit e s) = ui_shows ms u s" "ui_shows ms u (emits es s) = ui_shows ms u s"
  "ui_shows ms u (s\<lparr>menu_damage := v\<rparr>) = ui_shows ms u s" "ui_shows ms u (s\<lparr>menu_timeout := v\<rparr>) = ui_shows ms u s"
  unfolding ui_shows_def group_ui_def menus_ring_def entries_ring_def
  by (simp_all add: mnext_def [abs_def] mprev_def [abs_def] enext_def [abs_def] eprev_def [abs_def])

lemma redraw_shows:
  assumes "ui_shows ms u s"
  shows "\<exists>s'. menu_redraw fs s = Some (0, s') \<and> ui_shows ms u s'
    \<and> seen s [] (if on_screen s then ui_screen (entry_heap s) u else []) s'"
proof (cases "on_screen s")
  case False
  then have "menu_redraw fs s = Some (0, s\<lparr>menu_timeout := menu_timeout_time s\<rparr>)"
    by (auto simp: menu_redraw_def on_screen_def)
  moreover have "seen s [] [] (s\<lparr>menu_timeout := menu_timeout_time s\<rparr>)"
    by (rule seenI [where evs = "[]"]) (simp_all add: same_code_def)
  ultimately show ?thesis using assms False by simp
next
  case True
  let ?t = "s\<lparr>menu_timeout := menu_timeout_time s\<rparr>"
  let ?s = "(if menu_damage ?t \<noteq> 0 then emit (menu_area COLOR_BG) ?t else ?t)\<lparr>menu_damage := 0\<rparr>"
  have sh: "ui_shows ms u ?s" using assms by simp
  have eh: "entry_heap ?s = entry_heap s" by simp
  obtain evs where evs: "menus_display fs (menus ?s) 100 100 ?s = Some (emits evs ?s)" "calls evs = []"
    "draws evs = ui_screen (entry_heap s) u"
    using display_shows [OF sh] unfolding eh by blast
  have "menu_redraw fs s = Some (0, emits evs ?s)"
    using True evs(1) by (simp add: menu_redraw_def on_screen_def Let_def)
  moreover have "seen s [] (ui_screen (entry_heap s) u) (emits evs ?s)"
    by (rule seenI [where evs = "(if menu_damage s \<noteq> 0 then [menu_area COLOR_BG] else []) @ evs"])
      (simp_all add: same_code_def evs menu_area_def emits_eq emit_def)
  ultimately show ?thesis using sh True by simp
qed


subsection \<open>One key\<close>

lemma move_menu_shows:
  assumes sh: "ui_shows ms u s" and "granted orc"
  shows "\<exists>s'. menu_move orc (ms ! ui_menu u) d s = Some s' \<and> ui_shows ms (move_menu d u) s' \<and> seen s [] [] s'"
proof -
  note d = ui_showsD [OF sh]
  let ?s = "emit (Sem (Give_semaphore Menu_sem))
    (set_menu (ms ! ring_target d (length ms) (ui_menu u)) (\<lambda>n. n\<lparr>mn_selected := 1\<rparr>)
      (set_menu (ms ! ui_menu u) (\<lambda>n. n\<lparr>mn_selected := 0\<rparr>)
        (emit (Sem (Take_semaphore Menu_sem 100)) (s\<lparr>menu_damage := 1\<rparr>))))"
  have run: "menu_move orc (ms ! ui_menu u) d s = Some ?s" by (rule menu_move_run [OF d(1) assms(2)])
  have ring: "menus_ring ms (ring_target d (length ms) (ui_menu u)) ?s"
    using menu_move_ring [OF d(1) assms(2), of d] unfolding run by simp
  have "list_all2 (group_ui ?s) ms (ui_groups u)"
  proof (rule list.rel_mono_strong)
    show "list_all2 (group_ui s) ms (ui_groups u)" using sh by (simp add: ui_shows_def)
    show "group_ui s m g \<Longrightarrow> group_ui ?s m g" for m g
      by (erule group_ui_frame) (simp_all add: set_menu_def)
  qed
  then have "ui_shows ms (move_menu d u) ?s"
    using ring sh d(3) by (simp add: ui_shows_def move_menu_def)
  moreover have "seen s [] [] ?s"
    by (rule seenI [where evs = "[Sem (Take_semaphore Menu_sem 100), Sem (Give_semaphore Menu_sem)]"])
      (simp_all add: set_menu_def emit_def same_code_def)
  ultimately show ?thesis using run by blast
qed

text \<open>Two menus share no entry.\<close>

lemma groups_disjoint:
  assumes "distinct (concat (map (\<lambda>g. fst (snd g)) gs))" and "j < length gs" "k < length gs" "j \<noteq> k"
  shows "set (fst (snd (gs ! j))) \<inter> set (fst (snd (gs ! k))) = {}"
  using assms
proof (induction gs arbitrary: j k)
  case (Cons g gs)
  have m: "set (fst (snd (gs ! i))) \<subseteq> (\<Union>g \<in> set gs. set (fst (snd g)))" if "i < length gs" for i using that by force
  show ?case
  proof (cases j)
    case 0
    then obtain k' where "k = Suc k'" "k' < length gs" using Cons.prems by (cases k) auto
    then show ?thesis using 0 Cons.prems(1) m [of k'] by auto
  next
    case (Suc j')
    show ?thesis
    proof (cases k)
      case 0
      then show ?thesis using Suc Cons.prems m [of j'] by auto
    next
      case (Suc k')
      then show ?thesis using \<open>j = Suc j'\<close> Cons by auto
    qed
  qed
qed simp

lemma move_entry_none:
  assumes sh: "ui_shows ms u s" and gr: "granted orc" and g: "ui_groups u ! ui_menu u = (nm, [], i)"
  shows "\<exists>s'. menu_entry_move orc (ms ! ui_menu u) d s = Some s' \<and> ui_shows ms (move_entry d u) s' \<and> seen s [] [] s'"
proof -
  note dd = ui_showsD [OF sh]
  let ?tg = "[Sem (Take_semaphore Menu_sem 100), Sem (Give_semaphore Menu_sem)]"
  have "mn_children (menu_heap s (ms ! ui_menu u)) = 0" using dd(4) [OF dd(2)] g by (simp add: group_ui_def)
  then have "menu_entry_move orc (ms ! ui_menu u) d s = Some (emits ?tg s)"
    using dd(5) [OF dd(2)] gr by (simp add: menu_entry_move_def ask_def granted_def walk_find.simps)
  moreover have "move_entry d u = u" using g dd(2,3) by (simp add: move_entry_def list_update_same_conv)
  moreover have "seen s [] [] (emits ?tg s)"
    by (rule seenI [where evs = ?tg]) (simp_all add: emits_eq same_code_def)
  ultimately show ?thesis using sh by (intro exI [of _ "emits ?tg s"]) simp
qed

lemma move_entry_some:
  assumes sh: "ui_shows ms u s" and gr: "granted orc" and g: "ui_groups u ! ui_menu u = (nm, es, i)" and ne: "es \<noteq> []"
  shows "\<exists>s'. menu_entry_move orc (ms ! ui_menu u) d s = Some s' \<and> ui_shows ms (move_entry d u) s' \<and> seen s [] [] s'"
proof -
  note dd = ui_showsD [OF sh]
  let ?m = "ms ! ui_menu u" and ?k = "ring_target d (length es) i"
  have gu: "group_ui s ?m (nm, es, i)" using dd(4) [OF dd(2)] g by simp
  then have er: "entries_ring ?m es i s" using ne by (simp add: group_ui_def)
  let ?s = "emit (Sem (Give_semaphore Menu_sem)) (set_entry (es ! ?k) (\<lambda>n. n\<lparr>me_selected := 1\<rparr>)
    (set_entry (es ! i) (\<lambda>n. n\<lparr>me_selected := 0\<rparr>) (emit (Sem (Take_semaphore Menu_sem 100)) s)))"
  have run: "menu_entry_move orc ?m d s = Some ?s" by (rule menu_entry_move_run [OF er gr])
  have er': "entries_ring ?m es ?k ?s" using menu_entry_move_ring [OF er gr, of d] unfolding run by simp
  have i: "i < length es" using er by (simp add: entries_ring_def)
  have at: "es ! i \<in> set es" "es ! ?k \<in> set es" by (rule nth_mem [OF i], rule nth_mem [OF ring_target_less [OF i]])
  have "group_ui ?s (ms ! j) ((ui_groups u)[ui_menu u := (nm, es, ?k)] ! j)" if j: "j < length ms" for j
  proof (cases "j = ui_menu u")
    case True
    then show ?thesis using er' ne gu dd(2,3) by (simp add: group_ui_def set_entry_def)
  next
    case False
    have "set (fst (snd (ui_groups u ! j))) \<inter> set es = {}"
      using groups_disjoint [of "ui_groups u" j "ui_menu u"] sh False j dd(2,3) g by (simp add: ui_shows_def)
    then have "\<forall>a \<in> set (fst (snd (ui_groups u ! j))). entry_heap ?s a = entry_heap s a"
      using at by (auto simp: set_entry_def)
    from group_ui_frame [OF dd(4) [OF j] _ _ this] show ?thesis using False by (simp add: set_entry_def)
  qed
  then have "list_all2 (group_ui ?s) ms (ui_groups (move_entry d u))"
    using ne dd(3) g by (simp add: move_entry_def list_all2_conv_all_nth)
  moreover have "map (\<lambda>g. fst (snd g)) (ui_groups (move_entry d u)) = map (\<lambda>g. fst (snd g)) (ui_groups u)"
    using ne g dd(2,3) by (simp add: move_entry_def map_update list_update_same_conv)
  moreover have "menus_ring ms (ui_menu u) ?s"
    using dd(1) by (simp add: menus_ring_def set_entry_def mnext_def [abs_def] mprev_def [abs_def])
  ultimately have "ui_shows ms (move_entry d u) ?s"
    using sh by (simp add: ui_shows_def) (simp add: move_entry_def)
  moreover have "seen s [] [] ?s"
    by (rule seenI [where evs = "[Sem (Take_semaphore Menu_sem 100), Sem (Give_semaphore Menu_sem)]"])
      (auto simp: set_entry_def emit_def same_code_def code_of_def)
  ultimately show ?thesis using run by blast
qed

lemma move_entry_shows:
  assumes sh: "ui_shows ms u s" and gr: "granted orc"
  shows "\<exists>s'. menu_entry_move orc (ms ! ui_menu u) d s = Some s' \<and> ui_shows ms (move_entry d u) s' \<and> seen s [] [] s'"
proof (cases "ui_groups u ! ui_menu u")
  case (fields nm es i)
  show ?thesis
    using move_entry_none [OF sh gr] move_entry_some [OF sh gr fields] fields by (cases "es = []") simp_all
qed

lemma select_shows:
  assumes sh: "ui_shows ms u s"
  shows "\<exists>s'. menu_entry_select (ms ! ui_menu u) s = Some s' \<and> ui_shows ms u s'
    \<and> seen s (ui_calls (entry_heap s) Key_set u) [] s'"
proof -
  note dd = ui_showsD [OF sh]
  let ?m = "ms ! ui_menu u" and ?tg = "[Sem (Take_semaphore Menu_sem 0), Sem (Give_semaphore Menu_sem)]"
  obtain nm es i where g: "ui_groups u ! ui_menu u = (nm, es, i)" by (cases "ui_groups u ! ui_menu u")
  have gu: "group_ui s ?m (nm, es, i)" using dd(4) [OF dd(2)] g by simp
  have m0: "?m \<noteq> 0" by (rule dd(5) [OF dd(2)])
  let ?e = "entry_heap s (es ! i)"
  let ?evs = "?tg @ (if es \<noteq> [] \<and> me_select ?e \<noteq> 0 then [Sys (Entry_call (me_select ?e) (me_priv ?e))] else [])"
  have "menu_entry_select ?m s = Some (emits ?evs s)"
  proof (cases "es = []")
    case True
    then show ?thesis using m0 gu by (simp add: menu_entry_select_def group_ui_def walk_find.simps)
  next
    case False
    then have er: "entries_ring ?m es i s" using gu by (simp add: group_ui_def)
    then have "es ! i \<noteq> 0" using dlist_nth(1) by (auto simp: entries_ring_def)
    then show ?thesis using m0 find_selected_entry [OF er] False
      by (simp add: menu_entry_select_def emits_append)
  qed
  moreover have "seen s (ui_calls (entry_heap s) Key_set u) [] (emits ?evs s)"
    using g by (intro seenI [where evs = ?evs]) (simp_all add: emits_eq same_code_def ui_calls_def ui_entries_def ui_cursor_def)
  ultimately show ?thesis using sh by (intro exI [of _ "emits ?evs s"]) simp
qed

subsection \<open>The event handler\<close>

fun key_action ::
  "answers \<Rightarrow> fonts \<Rightarrow> ui_key \<Rightarrow> addr \<Rightarrow> 'a menu_state_scheme \<Rightarrow> (int \<times> 'a menu_state_scheme) option" where
  "key_action orc fs Key_up m s = Option.bind (menu_entry_move orc m (- 1) s) (\<lambda>s. menu_redraw fs (s\<lparr>menu_damage := 1\<rparr>))"
| "key_action orc fs Key_down m s = Option.bind (menu_entry_move orc m 1 s) (\<lambda>s. menu_redraw fs (s\<lparr>menu_damage := 1\<rparr>))"
| "key_action orc fs Key_left m s = Option.bind (menu_move orc m (- 1) s) (menu_redraw fs)"
| "key_action orc fs Key_right m s = Option.bind (menu_move orc m 1 s) (menu_redraw fs)"
| "key_action orc fs Key_set m s = Option.bind (menu_entry_select m s) (menu_redraw fs)"

lemma handler_key:
  assumes "ev \<in> set (key_events k)"
  shows "\<exists>evs. silent evs \<and> menu_handler orc fs (event_code ev) arg2 arg3 arg4 s =
    (case walk_find (mnext s) (\<lambda>m. mn_selected (menu_heap s m) \<noteq> 0) (menus s) of
       None \<Rightarrow> None | Some m \<Rightarrow> key_action orc fs k m (emits evs s))"
proof -
  define s1 where "s1 = (if draw_event s \<noteq> 0 then emit (Draw (Bmp_printf FONT_SMALL 400 40
      (''event '' @ fmt_0x 8 (event_code ev) @ '' args '' @ fmt_0x 8 arg2 @ '' '' @ fmt_0x 8 arg3 @ '' '' @ fmt_0x 8 arg4))) s else s)"
  define evs where "evs = (if draw_event s \<noteq> 0 then [Draw (Bmp_printf FONT_SMALL 400 40
      (''event '' @ fmt_0x 8 (event_code ev) @ '' args '' @ fmt_0x 8 arg2 @ '' '' @ fmt_0x 8 arg3 @ '' '' @ fmt_0x 8 arg4))] else [])"
  have evs: "s1 = emits evs s" "silent evs" by (simp_all add: s1_def evs_def)
  have "event_code ev \<noteq> 1" using assms by (cases k) auto
  then have e: "(if event_code ev \<noteq> 1 \<and> draw_event s \<noteq> 0 then emit (Draw (Bmp_printf FONT_SMALL 400 40
      (''event '' @ fmt_0x 8 (event_code ev) @ '' args '' @ fmt_0x 8 arg2 @ '' '' @ fmt_0x 8 arg3 @ '' '' @ fmt_0x 8 arg4))) s else s) = s1"
    by (simp add: s1_def)
  have "menu_handler orc fs (event_code ev) arg2 arg3 arg4 s =
    (case walk_find (mnext s1) (\<lambda>m. mn_selected (menu_heap s1 m) \<noteq> 0) (menus s1) of
       None \<Rightarrow> None | Some m \<Rightarrow> key_action orc fs k m s1)"
    unfolding menu_handler_def Let_def e
    by (insert assms; cases "walk_find (mnext s1) (\<lambda>m. mn_selected (menu_heap s1 m) \<noteq> 0) (menus s1)"; cases k;
        simp only: key_events.simps list.set insert_iff empty_iff simp_thms option.case; (elim disjE)?; simp)
  then show ?thesis using evs by auto
qed


lemma seen_on_screen: "seen s cs ds s' \<Longrightarrow> on_screen s' = on_screen s"
  by (simp add: seen_def on_screen_def)

lemma seen_screen: "seen s cs ds s' \<Longrightarrow> ui_screen (entry_heap s') u = ui_screen (entry_heap s) u"
  by (simp add: seen_def screen_same_code)

lemma seen_calls: "seen s cs ds s' \<Longrightarrow> ui_calls (entry_heap s') k u = ui_calls (entry_heap s) k u"
  by (simp add: seen_def ui_calls_def same_code_def code_of_def)

lemma then_redraw:
  assumes "ui_shows ms u s1" and "seen s cs [] s1"
  shows "\<exists>s'. menu_redraw fs s1 = Some (0, s') \<and> ui_shows ms u s'
    \<and> seen s cs (if on_screen s then ui_screen (entry_heap s) u else []) s'"
  using redraw_shows [OF assms(1), of fs] seen_trans [OF assms(2)]
  unfolding seen_on_screen [OF assms(2)] seen_screen [OF assms(2)] by fastforce

lemma seen_damage: "seen s cs ds s1 \<Longrightarrow> seen s cs ds (s1\<lparr>menu_damage := v\<rparr>)"
  by (simp add: seen_def)

lemma action_shows:
  assumes sh: "ui_shows ms u s" and gr: "granted orc"
  shows "\<exists>s'. key_action orc fs k (ms ! ui_menu u) s = Some (0, s') \<and> ui_shows ms (ui_step k u) s'
    \<and> seen s (ui_calls (entry_heap s) k u) (if on_screen s then ui_screen (entry_heap s) (ui_step k u) else []) s'"
proof (cases k)
  case Key_up
  obtain s1 where s1: "menu_entry_move orc (ms ! ui_menu u) (- 1) s = Some s1" "ui_shows ms (move_entry (- 1) u) s1" "seen s [] [] s1"
    using move_entry_shows [OF sh gr] by blast
  from then_redraw [of ms "move_entry (- 1) u" "s1\<lparr>menu_damage := 1\<rparr>", OF _ seen_damage [OF s1(3)], of fs] s1 show ?thesis
    by (simp add: Key_up ui_calls_def cong: if_cong split del: if_split)
next
  case Key_down
  obtain s1 where s1: "menu_entry_move orc (ms ! ui_menu u) 1 s = Some s1" "ui_shows ms (move_entry 1 u) s1" "seen s [] [] s1"
    using move_entry_shows [OF sh gr] by blast
  from then_redraw [of ms "move_entry 1 u" "s1\<lparr>menu_damage := 1\<rparr>", OF _ seen_damage [OF s1(3)], of fs] s1 show ?thesis
    by (simp add: Key_down ui_calls_def cong: if_cong split del: if_split)
next
  case Key_left
  obtain s1 where s1: "menu_move orc (ms ! ui_menu u) (- 1) s = Some s1" "ui_shows ms (move_menu (- 1) u) s1" "seen s [] [] s1"
    using move_menu_shows [OF sh gr] by blast
  from then_redraw [OF s1(2,3), of fs] s1(1) show ?thesis by (simp add: Key_left ui_calls_def cong: if_cong split del: if_split)
next
  case Key_right
  obtain s1 where s1: "menu_move orc (ms ! ui_menu u) 1 s = Some s1" "ui_shows ms (move_menu 1 u) s1" "seen s [] [] s1"
    using move_menu_shows [OF sh gr] by blast
  from then_redraw [OF s1(2,3), of fs] s1(1) show ?thesis by (simp add: Key_right ui_calls_def cong: if_cong split del: if_split)
next
  case Key_set
  obtain s1 where s1: "menu_entry_select (ms ! ui_menu u) s = Some s1" "ui_shows ms u s1" "seen s (ui_calls (entry_heap s) Key_set u) [] s1"
    using select_shows [OF sh] by blast
  from then_redraw [OF s1(2,3), of fs] s1(1) show ?thesis by (simp add: Key_set cong: if_cong split del: if_split)
qed

lemma handler_shows:
  assumes sh: "ui_shows ms u s" and gr: "granted orc" and ev: "event_key ev = Some k"
  shows "\<exists>s'. menu_handler orc fs (event_code ev) arg2 arg3 arg4 s = Some (0, s') \<and> ui_shows ms (ui_step k u) s'
    \<and> seen s (ui_calls (entry_heap s) k u) (if on_screen s then ui_screen (entry_heap s) (ui_step k u) else []) s'"
proof -
  obtain evs where evs: "silent evs" "menu_handler orc fs (event_code ev) arg2 arg3 arg4 s = key_action orc fs k (ms ! ui_menu u) (emits evs s)"
    using handler_key [OF event_keyD [OF ev], of orc fs arg2 arg3 arg4 s] find_selected_menu [OF ui_showsD(1) [OF sh]] by auto
  have q: "seen s [] [] (emits evs s)"
    using evs(1) by (intro seenI [where evs = evs]) (simp_all add: emits_eq same_code_def silent_def)
  have "ui_shows ms u (emits evs s)" using sh by simp
  from action_shows [OF this gr, of fs k] obtain s' where
    "key_action orc fs k (ms ! ui_menu u) (emits evs s) = Some (0, s')" "ui_shows ms (ui_step k u) s'"
    "seen (emits evs s) (ui_calls (entry_heap s) k u) (if on_screen s then ui_screen (entry_heap s) (ui_step k u) else []) s'"
    unfolding seen_on_screen [OF q] seen_screen [OF q] seen_calls [OF q] by blast
  then show ?thesis using seen_trans [OF q] evs(2) by fastforce
qed

subsection \<open>Sequences of keys\<close>

fun press_keys :: "answers \<Rightarrow> fonts \<Rightarrow> gui_event_t list \<Rightarrow> 'a menu_state_scheme \<Rightarrow> 'a menu_state_scheme option" where
  "press_keys orc fs [] s = Some s"
| "press_keys orc fs (ev # evs) s =
     Option.bind (menu_handler orc fs (event_code ev) 0 0 0 s) (\<lambda>(r, s). press_keys orc fs evs s)"

fun ui_called :: "(addr \<Rightarrow> menu_entry) \<Rightarrow> ui_key list \<Rightarrow> ui \<Rightarrow> (addr \<times> addr) list" where
  "ui_called h [] u = []"
| "ui_called h (k # ks) u = ui_calls h k u @ ui_called h ks (ui_step k u)"

fun ui_drawn :: "(addr \<Rightarrow> menu_entry) \<Rightarrow> ui_key list \<Rightarrow> ui \<Rightarrow> (addr \<times> addr \<times> bool) list" where
  "ui_drawn h [] u = []"
| "ui_drawn h (k # ks) u = ui_screen h (ui_step k u) @ ui_drawn h ks (ui_step k u)"

lemma seen_called: "seen s cs ds s' \<Longrightarrow> ui_called (entry_heap s') ks u = ui_called (entry_heap s) ks u"
  by (induction ks arbitrary: u) (simp_all add: seen_calls)

lemma seen_drawn: "seen s cs ds s' \<Longrightarrow> ui_drawn (entry_heap s') ks u = ui_drawn (entry_heap s) ks u"
  by (induction ks arbitrary: u) (simp_all add: seen_screen)

lemma session_shows:
  "map event_key evs = map Some ks \<Longrightarrow> granted orc \<Longrightarrow> ui_shows ms u s \<Longrightarrow>
   \<exists>s'. press_keys orc fs evs s = Some s' \<and> ui_shows ms (fold ui_step ks u) s'
     \<and> seen s (ui_called (entry_heap s) ks u) (if on_screen s then ui_drawn (entry_heap s) ks u else []) s'"
proof (induction evs arbitrary: ks u s)
  case Nil
  then show ?case by (auto intro: seenI [where evs = "[]"])
next
  case (Cons ev evs)
  obtain k ks' where ks: "ks = k # ks'" "event_key ev = Some k" "map event_key evs = map Some ks'"
    using Cons.prems(1) by (cases ks) auto
  obtain s1 where s1: "menu_handler orc fs (event_code ev) 0 0 0 s = Some (0, s1)" "ui_shows ms (ui_step k u) s1"
    "seen s (ui_calls (entry_heap s) k u) (if on_screen s then ui_screen (entry_heap s) (ui_step k u) else []) s1"
    using handler_shows [OF Cons.prems(3,2) ks(2)] by blast
  from Cons.IH [OF ks(3) Cons.prems(2) s1(2)] obtain s' where s': "press_keys orc fs evs s1 = Some s'"
    "ui_shows ms (fold ui_step ks' (ui_step k u)) s'"
    "seen s1 (ui_called (entry_heap s) ks' (ui_step k u)) (if on_screen s then ui_drawn (entry_heap s) ks' (ui_step k u) else []) s'"
    unfolding seen_on_screen [OF s1(3)] seen_called [OF s1(3)] seen_drawn [OF s1(3)] by blast
  show ?case using seen_trans [OF s1(3) s'(3)] s1(1) s'(1,2) by (auto simp: ks(1))
qed

subsection \<open>Every entry can be reached\<close>

lemma ui_called_append: "ui_called h (xs @ ys) u = ui_called h xs u @ ui_called h ys (fold ui_step xs u)"
  by (induction xs arbitrary: u) simp_all

lemma ui_called_none: "Key_set \<notin> set ks \<Longrightarrow> ui_called h ks u = []"
  by (induction ks arbitrary: u) (auto simp: ui_calls_def)

lemma rights:
  "ui_menu u < length (ui_groups u) \<Longrightarrow>
   fold ui_step (replicate n Key_right) u = u\<lparr>ui_menu := (ui_menu u + n) mod length (ui_groups u)\<rparr>"
proof (induction n arbitrary: u)
  case (Suc n)
  have "ui_menu (move_menu 1 u) < length (ui_groups (move_menu 1 u))"
    using Suc.prems by (simp add: move_menu_def ring_target_less)
  from Suc.IH [OF this] show ?case by (simp add: move_menu_def ring_target_def mod_simps add.commute add.left_commute)
qed simp

lemma downs:
  "ui_menu u < length (ui_groups u) \<Longrightarrow> ui_groups u ! ui_menu u = (nm, es, i) \<Longrightarrow> i < length es \<Longrightarrow>
   fold ui_step (replicate n Key_down) u = u\<lparr>ui_groups := (ui_groups u)[ui_menu u := (nm, es, (i + n) mod length es)]\<rparr>"
proof (induction n arbitrary: u i)
  case 0
  then have "(ui_groups u)[ui_menu u := (nm, es, i)] = ui_groups u" by (simp add: list_update_same_conv)
  then show ?case using 0 by simp
next
  case (Suc n)
  have m: "move_entry 1 u = u\<lparr>ui_groups := (ui_groups u)[ui_menu u := (nm, es, (i + 1) mod length es)]\<rparr>"
    using Suc.prems by (auto simp: move_entry_def ring_target_def)
  have "(i + 1) mod length es < length es" using Suc.prems(3) by (intro mod_less_divisor) auto
  then show ?case
    using Suc.IH [of "move_entry 1 u" "(i + 1) mod length es"] Suc.prems(1)
    by (simp add: m mod_simps add.commute add.left_commute)
qed

lemma reaches:
  assumes "ui_menu u < length (ui_groups u)" and "a < length (ui_groups u)" and "ui_groups u ! a = (nm, es, i)"
    and "i < length es" and "b < length es" and "me_select (h (es ! b)) \<noteq> 0"
  shows "\<exists>ks. ui_called h ks u = [(me_select (h (es ! b)), me_priv (h (es ! b)))]"
proof -
  let ?r = "replicate (a + length (ui_groups u) - ui_menu u) Key_right" and ?d = "replicate (b + length es - i) Key_down"
  let ?u1 = "u\<lparr>ui_menu := a\<rparr>"
  have r: "fold ui_step ?r u = ?u1" using rights [OF assms(1)] assms(1,2) by simp
  have "ui_menu ?u1 < length (ui_groups ?u1)" "ui_groups ?u1 ! ui_menu ?u1 = (nm, es, i)" using assms(2,3) by simp_all
  from downs [OF this assms(4), of "b + length es - i"]
  have d: "fold ui_step ?d ?u1 = ?u1\<lparr>ui_groups := (ui_groups u)[a := (nm, es, b)]\<rparr>"
    using assms(4,5) by simp
  have "ui_called h (?r @ ?d @ [Key_set]) u = ui_called h [Key_set] (fold ui_step ?d ?u1)"
    unfolding ui_called_append r by (simp add: ui_called_none)
  also have "\<dots> = [(me_select (h (es ! b)), me_priv (h (es ! b)))]"
    unfolding d using assms(2,5,6) by (auto simp: ui_calls_def ui_entries_def ui_cursor_def)
  finally show ?thesis by blast
qed

text \<open>Menus that represent a table show a cursor somewhere in it.\<close>

lemma represents_shows:
  assumes rep: "represents ms t s" and "t \<noteq> []"
  shows "\<exists>u. ui_shows ms u s \<and> map (\<lambda>g. (fst g, fst (snd g))) (ui_groups u) = t"
proof -
  have "list_all2 (group_at s) ms t" using rep by (simp add: represents_def)
  then have "\<exists>gs. list_all2 (group_ui s) ms gs \<and> map (\<lambda>g. (fst g, fst (snd g))) gs = t"
  proof (induction ms t rule: list_all2_induct)
    case (Cons m ms g t)
    obtain i where "group_ui s m (fst g, snd g, i)"
      using Cons.hyps(1) by (auto simp: group_at_def group_ui_def split: if_splits)
    moreover obtain gs where "list_all2 (group_ui s) ms gs" "map (\<lambda>g. (fst g, fst (snd g))) gs = t" using Cons.IH by blast
    ultimately show ?case by (intro exI [of _ "(fst g, snd g, i) # gs"]) simp
  qed simp
  then obtain gs where gs: "list_all2 (group_ui s) ms gs" "map (\<lambda>g. (fst g, fst (snd g))) gs = t" by blast
  have ms: "ms \<noteq> []" using gs assms(2) by (cases ms) auto
  then obtain i where "menus_ring ms i s"
    using rep by (auto simp: represents_def one_selected_def menu_list_def menus_ring_def node_at_def)
  moreover have "map snd t = map (\<lambda>g. fst (snd g)) gs" unfolding gs(2) [symmetric] by simp
  then have "distinct (concat (map (\<lambda>g. fst (snd g)) gs))" using rep by (simp add: represents_def)
  ultimately show ?thesis using gs
    by (intro exI [of _ "\<lparr>ui_menu = i, ui_groups = gs\<rparr>"]) (simp add: ui_shows_def)
qed

lemma represented_reachable:
  assumes rep: "represents ms t s" and gr: "granted orc" and a: "(nm, es) \<in> set t" "e \<in> set es"
    and sel: "me_select (entry_heap s e) \<noteq> 0"
  shows "\<exists>evs s' es'. press_keys orc fs evs s = Some s' \<and> trace s' = trace s @ es'
    \<and> calls es' = [(me_select (entry_heap s e), me_priv (entry_heap s e))]"
proof -
  obtain u where u: "ui_shows ms u s" "map (\<lambda>g. (fst g, fst (snd g))) (ui_groups u) = t"
    using represents_shows [OF rep] a(1) by force
  note d = ui_showsD [OF u(1)]
  obtain g where "g \<in> set (ui_groups u)" "fst g = nm" "fst (snd g) = es" using a(1) u(2) by force
  then obtain k i where k: "k < length (ui_groups u)" "ui_groups u ! k = (nm, es, i)"
    by (metis in_set_conv_nth prod.collapse)
  have "group_ui s (ms ! k) (nm, es, i)" using d(3,4) k by metis
  then have i: "i < length es" using a(2) by (auto simp: group_ui_def entries_ring_def split: if_splits)
  obtain b where b: "b < length es" "es ! b = e" using a(2) by (auto simp: in_set_conv_nth)
  have "ui_menu u < length (ui_groups u)" using d(2,3) by simp
  from reaches [OF this k i b(1), of "entry_heap s"] sel obtain ks where
    ks: "ui_called (entry_heap s) ks u = [(me_select (entry_heap s e), me_priv (entry_heap s e))]"
    unfolding b(2) by blast
  have "map event_key (map (\<lambda>k. hd (key_events k)) ks) = map Some ks" by (simp add: event_key_hd)
  from session_shows [OF this gr u(1), of fs] show ?thesis unfolding ks seen_def by blast
qed

subsection \<open>The property\<close>


definition two_menus_ui :: ui where
  "two_menus_ui = \<lparr>ui_menu = 0, ui_groups = [(''Audio'', [0x300, 0x318], 0), (''Video'', [], 0)]\<rparr>"

lemma two_menus_shows: "ui_shows [0x100, 0x200] two_menus_ui two_menus"
  using two_menus_ring two_entries_ring by (simp add: ui_shows_def two_menus_ui_def group_ui_def) (simp add: two_menus_def)


end
