(* ===== verification/Startup.thy ===== *)
theory Startup
  imports MenuUI Bootflags Ptp Script Spotmeter Zebra Audio Focus Bracket Timecode
begin

text \<open>
  The features of the program and the menus they register, composed: whatever order the tasks and
  init functions of the features run in, after startup the menus represent the table of their
  registrations.
\<close>

subsection \<open>The features\<close>

datatype feature =
  Menu_feature | Audio_feature | Zebra_feature | Spotmeter_feature | Bracket_feature | Focus_feature
| Timecode_feature | Debug_feature | Boot_feature | Ptp_feature | Script_feature

definition features_list :: "feature list" where
  "features_list = [Menu_feature, Audio_feature, Zebra_feature, Spotmeter_feature, Bracket_feature, Focus_feature,
     Timecode_feature, Debug_feature, Boot_feature, Ptp_feature, Script_feature]"

lemma all_features: "UNIV = set features_list"
proof -
  have "f \<in> set features_list" for f by (cases f) (simp_all add: features_list_def)
  then show ?thesis by auto
qed

instantiation feature :: enum
begin

definition enum_feature :: "feature list" where
  "enum_feature = features_list"

definition enum_all_feature :: "(feature \<Rightarrow> bool) \<Rightarrow> bool" where
  "enum_all_feature P \<longleftrightarrow> list_all P features_list"

definition enum_ex_feature :: "(feature \<Rightarrow> bool) \<Rightarrow> bool" where
  "enum_ex_feature P \<longleftrightarrow> list_ex P features_list"

instance
proof
  show "(UNIV :: feature set) = set enum_class.enum" by (simp only: enum_feature_def all_features)
  show "distinct (enum_class.enum :: feature list)" by (simp add: enum_feature_def features_list_def)
  show "enum_class.enum_all P = Ball UNIV P" "enum_class.enum_ex P = Bex UNIV P" for P :: "feature \<Rightarrow> bool"
    unfolding enum_all_feature_def enum_ex_feature_def list_all_iff list_ex_iff all_features by simp_all
qed

end

text \<open>What the linker decides: the addresses of the arrays of entries, of the property handler of the
  debugger and of the interpreter's library, and the handlers of PTP operations.\<close>

record layout =
  entries_of :: "feature \<Rightarrow> addr"
  debug_handler :: addr
  usrlib :: addr
  ptp_section :: "ptp_handler list"

fun start_feature ::
  "answers \<Rightarrow> layout \<Rightarrow> feature \<Rightarrow> 'a bootflags_state_scheme \<Rightarrow> 'a bootflags_state_scheme option" where
  "start_feature orc l Menu_feature s = menu_task_start orc (entries_of l Menu_feature) s"
| "start_feature orc l Audio_feature s = audio_menus_add orc (entries_of l Audio_feature) s"
| "start_feature orc l Zebra_feature s = zebra_menus_add orc (entries_of l Zebra_feature) s"
| "start_feature orc l Spotmeter_feature s = spotmeter_start orc (entries_of l Spotmeter_feature) s"
| "start_feature orc l Bracket_feature s = bracket_task_init orc (entries_of l Bracket_feature) s"
| "start_feature orc l Focus_feature s = focus_init orc (entries_of l Focus_feature) s"
| "start_feature orc l Timecode_feature s = tc_task_start orc (entries_of l Timecode_feature) s"
| "start_feature orc l Debug_feature s = debug_init orc (debug_handler l) (entries_of l Debug_feature) s"
| "start_feature orc l Boot_feature s = bootflags_init orc (entries_of l Boot_feature) s"
| "start_feature orc l Ptp_feature s = ptp_init orc (ptp_section l) (entries_of l Ptp_feature) s"
| "start_feature orc l Script_feature s = script_init orc (entries_of l Script_feature) (usrlib l) s"

fun start_features ::
  "answers \<Rightarrow> layout \<Rightarrow> feature list \<Rightarrow> 'a bootflags_state_scheme \<Rightarrow> 'a bootflags_state_scheme option" where
  "start_features orc l [] s = Some s"
| "start_features orc l (f # fs) s = Option.bind (start_feature orc l f s) (start_features orc l fs)"

text \<open>The menu and the table of entries of each.\<close>

fun feature_menu :: "feature \<Rightarrow> string" where
  "feature_menu Menu_feature = ''Debug''"
| "feature_menu Audio_feature = ''Audio''"
| "feature_menu Zebra_feature = ''Video''"
| "feature_menu Spotmeter_feature = ''Video''"
| "feature_menu Bracket_feature = ''Brack''"
| "feature_menu Focus_feature = ''Focus''"
| "feature_menu Timecode_feature = ''Debug''"
| "feature_menu Debug_feature = ''Debug''"
| "feature_menu Boot_feature = ''Boot''"
| "feature_menu Ptp_feature = ''PTP''"
| "feature_menu Script_feature = ''Script''"

fun feature_table :: "feature \<Rightarrow> entry_init list" where
  "feature_table Menu_feature = draw_prop_menus"
| "feature_table Audio_feature = audio_menu_table"
| "feature_table Zebra_feature = zebra_menus"
| "feature_table Spotmeter_feature = spotmeter_menus"
| "feature_table Bracket_feature = bracket_menu"
| "feature_table Focus_feature = focus_menu"
| "feature_table Timecode_feature = timecode_menu"
| "feature_table Debug_feature = debug_menus"
| "feature_table Boot_feature = boot_menus"
| "feature_table Ptp_feature = ptp_menus"
| "feature_table Script_feature = file_menus"

definition feature_size :: "feature \<Rightarrow> nat" where
  "feature_size f = length (feature_table f)"

lemma feature_size_simps [simp]:
  "feature_size Menu_feature = 1" "feature_size Audio_feature = 7" "feature_size Zebra_feature = 7"
  "feature_size Spotmeter_feature = 2" "feature_size Bracket_feature = 3" "feature_size Focus_feature = 6"
  "feature_size Timecode_feature = 1" "feature_size Debug_feature = 8" "feature_size Boot_feature = 4"
  "feature_size Ptp_feature = 1" "feature_size Script_feature = 2"
  by (simp_all add: feature_size_def menu_tables)

definition feature_entries :: "layout \<Rightarrow> feature \<Rightarrow> addr list" where
  "feature_entries l f = map (entry_addr (entries_of l f)) [0..<feature_size f]"

definition feature_cost :: "layout \<Rightarrow> feature \<Rightarrow> nat" where
  "feature_cost l f = (if f = Ptp_feature then length (ptp_section l) else 2)"

subsection \<open>Each feature keeps the contract\<close>

lemma featureI:
  assumes "\<And>s. start s = map_option after (menu_add orc nm new n (before s))"
    and "aside cb before" "aside ca after" "cb + ca \<le> cost" "plain_name nm" "0 < n"
  shows "menu_feature start orc nm new n cost"
  by unfold_locales (use assms in blast)+

lemma option_map_id: "x = map_option (emits []) x"
  by (cases x) simp_all

lemma no_malloc_simps [simp]:
  "no_malloc []" "no_malloc (e # es) \<longleftrightarrow> (\<forall>n. e \<noteq> Sys (Malloc n)) \<and> no_malloc es"
  "no_malloc (map (\<lambda>h. Sys (Ptp_register_handler (pt_id h) (pt_handler h) (pt_priv h))) hs)"
  by (auto simp: no_malloc_def)

lemma plain_feature: "plain_name (feature_menu f)"
  by (cases f) (simp_all add: plain_name_def NUL_def)

text \<open>Most features only make a fixed list of calls before and after.\<close>

lemma feature_emits:
  assumes "\<And>s :: 'a bootflags_state_scheme. start_feature orc l f s =
      map_option (emits es') (menu_add orc (feature_menu f) (entries_of l f) (feature_size f) (emits es s))"
    and "no_malloc es" "no_malloc es'" "length es + length es' \<le> feature_cost l f"
  shows "menu_feature (start_feature orc l f :: 'a bootflags_state_scheme \<Rightarrow> _) orc (feature_menu f) (entries_of l f)
    (feature_size f) (feature_cost l f)"
proof (rule featureI [where before = "emits es" and after = "emits es'" and cb = "length es" and ca = "length es'"])
  show "aside (length es) (emits es)" "aside (length es') (emits es')" by (rule aside_emits, fact)+
  show "0 < feature_size f" by (cases f) simp_all
qed (use assms plain_feature in simp_all)

lemma feature_contract:
  "menu_feature (start_feature orc l f :: 'a bootflags_state_scheme \<Rightarrow> _) orc (feature_menu f) (entries_of l f) (feature_size f) (feature_cost l f)"
proof (cases f)
  case Menu_feature
  show ?thesis unfolding Menu_feature
    by (rule feature_emits [where es = "[]" and es' = "[]"]) (simp_all add: menu_task_start_def flip: option_map_id)
next
  case Audio_feature
  show ?thesis unfolding Audio_feature
    by (rule feature_emits [where es = "[]" and es' = "[]"]) (simp_all add: audio_menus_add_def flip: option_map_id)
next
  case Zebra_feature
  show ?thesis unfolding Zebra_feature
    by (rule feature_emits [where es = "[]" and es' = "[]"]) (simp_all add: zebra_menus_add_def flip: option_map_id)
next
  case Spotmeter_feature
  show ?thesis unfolding Spotmeter_feature
    by (rule feature_emits [where es = "[]" and es' = "[Sys (Msleep 1000)]"])
      (simp_all add: spotmeter_start_def feature_cost_def cong: map_option_cong)
next
  case Bracket_feature
  show ?thesis unfolding Bracket_feature
    by (rule feature_emits [where es = "[Sem (Create_named_semaphore Bracket_sem ''bracket_sem'' 0)]" and es' = "[]"])
      (simp_all add: bracket_task_init_def feature_cost_def flip: option_map_id)
next
  case Focus_feature
  show ?thesis unfolding Focus_feature
    by (rule feature_emits [where es = "[Sem (Create_named_semaphore Focus_stack_sem ''focus_stack_sem'' 0),
          Sem (Create_named_semaphore Focus_task_sem ''focus_task_sem'' 1)]" and es' = "[]"])
      (simp_all add: focus_init_def feature_cost_def flip: option_map_id)
next
  case Timecode_feature
  show ?thesis unfolding Timecode_feature
    by (rule feature_emits [where es = "[Sem (Create_named_semaphore Timecode_sem ''timecode'' 0)]" and es' = "[]"])
      (simp_all add: tc_task_start_def feature_cost_def flip: option_map_id)
next
  case Ptp_feature
  show ?thesis unfolding Ptp_feature
    by (rule feature_emits [where es = "map (\<lambda>h. Sys (Ptp_register_handler (pt_id h) (pt_handler h) (pt_priv h))) (ptp_section l)" and es' = "[]"])
      (simp_all add: ptp_init_def feature_cost_def flip: option_map_id)
next
  case Script_feature
  show ?thesis unfolding Script_feature
    by (rule feature_emits [where es = "[]" and es' = "[Sys (Python ''pm_init'' (usrlib l)), Sys (Python ''pm_run main'' 0)]"])
      (simp_all add: script_init_def feature_cost_def)
next
  case Debug_feature
  let ?before = "\<lambda>s :: 'a bootflags_state_scheme. emit (Prop (Prop_register_slave property_list (debug_handler l))) (s\<lparr>draw_prop := 0\<rparr>)"
  have "aside 1 ?before"
    by (rule asideI) (simp_all add: same_menus_def emit_def)
  then show ?thesis unfolding Debug_feature
    by (intro featureI [where before = ?before and after = "emits []" and cb = 1 and ca = 0])
      (simp_all add: debug_init_def Let_def feature_cost_def plain_name_def NUL_def aside_emits [of "[]", simplified] flip: option_map_id)
next
  case Boot_feature
  let ?after = "\<lambda>s :: 'a bootflags_state_scheme. if disable_powersave s \<noteq> 0 then emit (Prop (Prop_request_icu_auto_poweroff EM_PROHIBIT)) s else s"
  have "aside 1 ?after"
    by (rule asideI) (simp_all add: same_menus_def emit_def)
  then show ?thesis unfolding Boot_feature
    by (intro featureI [where before = "emits []" and after = ?after and cb = 0 and ca = 1])
      (simp_all add: bootflags_init_def feature_cost_def plain_name_def NUL_def aside_emits [of "[]", simplified])
qed

interpretation features: menu_feature "start_feature orc l f" orc "feature_menu f" "entries_of l f" "feature_size f" "feature_cost l f"
  for orc l f
  by (rule feature_contract)

subsection \<open>The menus after startup\<close>

definition register :: "layout \<Rightarrow> feature list \<Rightarrow> menu_table \<Rightarrow> menu_table" where
  "register l fs t = fold (\<lambda>f. add_group (feature_menu f) (feature_entries l f)) fs t"

definition budget :: "layout \<Rightarrow> feature list \<Rightarrow> nat" where
  "budget l fs = sum_list (map (\<lambda>f. feature_cost l f + 5) fs)"

lemma start_features_code: "start_features orc l fs s = Some s' \<Longrightarrow> same_code s s'"
proof (induction fs arbitrary: s)
  case (Cons f fs)
  then obtain s1 where s1: "start_feature orc l f s = Some s1" "start_features orc l fs s1 = Some s'"
    by (cases "start_feature orc l f s") auto
  show ?case using features.keeps_code [OF s1(1)] Cons.IH [OF s1(2)] by (rule same_code_trans)
qed simp

lemma start_features_table:
  "table_state orc ms t s \<Longrightarrow> heap_fresh orc N \<Longrightarrow> length (trace s) + budget l fs < N \<Longrightarrow>
   \<forall>f \<in> set fs. \<forall>j < feature_size f. entry_addr (entries_of l f) j \<noteq> 0 \<Longrightarrow>
   distinct (concat (map snd t) @ concat (map (feature_entries l) fs)) \<Longrightarrow>
   \<exists>s' ms'. start_features orc l fs s = Some s' \<and> table_state orc ms' (register l fs t) s'"
proof (induction fs arbitrary: ms t s)
  case Nil
  then show ?case by (auto simp: register_def)
next
  case (Cons f fs)
  let ?t = "add_group (feature_menu f) (feature_entries l f) t"
  have l: "length (trace s) + feature_cost l f + 1 < N" using Cons.prems(3) by (simp add: budget_def)
  have d0: "distinct (concat (map snd t) @ feature_entries l f)" using Cons.prems(5) by auto
  obtain s1 ms1 where s1: "start_feature orc l f s = Some s1" "table_state orc ms1 ?t s1"
    "length (trace s1) \<le> length (trace s) + feature_cost l f + 5"
    using features.registers [OF Cons.prems(1,2) l _ d0 [unfolded feature_entries_def]] Cons.prems(4)
    unfolding feature_entries_def by auto
  have "distinct (concat (map snd ?t))" using s1(2) by (simp add: table_state_def represents_def)
  then have d: "distinct (concat (map snd ?t) @ concat (map (feature_entries l) fs))"
    using Cons.prems(5) entries_of_add_group [of "feature_menu f" "feature_entries l f" t] by auto
  have "length (trace s1) + budget l fs < N" using Cons.prems(3) s1(3) by (simp add: budget_def)
  from Cons.IH [OF s1(2) Cons.prems(2) this _ d] Cons.prems(4) s1(1) show ?case by (auto simp: register_def)
qed

text \<open>C14: Startup builds the menus the features ask for: with an allocator that returns fresh memory
  and arrays of entries that do not overlap, creating the first menus and then starting any
  features in any order succeeds, and the linked menus then represent the table in which every
  feature's entries were appended to the group of its menu.\<close>

theorem startup_menus:
  assumes "heap_fresh orc N" and "length (trace s) + budget l fs + 17 < N"
    and "\<forall>f \<in> set fs. \<forall>j < feature_size f. entry_addr (entries_of l f) j \<noteq> 0"
    and "distinct (concat (map (feature_entries l) fs))"
  shows "\<exists>s' ms. Option.bind (menu_init orc s) (start_features orc l fs) = Some s'
    \<and> represents ms (register l fs start_table) s'"
proof -
  obtain s1 ms where s1: "menu_init orc s = Some s1" "table_state orc ms start_table s1" "length (trace s1) = length (trace s) + 17"
    using menu_init_table [OF assms(1), of s] assms(2) by auto
  have "\<exists>s' ms'. start_features orc l fs s1 = Some s' \<and> table_state orc ms' (register l fs start_table) s'"
    using assms s1(3) by (intro start_features_table [OF s1(2) assms(1)]) (simp_all add: start_table_def)
  then show ?thesis using s1(1) by (auto simp: table_state_def)
qed

lemma in_add_group: "(nm, es) \<in> set t \<Longrightarrow> \<exists>es'. (nm, es @ es') \<in> set (add_group nm' as t)"
proof (induction nm' as t rule: add_group.induct)
  case (2 nm' as nm1 es1 t)
  then show ?case by (cases "nm1 = nm'") (auto intro: exI [of _ "[]"])
qed simp

lemma new_in_group: "\<exists>es. (nm, es @ as) \<in> set (add_group nm as t)"
  by (induction nm as t rule: add_group.induct) (auto intro: exI [of _ "[]"])

lemma registered:
  "f \<in> set fs \<or> (\<exists>xs ys. (feature_menu f, xs @ feature_entries l f @ ys) \<in> set t) \<Longrightarrow>
   \<exists>xs ys. (feature_menu f, xs @ feature_entries l f @ ys) \<in> set (register l fs t)"
proof (induction fs arbitrary: t)
  case (Cons f' fs)
  let ?t = "add_group (feature_menu f') (feature_entries l f') t"
  have "f \<in> set fs \<or> (\<exists>xs ys. (feature_menu f, xs @ feature_entries l f @ ys) \<in> set ?t)"
  proof (cases "f \<in> set fs")
    case False
    show ?thesis
    proof (cases "f' = f")
      case True
      then show ?thesis using new_in_group [of "feature_menu f" "feature_entries l f" t] by (metis append_Nil2)
    next
      case f': False
      then obtain xs ys where "(feature_menu f, xs @ feature_entries l f @ ys) \<in> set t" using Cons.prems False by auto
      then show ?thesis using in_add_group [of "feature_menu f" "xs @ feature_entries l f @ ys" t] by fastforce
    qed
  qed simp
  from Cons.IH [OF this] show ?case by (simp add: register_def)
qed (simp add: register_def)

text \<open>C1: After startup every entry of every feature is in reach: for each entry of the features' tables
  that has a select function, there are key events after which the menu has called exactly this
  function, once, with exactly the argument the table gives it, and nothing else, whatever other
  features were started and in whatever order.\<close>

theorem startup_reaches_entries:
  assumes "heap_fresh orc N" and "length (trace s) + budget l fs + 17 < N" and "granted orc"
    and "\<forall>f \<in> set fs. \<forall>j < feature_size f. entry_addr (entries_of l f) j \<noteq> 0"
    and "distinct (concat (map (feature_entries l) fs))"
    and "linked_symbols lk" and "\<forall>f \<in> set fs. loaded lk (feature_table f) (feature_entries l f) s"
    and "f \<in> set fs" and "j < feature_size f" and "ei_select (feature_table f ! j) = Some g"
  shows "\<exists>s1 evs s2 es. Option.bind (menu_init orc s) (start_features orc l fs) = Some s1
    \<and> press_keys orc fonts evs s1 = Some s2 \<and> trace s2 = trace s1 @ es
    \<and> calls es = [(lk_symbol lk g, priv_addr lk (ei_priv (feature_table f ! j)))]"
proof -
  obtain s0 ms where s0: "menu_init orc s = Some s0" "table_state orc ms start_table s0" "length (trace s0) = length (trace s) + 17"
    using menu_init_table [OF assms(1), of s] assms(2) by auto
  have "\<exists>s1 ms'. start_features orc l fs s0 = Some s1 \<and> table_state orc ms' (register l fs start_table) s1"
    using assms(2,4,5) s0(3) by (intro start_features_table [OF s0(2) assms(1)]) (simp_all add: start_table_def)
  then obtain s1 ms1 where s1: "start_features orc l fs s0 = Some s1" "represents ms1 (register l fs start_table) s1"
    by (auto simp: table_state_def)
  have code: "same_code s s1" using same_code_init [OF s0(1)] start_features_code [OF s1(1)] by (rule same_code_trans)
  let ?e = "entry_addr (entries_of l f) j"
  have "loaded lk (feature_table f) (feature_entries l f) s1" using assms(7,8) code by (auto intro: loaded_same)
  then have "code_of (entry_heap s1 ?e) = init_code lk (feature_table f ! j)"
    using loadedD [of lk "feature_table f" "feature_entries l f" s1 j] assms(9)
    by (simp add: feature_entries_def feature_size_def)
  then have e: "me_select (entry_heap s1 ?e) = lk_symbol lk g" "me_priv (entry_heap s1 ?e) = priv_addr lk (ei_priv (feature_table f ! j))"
    using assms(10) by (simp_all add: code_of_def init_code_def fn_addr_def)
  obtain xs ys where g: "(feature_menu f, xs @ feature_entries l f @ ys) \<in> set (register l fs start_table)"
    using registered assms(8) by blast
  have "?e \<in> set (xs @ feature_entries l f @ ys)" using assms(9) by (simp add: feature_entries_def)
  from represented_reachable [OF s1(2) assms(3) g this, of fonts]
  show ?thesis using assms(6) s0(1) s1(1) unfolding e linked_symbols_def by auto
qed

text \<open>A firmware whose allocator hands out the next 64 bytes at every call, and which grants the
  semaphore of the menus.\<close>

definition bump_alloc :: answers where
  "bump_alloc es = (if es \<noteq> [] \<and> last es = Sem (Take_semaphore Menu_sem 100) then 0 else of_nat (0x10000 + 64 * length es))"

lemma bump_alloc_malloc: "bump_alloc (past @ [Sys (Malloc n)]) = of_nat (0x10000 + 64 * Suc (length past))"
  by (simp add: bump_alloc_def)

lemma bump_granted: "granted bump_alloc"
  by (simp add: granted_def bump_alloc_def)

lemma bump_allocated: "set (allocated bump_alloc past es) \<subseteq> (\<lambda>k. of_nat (0x10000 + 64 * k)) ` {length past<..length past + length es}"
proof (induction es arbitrary: past)
  case (Cons e es)
  let ?g = "\<lambda>k. of_nat (0x10000 + 64 * k) :: u32" and ?m = "length past + length (e # es)"
  have "set (allocated bump_alloc past (e # es)) \<subseteq> insert (?g (Suc (length past))) (set (allocated bump_alloc (past @ [e]) es))"
    using bump_alloc_malloc [of past] by (auto split: fw_event.splits sys_call.splits)
  moreover have "set (allocated bump_alloc (past @ [e]) es) \<subseteq> ?g ` {Suc (length past)<..?m}"
    using Cons [of "past @ [e]"] by (simp only: length_append_singleton list.size add_Suc_right add_Suc add_0_right)
  moreover have "{Suc (length past)<..?m} \<subseteq> {length past<..?m}" "Suc (length past) \<in> {length past<..?m}" by auto
  ultimately show ?case by blast
qed simp

lemma bump_fresh: "heap_fresh bump_alloc 1000000"
  unfolding heap_fresh_def
proof (intro allI impI)
  fix es :: "fw_event list" and n assume es: "length es < 1000000"
  let ?g = "\<lambda>k. of_nat (0x10000 + 64 * k) :: u32"
  have u: "unat (?g k) = 0x10000 + 64 * k" if "k \<le> length es + 1" for k
    by (rule unat_of_nat_u32) (use that es in simp)
  have "?g (length es + 1) \<noteq> ?g k" if "k \<le> length es" for k
  proof
    assume "?g (length es + 1) = ?g k"
    then have "unat (?g (length es + 1)) = unat (?g k)" by (rule arg_cong)
    also have "\<dots> = 0x10000 + 64 * k" by (rule u) (use that in simp)
    also have "unat (?g (length es + 1)) = 0x10000 + 64 * (length es + 1)" by (rule u) simp
    finally show False using that by simp
  qed
  moreover have "?g (length es + 1) \<noteq> 0" using u [of "length es + 1"] by (metis add_is_0 order_refl unsigned_0 zero_neq_numeral)
  moreover have "bump_alloc (es @ [Sys (Malloc n)]) = ?g (length es + 1)" by (simp only: bump_alloc_malloc Suc_eq_plus1)
  ultimately show "bump_alloc (es @ [Sys (Malloc n)]) \<notin> insert 0 (set (allocated bump_alloc [] es))"
    using bump_allocated [of "[]" es] by fastforce
qed

definition sample_layout :: layout where
  "sample_layout = \<lparr>entries_of = (\<lambda>f. if f = Debug_feature then 0x1000 else if f = Zebra_feature then 0x2000
      else if f = Spotmeter_feature then 0x3000 else 0x4000), debug_handler = 0x500, usrlib = 0x600, ptp_section = []\<rparr>"

definition cold_state :: "unit bootflags_state_scheme" where
  "cold_state = \<lparr>trace = [], menus = 0, menu_heap = \<lambda>_. undefined, entry_heap = \<lambda>_. undefined, menu_damage = 0, menu_hidden = 0,
     menu_timeout = 0, gui_menu_task = 0, draw_event = 0, menu_timeout_time = 0, qscale = 0, efic_temp = 0, draw_prop = 0,
     debug_token = 0, debug_y = 0, timed_dump = 0, timed_start = 0, cam_mem = \<lambda>_. 0, disable_powersave = 1\<rparr>"

theorem startup_menus_witness:
  "\<exists>s' ms. Option.bind (menu_init bump_alloc cold_state) (start_features bump_alloc sample_layout [Zebra_feature, Debug_feature, Spotmeter_feature, Ptp_feature]) = Some s'
    \<and> represents ms [(''Audio'', []), (''Video'', feature_entries sample_layout Zebra_feature @ feature_entries sample_layout Spotmeter_feature),
        (''Brack'', []), (''Focus'', []), (''Debug'', feature_entries sample_layout Debug_feature),
        (''PTP'', feature_entries sample_layout Ptp_feature)] s'"
proof -
  let ?fs = "[Zebra_feature, Debug_feature, Spotmeter_feature, Ptp_feature]"
  have es: "feature_entries sample_layout Zebra_feature = [0x2000, 0x2018, 0x2030, 0x2048, 0x2060, 0x2078, 0x2090]"
    "feature_entries sample_layout Debug_feature = [0x1000, 0x1018, 0x1030, 0x1048, 0x1060, 0x1078, 0x1090, 0x10A8]"
    "feature_entries sample_layout Spotmeter_feature = [0x3000, 0x3018]" "feature_entries sample_layout Ptp_feature = [0x4000]"
    by (simp_all add: feature_entries_def sample_layout_def entry_addr_def sizeof_menu_entry_def upt_rec)
  have nz: "\<forall>f \<in> set ?fs. \<forall>j < feature_size f. entry_addr (entries_of sample_layout f) j \<noteq> 0"
  proof -
    have "\<forall>a \<in> set (concat (map (feature_entries sample_layout) ?fs)). a \<noteq> 0" by (simp add: es)
    then show ?thesis unfolding feature_entries_def by auto
  qed
  have d: "distinct (concat (map (feature_entries sample_layout) ?fs))" by (simp add: es)
  have "register sample_layout ?fs start_table = [(''Audio'', []),
      (''Video'', feature_entries sample_layout Zebra_feature @ feature_entries sample_layout Spotmeter_feature),
      (''Brack'', []), (''Focus'', []), (''Debug'', feature_entries sample_layout Debug_feature),
      (''PTP'', feature_entries sample_layout Ptp_feature)]"
    by (simp add: register_def start_table_def)
  moreover have "length (trace cold_state) + budget sample_layout ?fs + 17 < 1000000"
    by (simp add: budget_def feature_cost_def sample_layout_def cold_state_def)
  ultimately show ?thesis
    using startup_menus [OF bump_fresh _ nz d, of cold_state] by (simp only: simp_thms)
qed

text \<open>The initial contents of the entries in memory.\<close>

definition entry_image :: "linkage \<Rightarrow> entry_init \<Rightarrow> menu_entry" where
  "entry_image lk i = \<lparr>me_next = 0, me_prev = 0, me_selected = 0, me_priv = priv_addr lk (ei_priv i),
     me_select = fn_addr lk (ei_select i), me_display = fn_addr lk (ei_display i)\<rparr>"

definition load_tables :: "linkage \<Rightarrow> layout \<Rightarrow> feature list \<Rightarrow> addr \<Rightarrow> menu_entry" where
  "load_tables lk l fs a = the (map_of (concat (map (\<lambda>f. zip (feature_entries l f) (map (entry_image lk) (feature_table f))) fs)) a)"

definition sample_linkage :: linkage where
  "sample_linkage = \<lparr>lk_symbol = (\<lambda>x. if x = ''zebra_toggle'' then 0x7000 else if x = ''zebra_level'' then 0x8000 else 0x9000),
     lk_text = (\<lambda>_. 0xA000)\<rparr>"

theorem startup_reaches_entries_witness:
  "\<exists>s1 evs s2 es. Option.bind (menu_init bump_alloc (cold_state\<lparr>entry_heap := load_tables sample_linkage sample_layout [Spotmeter_feature, Zebra_feature]\<rparr>))
      (start_features bump_alloc sample_layout [Spotmeter_feature, Zebra_feature]) = Some s1
    \<and> press_keys bump_alloc sample_fonts evs s1 = Some s2 \<and> trace s2 = trace s1 @ es \<and> calls es = [(0x7000, 0x8000)]"
proof -
  let ?fs = "[Spotmeter_feature, Zebra_feature]"
  let ?s = "cold_state\<lparr>entry_heap := load_tables sample_linkage sample_layout ?fs\<rparr>"
  have es: "feature_entries sample_layout Zebra_feature = [0x2000, 0x2018, 0x2030, 0x2048, 0x2060, 0x2078, 0x2090]"
    "feature_entries sample_layout Spotmeter_feature = [0x3000, 0x3018]"
    by (simp_all add: feature_entries_def sample_layout_def entry_addr_def sizeof_menu_entry_def upt_rec)
  have nz: "\<forall>f \<in> set ?fs. \<forall>j < feature_size f. entry_addr (entries_of sample_layout f) j \<noteq> 0"
  proof -
    have "\<forall>a \<in> set (concat (map (feature_entries sample_layout) ?fs)). a \<noteq> 0" by (simp add: es)
    then show ?thesis unfolding feature_entries_def by auto
  qed
  have d: "distinct (concat (map (feature_entries sample_layout) ?fs))" by (simp add: es)
  have ld: "\<forall>f \<in> set ?fs. loaded sample_linkage (feature_table f) (feature_entries sample_layout f) ?s"
    by (simp add: loaded_def es load_tables_def entry_image_def code_of_def init_code_def zebra_menus_def spotmeter_menus_def)
  have b: "length (trace ?s) + budget sample_layout ?fs + 17 < 1000000"
    by (simp add: budget_def feature_cost_def sample_layout_def cold_state_def)
  have lk: "linked_symbols sample_linkage" by (simp add: linked_symbols_def sample_linkage_def)
  have "ei_select (feature_table Zebra_feature ! 1) = Some ''zebra_toggle''" by (simp add: zebra_menus_def)
  from startup_reaches_entries [OF bump_fresh b bump_granted nz d lk ld _ _ this, of sample_fonts]
  show ?thesis by (simp add: sample_linkage_def zebra_menus_def)
qed

end
