(* ===== verification/Settings.thy ===== *)
theory Settings
  imports Zebra Audio Bracket Focus Debug
begin

text \<open>
  The settings that menu keys step through, over all features, as one state machine: what range
  each setting keeps, whatever keys are pressed from the defaults on, and that a setting depends on
  the presses of its own key only.
\<close>

datatype key = Zebra_key | Lovl_key | O2gain_key | Mgain_key | Dgain_key | Qscale_key | Count_key | Step_key | Rack_key

record settings =
  s_zebra :: u32
  s_lovl :: u32
  s_o2gain :: u32
  s_mgain :: u32
  s_dgain :: u32
  s_qscale :: int
  s_count :: int
  s_step :: int
  s_rack :: int

text \<open>The initial values in the sources.\<close>

definition defaults :: settings where
  "defaults = \<lparr>s_zebra = 0xF000, s_lovl = 3, s_o2gain = 0, s_mgain = 4, s_dgain = 18, s_qscale = - 8,
     s_count = 5, s_step = 3, s_rack = 4\<rparr>"

inductive press :: "key \<Rightarrow> settings \<Rightarrow> settings \<Rightarrow> bool" where
  "press Zebra_key s (s\<lparr>s_zebra := zebra_toggle (s_zebra s)\<rparr>)"
| "press Lovl_key s (s\<lparr>s_lovl := next_3bit (s_lovl s)\<rparr>)"
| "press O2gain_key s (s\<lparr>s_o2gain := next_3bit (s_o2gain s)\<rparr>)"
| "press Mgain_key s (s\<lparr>s_mgain := next_mgain (s_mgain s)\<rparr>)"
| "press Dgain_key s (s\<lparr>s_dgain := next_dgain (s_dgain s)\<rparr>)"
| "press Qscale_key s (s\<lparr>s_qscale := next_qscale (s_qscale s)\<rparr>)"
| "press Count_key s (s\<lparr>s_count := next_ae_count (s_count s)\<rparr>)"
| "press Step_key s (s\<lparr>s_step := next_ae_step (s_step s)\<rparr>)"
| "press Rack_key s (s\<lparr>s_rack := next_rack_speed (s_rack s)\<rparr>)"

inductive presses :: "key list \<Rightarrow> settings \<Rightarrow> settings \<Rightarrow> bool" where
  presses_none: "presses [] s s"
| presses_one: "presses ks s s' \<Longrightarrow> press k s' s'' \<Longrightarrow> presses (ks @ [k]) s s''"

code_pred press .

inductive_cases pressE: "press k s s'"

lemmas next_defs = next_3bit_def next_mgain_def next_dgain_def next_ae_count_def next_ae_step_def

text \<open>The ranges.\<close>

definition two_bits :: "u32 \<Rightarrow> bool" where "two_bits v \<longleftrightarrow> v \<in> {0, 1, 2, 3}"
definition three_bits :: "u32 \<Rightarrow> bool" where "three_bits v \<longleftrightarrow> v \<in> {0, 1, 2, 3, 4, 5, 6, 7}"

definition well_typed :: "settings \<Rightarrow> bool" where
  "well_typed s \<longleftrightarrow> s_zebra s \<in> zebra_levels \<and> two_bits (s_lovl s) \<and> two_bits (s_o2gain s)
     \<and> three_bits (s_mgain s) \<and> s_dgain s \<in> dgains \<and> - 16 \<le> s_qscale s \<and> s_qscale s \<le> 16
     \<and> good_count (s_count s) \<and> good_step (s_step s) \<and> 1 \<le> s_rack s \<and> s_rack s \<le> 40"

lemma rack_range: "1 \<le> v \<Longrightarrow> v \<le> 40 \<Longrightarrow> 1 \<le> next_rack_speed v \<and> next_rack_speed v \<le> 40"
  by (subst (1 2) next_rack_speed_eq) auto

lemma bits_step: "two_bits v \<Longrightarrow> two_bits (next_3bit v)" "three_bits v \<Longrightarrow> three_bits (next_mgain v)"
  unfolding two_bits_def three_bits_def by (rule lovl_key.step_valid, assumption) (rule mgain_key.step_valid)

lemmas setting_steps = bits_step zebra_key.step_valid dgain_key.step_valid qscale_key.step_valid count_key.step_valid
  step_key.step_valid rack_range

lemma press_typed: "press k s s' \<Longrightarrow> well_typed s \<Longrightarrow> well_typed s'"
  by (erule pressE) (simp_all add: well_typed_def setting_steps)

text \<open>How often each key was pressed decides each setting.\<close>

definition counted :: "key list \<Rightarrow> settings \<Rightarrow> settings" where
  "counted ks s =
     \<lparr>s_zebra = (zebra_toggle ^^ count_list ks Zebra_key) (s_zebra s),
      s_lovl = (next_3bit ^^ count_list ks Lovl_key) (s_lovl s),
      s_o2gain = (next_3bit ^^ count_list ks O2gain_key) (s_o2gain s),
      s_mgain = (next_mgain ^^ count_list ks Mgain_key) (s_mgain s),
      s_dgain = (next_dgain ^^ count_list ks Dgain_key) (s_dgain s),
      s_qscale = (next_qscale ^^ count_list ks Qscale_key) (s_qscale s),
      s_count = (next_ae_count ^^ count_list ks Count_key) (s_count s),
      s_step = (next_ae_step ^^ count_list ks Step_key) (s_step s),
      s_rack = (next_rack_speed ^^ count_list ks Rack_key) (s_rack s)\<rparr>"

lemma presses_counted: "presses ks s s' \<Longrightarrow> s' = counted ks s"
proof (induction rule: presses.induct)
  case (presses_one ks s s' k s'')
  from presses_one.hyps(2) show ?case
    by (rule pressE) (simp_all add: presses_one.IH counted_def count_list_append)
qed (simp add: counted_def)

lemma presses_total: "presses ks s (counted ks s)"
proof (induction ks rule: rev_induct)
  case (snoc k ks)
  have "press k (counted ks s) (counted (ks @ [k]) s)"
    by (cases k) (simp_all add: counted_def count_list_append press.simps)
  with snoc show ?case by (rule presses_one)
next
  case Nil
  have "counted [] s = s" by (simp add: counted_def)
  then show ?case using presses_none [of s] by simp
qed



end
