(* ===== verification/Persist.thy ===== *)
theory Persist
  imports Config Settings Startup
begin

text \<open>
  The configuration variables of the whole program, composed with the menus that change them and
  the file that keeps them: whichever entries of the menus are selected, however often, what is
  then saved is what the next start reads back.
\<close>

subsection \<open>The configuration variables\<close>

text \<open>Their names in the file, the variables they are kept in and the initial values, file by
  file.\<close>

type_synonym config_decl = "string \<times> symbol \<times> u32"

definition audio_config :: "config_decl list" where
  "audio_config =
    [(''audio.mgain'', ''mgain'', 4), (''audio.dgain.l'', ''dgain_l'', 18), (''audio.dgain.r'', ''dgain_r'', 18),
     (''audio.mic-power'', ''mic_power'', 1), (''audio.lovl'', ''lovl'', 3), (''audio.o2gain'', ''o2gain'', 0),
     (''audio.alc-enable'', ''alc_enable'', 0), (''audio.mic-in'', ''mic_in'', 0), (''audio.loopback'', ''loopback'', 1)]"

definition bootflags_config :: "config_decl list" where
  "bootflags_config = [(''disable-powersave'', ''disable_powersave'', 1)]"

definition draw_prop_config :: "config_decl list" where
  "draw_prop_config = [(''debug.draw-prop'', ''draw_prop'', 0)]"

definition timed_dump_config :: "config_decl list" where
  "timed_dump_config = [(''debug.timed-dump'', ''timed_dump'', 0)]"

definition timed_start_config :: "config_decl list" where
  "timed_start_config = [(''debug.timed-start'', ''timed_start'', 0)]"

definition focus_stack_config :: "config_decl list" where
  "focus_stack_config = [(''focus.step'', ''focus_stack_step'', 100), (''focus.count'', ''focus_stack_count'', 5)]"

definition rack_speed_config :: "config_decl list" where
  "rack_speed_config = [(''focus.rack-speed'', ''focus_rack_speed'', 4)]"

definition liveview_config :: "config_decl list" where
  "liveview_config = [(''reloc.enabled'', ''reloc_enabled'', 0)]"

definition menu_config :: "config_decl list" where
  "menu_config = [(''debug.draw-event'', ''draw_event'', 0), (''debug.menu-timeout'', ''menu_timeout_time'', 15)]"

definition spotmeter_config :: "config_decl list" where
  "spotmeter_config = [(''spotmeter.size'', ''spotmeter_size'', 5), (''spotmeter.draw'', ''spotmeter_draw'', 0)]"

definition zebra_config_ints :: "config_decl list" where
  "zebra_config_ints =
    [(''zebra.draw'', ''zebra_draw'', 1), (''zebra.level'', ''zebra_level'', 0xF000), (''crop.draw'', ''crop_draw'', 1),
     (''edge.draw'', ''edge_draw'', 0), (''enable-liveview'', ''enable_liveview'', 1), (''hist.draw'', ''hist_draw'', 1),
     (''hist.x'', ''hist_x'', 720 - of_nat hist_width - 4), (''hist.y'', ''hist_y'', 100), (''waveform.draw'', ''waveform_draw'', 0),
     (''waveform.x'', ''waveform_x'', 720 - of_nat waveform_width),
     (''waveform.y'', ''waveform_y'', 480 - 50 - of_nat waveform_height), (''waveform.bg'', ''waveform_bg'', 0x26),
     (''timecode.x'', ''timecode_x'', 720 - 160), (''timecode.y'', ''timecode_y'', 32),
     (''timecode.width'', ''timecode_width'', 160), (''timecode.height'', ''timecode_height'', 20),
     (''timecode.warning'', ''timecode_warning'', 120)]"

definition crop_file_config :: config_var where
  "crop_file_config = \<lparr>var_name = ''crop.file'', var_value = CStr ''A:/cropmarks.bmp''\<rparr>"

definition config_ints :: "config_decl list" where
  "config_ints = audio_config @ bootflags_config @ draw_prop_config @ timed_dump_config @ timed_start_config @ focus_stack_config
     @ rack_speed_config @ liveview_config @ menu_config @ spotmeter_config @ zebra_config_ints"

lemmas config_decls = audio_config_def bootflags_config_def draw_prop_config_def timed_dump_config_def timed_start_config_def
  focus_stack_config_def rack_speed_config_def liveview_config_def menu_config_def spotmeter_config_def zebra_config_ints_def

text \<open>The values of the variables, and the section of configuration variables that the program saves
  and loads.\<close>

type_synonym store = "symbol \<Rightarrow> u32"

definition default_store :: store where
  "default_store v = (case map_of (map snd config_ints) v of None \<Rightarrow> 0 | Some d \<Rightarrow> d)"

definition saved_vars :: "store \<Rightarrow> config_var list" where
  "saved_vars st = crop_file_config # map (\<lambda>(nm, v, d). \<lparr>var_name = nm, var_value = CInt (st v)\<rparr>) config_ints"

subsection \<open>What selecting an entry does to them\<close>

text \<open>The variable a select function changes, and how; the others change no configuration variable.\<close>

definition select_effect :: "entry_init \<Rightarrow> (symbol \<times> (u32 \<Rightarrow> u32)) option" where
  "select_effect i = (case (ei_priv i, ei_select i) of
     (Var v, Some f) \<Rightarrow> map_option (Pair v) (map_of
       [(''menu_binary_toggle'', menu_binary_toggle), (''audio_binary_toggle'', c_not), (''audio_3bit_toggle'', next_3bit),
        (''audio_mgain_toggle'', next_mgain), (''audio_dgain_toggle'', next_dgain), (''zebra_toggle'', zebra_toggle)] f)
   | (_, Some f) \<Rightarrow> map_of
       [(''powersave_toggle'', (''disable_powersave'', c_not)), (''toggle_draw_event'', (''draw_event'', c_not)),
        (''draw_prop_select'', (''draw_prop'', c_not)),
        (''focus_rack_speed_increment'', (''focus_rack_speed'', \<lambda>v. word_of_int (next_rack_speed (sint v))))] f
   | _ \<Rightarrow> None)"

definition run_entry :: "entry_init \<Rightarrow> store \<Rightarrow> store" where
  "run_entry i st = (case select_effect i of None \<Rightarrow> st | Some (v, f) \<Rightarrow> st(v := f (st v)))"

definition all_entries :: "entry_init list" where
  "all_entries = concat (map feature_table Enum.enum)"

lemma all_entries_feature: "i \<in> set all_entries \<longleftrightarrow> (\<exists>f. i \<in> set (feature_table f))"
  by (simp add: all_entries_def enum_UNIV)

subsection \<open>The ranges they keep\<close>

definition flag :: "u32 set" where "flag = {0, 1}"

definition rack_range_u32 :: "u32 set" where "rack_range_u32 = {v. 1 \<le> sint v \<and> sint v \<le> 40}"

definition ranges :: "(symbol \<times> u32 set) list" where
  "ranges =
    [(''lovl'', {0, 1, 2, 3}), (''mgain'', {0, 1, 2, 3, 4, 5, 6, 7}), (''dgain_l'', dgains), (''dgain_r'', dgains),
     (''alc_enable'', flag), (''mic_in'', flag), (''loopback'', flag), (''zebra_draw'', flag), (''zebra_level'', zebra_levels),
     (''crop_draw'', flag), (''edge_draw'', flag), (''hist_draw'', flag), (''waveform_draw'', flag), (''enable_liveview'', flag),
     (''spotmeter_draw'', flag), (''focus_dir'', flag), (''focus_rack_speed'', rack_range_u32), (''disable_powersave'', flag),
     (''draw_event'', flag), (''draw_prop'', flag)]"

definition in_ranges :: "store \<Rightarrow> bool" where
  "in_ranges st \<longleftrightarrow> (\<forall>(v, R) \<in> set ranges. st v \<in> R)"

definition keeps :: "symbol \<Rightarrow> (u32 \<Rightarrow> u32) \<Rightarrow> bool" where
  "keeps v f \<longleftrightarrow> (\<exists>R. map_of ranges v = Some R \<and> (\<forall>x \<in> R. f x \<in> R))"

lemma distinct_ranges: "distinct (map fst ranges)"
  by (simp add: ranges_def)

lemma rack_step: "x \<in> rack_range_u32 \<Longrightarrow> word_of_int (next_rack_speed (sint x)) \<in> rack_range_u32"
  using rack_range [of "sint x"] by (auto simp: rack_range_u32_def sint_word_of_int_u32 i32_id)

lemma flag_step: "c_not x \<in> flag" "menu_binary_toggle x \<in> flag"
  using c_not_bool [of x] by (auto simp: flag_def menu_binary_toggle_def)

lemmas range_steps = lovl_key.step_valid mgain_key.step_valid dgain_key.step_valid zebra_key.step_valid rack_step flag_step

text \<open>Every entry of every menu keeps the range of the variable it changes.\<close>

definition entry_keeps :: "entry_init \<Rightarrow> bool" where
  "entry_keeps i \<longleftrightarrow> (case select_effect i of None \<Rightarrow> True | Some (v, f) \<Rightarrow> keeps v f)"

lemma keepsI: "map_of ranges v = Some R \<Longrightarrow> (\<And>x. x \<in> R \<Longrightarrow> f x \<in> R) \<Longrightarrow> keeps v f"
  unfolding keeps_def by blast

lemma keeps_step:
  "keeps ''lovl'' next_3bit" "keeps ''mgain'' next_mgain" "keeps ''dgain_l'' next_dgain" "keeps ''dgain_r'' next_dgain"
  "keeps ''zebra_level'' zebra_toggle" "keeps ''focus_rack_speed'' (\<lambda>v. word_of_int (next_rack_speed (sint v)))"
  by (rule keepsI, simp add: ranges_def, erule range_steps)+

lemma keeps_flag: "map_of ranges v = Some flag \<Longrightarrow> keeps v c_not" "map_of ranges v = Some flag \<Longrightarrow> keeps v menu_binary_toggle"
  unfolding keeps_def using flag_step by blast+

lemma flag_ranges:
  "map_of ranges ''alc_enable'' = Some flag"
  "map_of ranges ''mic_in'' = Some flag"
  "map_of ranges ''loopback'' = Some flag"
  "map_of ranges ''zebra_draw'' = Some flag"
  "map_of ranges ''crop_draw'' = Some flag"
  "map_of ranges ''edge_draw'' = Some flag"
  "map_of ranges ''hist_draw'' = Some flag"
  "map_of ranges ''waveform_draw'' = Some flag"
  "map_of ranges ''enable_liveview'' = Some flag"
  "map_of ranges ''spotmeter_draw'' = Some flag"
  "map_of ranges ''focus_dir'' = Some flag"
  "map_of ranges ''disable_powersave'' = Some flag"
  "map_of ranges ''draw_event'' = Some flag"
  "map_of ranges ''draw_prop'' = Some flag"
  by (simp_all add: ranges_def)

lemma entries_keep: "list_all entry_keeps all_entries"
  by (simp add: all_entries_def enum_feature_def features_list_def menu_tables entry_keeps_def select_effect_def keeps_step keeps_flag flag_ranges)

lemma run_entry_ranges:
  assumes "i \<in> set all_entries" and "in_ranges st"
  shows "in_ranges (run_entry i st)"
proof (cases "select_effect i")
  case None
  then show ?thesis using assms(2) by (simp add: run_entry_def)
next
  case (Some vf)
  obtain v f where vf: "vf = (v, f)" by (cases vf)
  have "entry_keeps i" using entries_keep assms(1) by (simp add: list_all_iff)
  then obtain R where R: "map_of ranges v = Some R" "\<forall>x \<in> R. f x \<in> R"
    using Some vf by (auto simp: entry_keeps_def keeps_def)
  have "(v', R') \<in> set ranges \<Longrightarrow> (st(v := f (st v))) v' \<in> R'" for v' R'
    using R assms(2) map_of_is_SomeI [OF distinct_ranges, of v' R'] by (fastforce simp: in_ranges_def)
  then show ?thesis using Some vf by (auto simp: run_entry_def in_ranges_def)
qed

text \<open>No configuration variable ever becomes negative: those that the menus change stay in their
  range, the others keep their initial value.\<close>

definition sane :: "store \<Rightarrow> bool" where
  "sane st \<longleftrightarrow> in_ranges st \<and> (\<forall>v. v \<notin> fst ` set ranges \<longrightarrow> st v = default_store v)"

lemma run_entry_sane: "i \<in> set all_entries \<Longrightarrow> sane st \<Longrightarrow> sane (run_entry i st)"
proof -
  assume i: "i \<in> set all_entries" and st: "sane st"
  have "entry_keeps i" using entries_keep i by (simp add: list_all_iff)
  then have "case select_effect i of None \<Rightarrow> True | Some (v, f) \<Rightarrow> v \<in> fst ` set ranges"
    by (auto simp: entry_keeps_def keeps_def dest!: map_of_SomeD split: option.splits intro: rev_image_eqI)
  then show ?thesis
    using run_entry_ranges [OF i] st by (auto simp: sane_def run_entry_def split: option.splits)
qed

lemma default_values: "map default_store (map fst ranges) = [3, 4, 18, 18, 0, 0, 1, 1, 0xF000, 1, 0, 1, 0, 1, 0, 0, 4, 1, 0, 0]"
proof -
  have "map fst ranges = [''lovl'', ''mgain'', ''dgain_l'', ''dgain_r'', ''alc_enable'', ''mic_in'', ''loopback'', ''zebra_draw'',
    ''zebra_level'', ''crop_draw'', ''edge_draw'', ''hist_draw'', ''waveform_draw'', ''enable_liveview'', ''spotmeter_draw'',
    ''focus_dir'', ''focus_rack_speed'', ''disable_powersave'', ''draw_event'', ''draw_prop'']"
    by (simp add: ranges_def)
  moreover have "map default_store [''lovl'', ''mgain'', ''dgain_l'', ''dgain_r'', ''alc_enable'', ''mic_in'', ''loopback'', ''zebra_draw'',
    ''zebra_level'', ''crop_draw'', ''edge_draw'', ''hist_draw'', ''waveform_draw'', ''enable_liveview'', ''spotmeter_draw'',
    ''focus_dir'', ''focus_rack_speed'', ''disable_powersave'', ''draw_event'', ''draw_prop'']
    = [3, 4, 18, 18, 0, 0, 1, 1, 0xF000, 1, 0, 1, 0, 1, 0, 0, 4, 1, 0, 0]"
    by code_simp
  ultimately show ?thesis by simp
qed

lemma default_sane: "sane default_store"
  using default_values
  by (simp add: sane_def in_ranges_def ranges_def flag_def dgains_def zebra_levels_def rack_range_u32_def)

lemma run_entries_sane: "set is \<subseteq> set all_entries \<Longrightarrow> sane st \<Longrightarrow> sane (fold run_entry is st)"
  by (induction "is" arbitrary: st) (auto intro: run_entry_sane)

lemma range_nonneg: "(v, R) \<in> set ranges \<Longrightarrow> x \<in> R \<Longrightarrow> 0 \<le> sint x"
  by (auto simp: ranges_def flag_def dgains_def zebra_levels_def rack_range_u32_def)

lemma sane_nonneg:
  assumes "sane st"
  shows "0 \<le> sint (st v)"
proof (cases "v \<in> fst ` set ranges")
  case True
  then show ?thesis using assms range_nonneg by (fastforce simp: sane_def in_ranges_def)
next
  case False
  have "0 \<le> sint (default_store v)"
  proof -
    have "list_all (\<lambda>(v, d). 0 \<le> sint d) (map snd config_ints)"
      by (simp add: config_ints_def config_decls size_defs)
    then have "map_of (map snd config_ints) v = Some d \<Longrightarrow> 0 \<le> sint d" for d
      by (fastforce simp: list_all_iff dest!: map_of_SomeD)
    then show ?thesis by (simp add: default_store_def split: option.split)
  qed
  then show ?thesis using assms False by (simp add: sane_def)
qed

subsection \<open>The file\<close>

lemma good_int_var:
  assumes "good_name nm" and "length nm \<le> 40" and "0 \<le> sint n"
  shows "good_var \<lparr>var_name = nm, var_value = CInt n\<rparr>"
proof -
  have "nat (sint n) < 10 ^ Suc 9" using sint_u32_less [of n] by (simp add: nat_less_iff)
  then have "length (digits 10 (nat (sint n))) \<le> Suc 9" by (intro length_digits_le) simp_all
  then show ?thesis
    using assms by (simp add: good_var_def save_line_def fmt_d_nonneg line_size_def MAX_NAME_LEN_def MAX_VALUE_LEN_def)
qed

lemma config_names: "list_all (\<lambda>(nm, v, d). good_name nm \<and> length nm \<le> 40) config_ints"
  by (simp add: config_ints_def config_decls good_name_def is_space_def ctrl_defs MAX_NAME_LEN_def)

lemma crop_file_good: "good_var crop_file_config"
  by (simp add: crop_file_config_def good_var_def good_name_def good_text_def is_space_def ctrl_defs MAX_NAME_LEN_def
    MAX_VALUE_LEN_def line_size_def save_line_def)

lemma saved_vars_good: "sane st \<Longrightarrow> \<forall>v \<in> set (saved_vars st). good_var v"
  using config_names crop_file_good good_int_var sane_nonneg
  by (fastforce simp: saved_vars_def list_all_iff)

lemma saved_vars_distinct: "distinct (map var_name (saved_vars st))"
proof -
  have "map var_name (saved_vars st) = ''crop.file'' # map fst config_ints"
    by (simp add: saved_vars_def crop_file_config_def case_prod_beta)
  also have "distinct \<dots>" by (simp add: config_ints_def config_decls)
  finally show ?thesis .
qed

lemma saved_vars_kind: "list_all2 same_kind (saved_vars st) (saved_vars st')"
  by (auto simp: saved_vars_def same_kind_def crop_file_config_def list_all2_conv_all_nth case_prod_beta nth_Cons
      split: nat.split)

subsection \<open>The property\<close>

text \<open>C4: Settings survive a restart: from the initial values on, whichever entries of the program's
  menus are selected and however often, every setting keeps its range, the configuration file is
  written once it can be created, and parsing what was written into the initial values of the next
  start gives every configuration variable of the program the value it was left with.\<close>

theorem settings_survive_restart:
  assumes "set is \<subseteq> set all_entries" and "orc [Fio (FIO_CreateFile fn)] \<noteq> INVALID_PTR"
    and "good_banner b" and "good_tm now" and "\<forall>es. orc' es \<noteq> 0"
  shows "in_ranges (fold run_entry is default_store)
    \<and> (\<exists>n w. config_save_file orc b now fn (saved_vars (fold run_entry is default_store)) idle_world = Some (n, w)
      \<and> (\<exists>cs w'. config_parse orc' (written (orc [Fio (FIO_CreateFile fn)]) (trace w)) [] (saved_vars default_store) w0
           = (Some cs, saved_vars (fold run_entry is default_store), w')))"
proof (intro conjI)
  let ?st = "fold run_entry is default_store"
  have sane: "sane ?st" by (rule run_entries_sane [OF assms(1) default_sane])
  then show "in_ranges ?st" by (simp add: sane_def)
  note good = saved_vars_good [OF sane]
  have "orc (trace idle_world @ [Fio (FIO_CreateFile fn)]) \<noteq> INVALID_PTR" using assms(2) by (simp add: idle_world_def)
  from save_succeeds [where orc = orc, OF this assms(3,4) good] obtain w where
    w: "config_save_file orc b now fn (saved_vars ?st) idle_world = Some (int (length (saved_vars ?st)), w)" by blast
  show "\<exists>n w. config_save_file orc b now fn (saved_vars ?st) idle_world = Some (n, w)
      \<and> (\<exists>cs w'. config_parse orc' (written (orc [Fio (FIO_CreateFile fn)]) (trace w)) [] (saved_vars default_store) w0
           = (Some cs, saved_vars ?st, w'))"
    using save_parse_back [OF w _ assms(3,4) good saved_vars_distinct saved_vars_kind assms(5)] w by auto
qed

text \<open>Zebras off, one press on the zebra level and two on the left gain.\<close>

definition sample_presses :: "entry_init list" where
  "sample_presses = [zebra_menus ! 0, zebra_menus ! 1, audio_menu_table ! 2, audio_menu_table ! 2]"

theorem settings_survive_restart_witness:
  "in_ranges (fold run_entry sample_presses default_store)
    \<and> (\<exists>n w. config_save_file (\<lambda>es. 7) sample_banner sample_tm ''A:/MAGIC.CFG'' (saved_vars (fold run_entry sample_presses default_store)) idle_world = Some (n, w)
      \<and> (\<exists>cs w'. config_parse (\<lambda>es. 4096) (written 7 (trace w)) [] (saved_vars default_store) idle_world
           = (Some cs, saved_vars (fold run_entry sample_presses default_store), w')))
    \<and> map (fold run_entry sample_presses default_store) [''zebra_draw'', ''zebra_level'', ''dgain_l'', ''dgain_r''] = [0, 0x3000, 30, 18]"
proof -
  have "zebra_menus ! 0 \<in> set (feature_table Zebra_feature)" "zebra_menus ! 1 \<in> set (feature_table Zebra_feature)"
    "audio_menu_table ! 2 \<in> set (feature_table Audio_feature)"
    by (simp_all add: zebra_menus_def audio_menu_table_def)
  then have s: "set sample_presses \<subseteq> set all_entries" by (auto simp: sample_presses_def all_entries_feature simp del: feature_table.simps)
  have g: "good_banner sample_banner" "good_tm sample_tm"
    by (simp_all add: sample_banner_def sample_tm_def good_banner_def good_tm_def ctrl_defs)
  have "map (fold run_entry sample_presses default_store) [''zebra_draw'', ''zebra_level'', ''dgain_l'', ''dgain_r''] = [0, 0x3000, 30, 18]"
    by code_simp
  then show ?thesis
    using settings_survive_restart [OF s, of "\<lambda>es. 7" "''A:/MAGIC.CFG''" sample_banner sample_tm "\<lambda>es. 4096" idle_world] g
    by (simp add: INVALID_PTR_def del: fold_simps)
qed

end
