(* ===== verification/Pymite.thy ===== *)
theory Pymite
  imports Bmp
begin

text \<open>
  \<open>pymite-plat.c\<close>: what the Python interpreter PyMite needs from its platform: reading program
  memory, the console, the clock, and the report of an error.  The interpreter is not part of the
  sources: its return code for success is \<open>ok\<close>, its clock and the place of its last error
  are arguments.  \<open>font_large\<close> is not declared by the \<open>bmp.h\<close> of these sources any more; its width and
  height are arguments too.
\<close>

datatype pm_mem_space =
  MEMSPACE_RAM | MEMSPACE_PROG | MEMSPACE_EEPROM | MEMSPACE_SEEPROM
| MEMSPACE_OTHER0 | MEMSPACE_OTHER1 | MEMSPACE_OTHER2 | MEMSPACE_OTHER3

record console = world +
  con_row :: int
  con_col :: int

definition plat_init :: "'r \<Rightarrow> 'r" where "plat_init ok = ok"

text \<open>The byte read, and the address after it.\<close>

definition plat_memGetByte :: "pm_mem_space \<Rightarrow> addr \<Rightarrow> memory \<Rightarrow> u8 \<times> addr" where
  "plat_memGetByte memspace paddr m =
     (if memspace = MEMSPACE_RAM \<or> memspace = MEMSPACE_PROG then (m paddr, paddr + 1) else (0, paddr))"

text \<open>The camera has no keyboard: reading a byte never returns.\<close>

partial_function (option) plat_getByte_loop :: "unit \<Rightarrow> 'r option" where
  "plat_getByte_loop u = plat_getByte_loop u"

definition plat_getByte :: "'r option" where "plat_getByte = plat_getByte_loop ()"

definition plat_putByte :: "'r \<Rightarrow> int \<Rightarrow> int \<Rightarrow> char \<Rightarrow> 'a console_scheme \<Rightarrow> 'r \<times> 'a console_scheme" where
  "plat_putByte ok width height b s =
     (if b \<noteq> LF then
        let s = emit (Draw (Bmp_printf FONT_LARGE (word_of_int (con_col s)) (word_of_int (con_row s)) (cstr [b]))) s
        in (ok, s\<lparr>con_col := i32 (con_col s + width)\<rparr>)
      else
        let s = s\<lparr>con_col := 0, con_row := i32 (con_row s + height)\<rparr>
        in (ok, if con_row s > 400 then s\<lparr>con_row := 30\<rparr> else s))"

definition plat_getMsTicks :: "'r \<Rightarrow> u32 \<Rightarrow> 'r \<times> u32" where
  "plat_getMsTicks ok pm_timerMsTicks = (ok, pm_timerMsTicks)"

definition plat_reportError ::
  "int \<Rightarrow> int \<Rightarrow> u32 \<Rightarrow> u32 \<Rightarrow> int \<Rightarrow> 'a console_scheme \<Rightarrow> 'a console_scheme" where
  "plat_reportError width height result errFileId errLineNum s =
     (let s = fold (\<lambda>b s. snd (plat_putByte () width height b s)) [CHR ''E'', CHR ''r'', CHR ''r'', LF] s
      in emit (Draw (Bmp_printf (FONT FONT_LARGE COLOR_WHITE COLOR_RED) 10 30
           (''ERROR: '' @ fmt_0x 2 result @ '' file 0x'' @ fmt_0x 2 errFileId @ ''.'' @ fmt_d 0 errLineNum))) s)"

subsection \<open>The console\<close>

definition put_text :: "int \<Rightarrow> int \<Rightarrow> string \<Rightarrow> 'a console_scheme \<Rightarrow> 'a console_scheme" where
  "put_text width height = fold (\<lambda>b s. snd (plat_putByte () width height b s))"

lemma put_text_simps [simp]:
  "put_text width height [] s = s"
  "put_text width height (b # bs) s = put_text width height bs (snd (plat_putByte () width height b s))"
  by (simp_all add: put_text_def)

lemma put_text_append: "put_text width height (t @ u) s = put_text width height u (put_text width height t s)"
  by (simp add: put_text_def)

lemma getByte_never_returns: "plat_getByte = (None :: 'r option)"
proof -
  have "plat_getByte_loop u = Some r \<Longrightarrow> False" for u and r :: 'r
    by (rule plat_getByte_loop.raw_induct [of "\<lambda>_ _. False"]) simp_all
  then show ?thesis unfolding plat_getByte_def by (cases "plat_getByte_loop () :: 'r option") auto
qed

text \<open>Whatever is printed, the row of the console stays on the screen.\<close>

lemma console_row_stays:
  assumes "0 < height" and "height < 2 ^ 30" and "30 \<le> con_row s" and "con_row s \<le> 400"
  shows "30 \<le> con_row (put_text width height t s) \<and> con_row (put_text width height t s) \<le> 400"
  using assms(3,4)
proof (induction t arbitrary: s)
  case (Cons b t)
  have "i32 (con_row s + height) = con_row s + height"
    using assms(1,2) Cons.prems by (intro i32_id) auto
  then show ?case using Cons assms(1) by (simp add: plat_putByte_def emit_def Let_def)
qed simp

text \<open>A line without a NUL is drawn character by character from left to right; then the line feed
  takes the console to the start of the next row.\<close>

lemma console_line:
  assumes "LF \<notin> set t" and "NUL \<notin> set t" and "0 \<le> con_col s" and "0 \<le> width"
    and "con_col s + int (length t) * width < 2 ^ 31"
  shows "put_text width height t s = s\<lparr>con_col := con_col s + int (length t) * width,
    trace := trace s @ map (\<lambda>k. Draw (Bmp_printf FONT_LARGE (word_of_int (con_col s + int k * width)) (word_of_int (con_row s)) [t ! k]))
      [0..<length t]\<rparr>"
  using assms
proof (induction t arbitrary: s)
  case (Cons b t)
  have "0 \<le> int (length t) * width" using Cons.prems(4) by simp
  moreover have "int (length (b # t)) * width = width + int (length t) * width" by (simp add: distrib_right)
  ultimately have step: "i32 (con_col s + width) = con_col s + width"
    using Cons.prems(3-5) by (intro i32_id) linarith+
  have b: "snd (plat_putByte () width height b s) = (emit (Draw (Bmp_printf FONT_LARGE (word_of_int (con_col s)) (word_of_int (con_row s)) [b])) s)
      \<lparr>con_col := con_col s + width\<rparr>" (is "_ = ?s")
    using Cons.prems(1,2) step by (simp add: plat_putByte_def emit_def cstr_def Let_def eq_commute)
  have "put_text width height t ?s = ?s\<lparr>con_col := con_col ?s + int (length t) * width,
    trace := trace ?s @ map (\<lambda>k. Draw (Bmp_printf FONT_LARGE (word_of_int (con_col ?s + int k * width)) (word_of_int (con_row ?s)) [t ! k]))
      [0..<length t]\<rparr>"
    using Cons.prems by (intro Cons.IH) (simp_all add: algebra_simps)
  then show ?case
    unfolding put_text_simps b by (simp add: emit_def map_upt_Suc distrib_right add.assoc del: upt_Suc)
qed simp

lemma console_newline:
  assumes "- (2 ^ 31) \<le> con_row s + height" and "con_row s + height < 2 ^ 31"
  shows "put_text width height [LF] s =
    s\<lparr>con_col := 0, con_row := (if con_row s + height > 400 then 30 else con_row s + height)\<rparr>"
  using assms by (simp add: plat_putByte_def i32_id Let_def)

end
